(* ===== verification/Prelude.thy ===== *)
theory Prelude
  imports Main "HOL-Library.Word" "HOL-Library.Sublist"
begin

text \<open>
  Shared vocabulary of the development: the machine integers and the error codes that every
  component of \<^verbatim>\<open>cpp_components/\<close> uses, the collections of proof rules, and the generic
  lemmas on lists and words that the component theories rely on.
\<close>

unbundle bit_operations_syntax

section \<open>Types shared by the components\<close>

text \<open>\<^verbatim>\<open>uint64_t\<close> and, on the supported 64-bit Linux targets, \<^verbatim>\<open>size_t\<close>.\<close>

type_synonym u64 = "64 word"

text \<open>
  A \<^verbatim>\<open>std::error_code\<close> is \<open>None\<close> for the empty code \<^verbatim>\<open>{}\<close> (which converts to false) and
  \<open>Some e\<close> for an error. The named constructors are the \<^verbatim>\<open>std::errc\<close> values the sources
  build with \<^verbatim>\<open>std::make_error_code\<close>; \<open>operation_aborted\<close> is Asio's code for a cancelled
  operation; every other code that the operating system, Asio, OpenSSL or libcurl reports is a
  \<open>Sys_error\<close>.
\<close>

datatype errc =
    already_connected
  | not_connected
  | message_size
  | no_buffer_space
  | operation_not_permitted
  | operation_canceled
  | operation_in_progress
  | timed_out
  | invalid_argument
  | resource_unavailable_try_again
  | io_error
  | host_unreachable
  | connection_refused
  | operation_aborted
  | Sys_error int

type_synonym error_code = "errc option"

text \<open>A code made of a number that another library returns; the number 0 makes the empty code.\<close>

definition make_code :: "int \<Rightarrow> error_code" where
  "make_code value = (if value = 0 then None else Some (Sys_error value))"

text \<open>
  Durations and time points of \<^verbatim>\<open>std::chrono::steady_clock\<close>, in nanoseconds.
\<close>

type_synonym duration = int
type_synonym time_point = int

definition milliseconds :: "int \<Rightarrow> duration" where
  "milliseconds n = n * 1000000"

definition seconds :: "int \<Rightarrow> duration" where
  "seconds n = n * 1000000000"

text \<open>
  The representation of a duration is a signed 64-bit count of nanoseconds; an arithmetic result that does not
  fit is undefined in C++ and wraps around on the machine.
\<close>

definition as_int64 :: "int \<Rightarrow> int" where
  "as_int64 x = (x + 2 ^ 63) mod 2 ^ 64 - 2 ^ 63"

lemma as_int64_fits: "- (2 ^ 63) \<le> x \<Longrightarrow> x < 2 ^ 63 \<Longrightarrow> as_int64 x = x"
  by (simp add: as_int64_def)

section \<open>Collections of proof rules\<close>

text \<open>
  \<open>frame_simps\<close> collects what an operation leaves alone, \<open>effect_simps\<close> what it changes.
\<close>

named_theorems frame_simps
named_theorems effect_simps

section \<open>Runs\<close>

text \<open>A run of a step relation, extended by one step in a calculation.\<close>

lemmas steps_step_trans [trans] = rtranclp.rtrancl_into_rtrancl

section \<open>Lists\<close>

lemma map_nth_upt_Suc:
  "map f [0..<Suc n] = f 0 # map (\<lambda>i. f (Suc i)) [0..<n]"
  by (simp add: upt_conv_Cons map_Suc_upt [symmetric] del: upt_Suc)

lemma subseq_snoc: "subseq xs ys \<Longrightarrow> subseq (xs @ [z]) (ys @ [z])"
  by simp

lemma subseq_appendI: "subseq xs ys \<Longrightarrow> subseq xs (ys @ zs)"
  by (rule subseq_rev_drop_many)

lemma length_filter_remove_nth:
  assumes "i < length xs"
  shows "length (filter P (take i xs @ drop (Suc i) xs)) + (if P (xs ! i) then 1 else 0) =
         length (filter P xs)"
proof -
  have "filter P xs = filter P (take i xs) @ filter P (xs ! i # drop (Suc i) xs)"
    using assms by (metis filter_append id_take_nth_drop)
  then show ?thesis by simp
qed

lemma filter_eq_singleton_nth:
  assumes "filter P xs = [x]" and "i < length xs" and "P (xs ! i)" and "j < length xs" and "P (xs ! j)"
  shows "i = j"
proof (rule ccontr)
  assume "i \<noteq> j"
  have "card {k. k < length xs \<and> P (xs ! k)} = 1"
    using arg_cong [OF assms(1), of length] by (simp add: length_filter_conv_card)
  then obtain k where k: "{k. k < length xs \<and> P (xs ! k)} = {k}" by (rule card_1_singletonE)
  have "i \<in> {k. k < length xs \<and> P (xs ! k)}" "j \<in> {k. k < length xs \<and> P (xs ! k)}"
    using assms(2-5) by simp_all
  with k \<open>i \<noteq> j\<close> show False by simp
qed

lemma set_remove_nth: "set (take i xs @ drop (Suc i) xs) \<subseteq> set xs"
  by (auto dest: in_set_takeD in_set_dropD)

section \<open>Words\<close>

lemma unat_of_nat_u64: "n < 2 ^ 64 \<Longrightarrow> unat (of_nat n :: u64) = n"
  by (simp add: unat_of_nat take_bit_nat_eq_self)

lemma unat_plus_of_nat_u64: "unat (w + of_nat n :: u64) = (unat w + n) mod 2 ^ 64"
  by (simp add: unat_word_ariths unat_of_nat take_bit_eq_mod mod_add_right_eq)

lemma of_nat_unat_diff_u64: "(h :: u64) + of_nat (unat (t - h)) = t"
  by simp

text \<open>Generation counters that have not wrapped around.\<close>

lemma unat_Suc_generation:
  "unat (g :: u64) < 2 ^ 64 - 1 \<Longrightarrow> unat (g + 1) = Suc (unat g)"
  using unat_plus_of_nat_u64 [of g 1] by simp

lemma less_Suc_generation:
  fixes g k :: u64
  assumes "unat g < 2 ^ 64 - 1" and "k \<le> g"
  shows "k < g + 1"
  using assms by (simp add: word_less_nat_alt word_le_nat_alt unat_Suc_generation)

end
