(* ===== verification/Fixed_Ring_Buffer.thy ===== *)
theory Fixed_Ring_Buffer
  imports Prelude
begin

text \<open>
  \<^verbatim>\<open>cpp_components/fixed_ring_buffer/fixed_ring_buffer.h\<close>: a fixed-capacity FIFO over an array
  that is addressed by two free-running 64-bit positions. The record \<open>ring\<close> has the class's three
  data members; the template argument \<^verbatim>\<open>capacity\<close> is the length of the array. An operation that
  \<^verbatim>\<open>assert\<close>s a condition returns \<open>None\<close> when the assertion fails (the process aborts) and
  \<open>Some\<close> of its result otherwise. A returned reference \<^verbatim>\<open>T &\<close> is modelled by the value it
  refers to and by an operation that assigns through it.

  The theory shows that the ring implements a bounded queue of at most \<^verbatim>\<open>capacity\<close> elements
  also while its positions wrap around, and states that contract as the locale
  \<open>bounded_fifo\<close>, which the clients of the ring use.
\<close>

section \<open>The class\<close>

record 'a ring =
  buffer :: "'a list"
  head :: u64
  tail :: u64

text \<open>\<^verbatim>\<open>std::has_single_bit\<close> on \<^verbatim>\<open>size_t\<close>: the constraint on the template argument.\<close>

definition has_single_bit :: "nat \<Rightarrow> bool" where
  "has_single_bit n \<longleftrightarrow> (\<exists>k \<in> set [0..<64]. n = 2 ^ k)"

text \<open>The default-initialised object: \<^verbatim>\<open>buffer {}\<close>, \<^verbatim>\<open>head = 0\<close>, \<^verbatim>\<open>tail = 0\<close>.\<close>

definition new_ring :: "nat \<Rightarrow> 'a \<Rightarrow> 'a ring" where
  "new_ring capacity dflt = \<lparr>buffer = replicate capacity dflt, head = 0, tail = 0\<rparr>"

definition get_capacity :: "'a ring \<Rightarrow> nat" where
  "get_capacity r = length (buffer r)"

definition get_size :: "'a ring \<Rightarrow> nat" where
  "get_size r = unat (tail r - head r)"

definition is_empty :: "'a ring \<Rightarrow> bool" where
  "is_empty r \<longleftrightarrow> head r = tail r"

definition is_full :: "'a ring \<Rightarrow> bool" where
  "is_full r \<longleftrightarrow> get_size r = get_capacity r"

definition get_index :: "'a ring \<Rightarrow> u64 \<Rightarrow> nat" where
  "get_index r pos = unat (pos AND (of_nat (get_capacity r) - 1))"

definition get_back_slot :: "'a ring \<Rightarrow> 'a option" where
  "get_back_slot r = (if is_full r then None else Some (buffer r ! get_index r (tail r)))"

text \<open>Assignment through the reference that \<^verbatim>\<open>get_back_slot()\<close> returns.\<close>

definition set_back_slot :: "'a ring \<Rightarrow> 'a \<Rightarrow> 'a ring" where
  "set_back_slot r v = r\<lparr>buffer := (buffer r)[get_index r (tail r) := v]\<rparr>"

definition push_back :: "'a ring \<Rightarrow> 'a ring option" where
  "push_back r = (if is_full r then None else Some (r\<lparr>tail := tail r + 1\<rparr>))"

text \<open>
  \<^verbatim>\<open>push_back(const T &)\<close> and \<^verbatim>\<open>push_back(T &&)\<close>: both assign the value to the free element
  and differ only in what is left in the argument.
\<close>

definition push_back_value :: "'a ring \<Rightarrow> 'a \<Rightarrow> 'a ring option" where
  "push_back_value r v =
     (if is_full r then None
      else Some (r\<lparr>buffer := (buffer r)[get_index r (tail r) := v], tail := tail r + 1\<rparr>))"

text \<open>\<^verbatim>\<open>get_front()\<close>, in its two overloads.\<close>

definition get_front :: "'a ring \<Rightarrow> 'a option" where
  "get_front r = (if is_empty r then None else Some (buffer r ! get_index r (head r)))"

text \<open>Assignment through the reference that \<^verbatim>\<open>get_front()\<close> returns.\<close>

definition set_front :: "'a ring \<Rightarrow> 'a \<Rightarrow> 'a ring" where
  "set_front r v = r\<lparr>buffer := (buffer r)[get_index r (head r) := v]\<rparr>"

definition pop_front :: "'a ring \<Rightarrow> 'a ring option" where
  "pop_front r = (if is_empty r then None else Some (r\<lparr>head := head r + 1\<rparr>))"

lemmas ring_defs = get_capacity_def get_size_def is_empty_def is_full_def get_back_slot_def
  set_back_slot_def push_back_def push_back_value_def get_front_def set_front_def pop_front_def

section \<open>The invariant and the queue a ring represents\<close>

text \<open>
  The capacity is a power of two that fits \<^verbatim>\<open>size_t\<close>, and no more than \<^verbatim>\<open>capacity\<close> elements
  are queued. The positions themselves are arbitrary: they run freely modulo \<open>2 ^ 64\<close>.
\<close>

definition ring_inv :: "'a ring \<Rightarrow> bool" where
  "ring_inv r \<longleftrightarrow> has_single_bit (get_capacity r) \<and> get_size r \<le> get_capacity r"

definition queued :: "'a ring \<Rightarrow> 'a list" where
  "queued r = map (\<lambda>i. buffer r ! get_index r (head r + of_nat i)) [0..<get_size r]"

lemma has_single_bitE:
  assumes "has_single_bit n"
  obtains k where "k < 64" and "n = 2 ^ k"
  using assms by (auto simp: has_single_bit_def)

lemma has_single_bit_bounds: "has_single_bit n \<Longrightarrow> 0 < n \<and> n < 2 ^ 64"
proof (elim has_single_bitE)
  fix k assume "k < 64" and "n = 2 ^ k"
  moreover from this(1) have "(2::nat) ^ k < 2 ^ 64"
    by (intro power_strict_increasing) simp_all
  ultimately show ?thesis by simp
qed

lemma get_index_mod:
  assumes "has_single_bit (get_capacity r)"
  shows "get_index r pos = unat pos mod get_capacity r"
proof -
  obtain k where k: "k < 64" and cap: "get_capacity r = 2 ^ k"
    using assms by (rule has_single_bitE)
  have "of_nat (get_capacity r) - 1 = (mask k :: u64)"
    by (simp add: cap mask_eq_exp_minus_1)
  then have "get_index r pos = unat (take_bit k pos)"
    by (simp add: get_index_def take_bit_eq_mask)
  also have "\<dots> = take_bit k (unat pos)"
    by (simp add: unsigned_take_bit_eq)
  finally show ?thesis
    by (simp add: cap take_bit_eq_mod)
qed

lemma get_index_offset:
  assumes "has_single_bit (get_capacity r)"
  shows "get_index r (pos + of_nat i) = (unat pos + i) mod get_capacity r"
proof -
  obtain k where k: "k < 64" and cap: "get_capacity r = 2 ^ k"
    using assms by (rule has_single_bitE)
  have "(2::nat) ^ k dvd 2 ^ 64"
    using k by (intro le_imp_power_dvd) simp
  then show ?thesis
    using assms by (simp add: get_index_mod unat_plus_of_nat_u64 cap mod_mod_cancel)
qed

lemma queued_mod:
  assumes "has_single_bit (get_capacity r)"
  shows "queued r = map (\<lambda>i. buffer r ! ((unat (head r) + i) mod get_capacity r)) [0..<get_size r]"
  using assms by (simp add: queued_def get_index_offset)

lemma length_queued [simp]: "length (queued r) = get_size r"
  by (simp add: queued_def)

lemma tail_index:
  assumes "has_single_bit (get_capacity r)"
  shows "get_index r (tail r) = (unat (head r) + get_size r) mod get_capacity r"
  using get_index_offset [OF assms, of "head r" "get_size r"]
  by (simp add: get_size_def)

lemma mod_index_inj_le:
  fixes h i j c :: nat
  assumes "i \<le> j" and "j < c" and "(h + j) mod c = (h + i) mod c"
  shows "i = j"
proof -
  have "c dvd (h + j) - (h + i)"
    using assms by (simp add: mod_eq_dvd_iff_nat)
  with assms show ?thesis by (auto dest: dvd_imp_le)
qed

lemma mod_index_inj:
  fixes h i j c :: nat
  assumes "i < c" and "j < c" and "(h + i) mod c = (h + j) mod c"
  shows "i = j"
  using assms mod_index_inj_le [of i j c h] mod_index_inj_le [of j i c h]
  by (cases "i \<le> j") simp_all

lemma is_empty_iff_size: "is_empty r \<longleftrightarrow> get_size r = 0"
  by (auto simp: is_empty_def get_size_def unat_eq_0)

section \<open>Each operation on the queue\<close>

lemma new_ring_inv: "has_single_bit n \<Longrightarrow> ring_inv (new_ring n d)"
  by (simp add: ring_inv_def new_ring_def ring_defs)

lemma queued_new_ring [simp]: "queued (new_ring n d) = []"
  by (simp add: queued_def new_ring_def ring_defs)

lemma get_capacity_simps [simp]:
  "get_capacity (new_ring n d) = n"
  "get_capacity (set_back_slot r v) = get_capacity r"
  "get_capacity (set_front r v) = get_capacity r"
  by (auto simp: new_ring_def ring_defs split: if_splits)

lemma get_capacity_moves:
  "push_back r = Some r' \<Longrightarrow> get_capacity r' = get_capacity r"
  "push_back_value r v = Some r' \<Longrightarrow> get_capacity r' = get_capacity r"
  "pop_front r = Some r' \<Longrightarrow> get_capacity r' = get_capacity r"
  by (auto simp: new_ring_def ring_defs split: if_splits)

lemma ring_inv_bounds:
  assumes "ring_inv r"
  shows "has_single_bit (get_capacity r)" and "get_size r \<le> get_capacity r"
    and "0 < get_capacity r" and "get_capacity r < 2 ^ 64"
  using assms has_single_bit_bounds [of "get_capacity r"] by (auto simp: ring_inv_def)

lemma is_empty_iff: "is_empty r \<longleftrightarrow> queued r = []"
  by (simp add: is_empty_iff_size flip: length_0_conv)

lemma is_full_iff: "is_full r \<longleftrightarrow> length (queued r) = get_capacity r"
  by (simp add: is_full_def)

lemma get_size_tail_Suc:
  assumes "ring_inv r" and "\<not> is_full r"
  shows "get_size (r\<lparr>tail := tail r + 1\<rparr>) = Suc (get_size r)"
proof -
  have "get_size r + 1 < 2 ^ 64"
    using assms ring_inv_bounds [OF assms(1)] by (simp add: is_full_def)
  moreover have eq: "tail r + 1 - head r = (tail r - head r) + of_nat 1"
    by simp
  ultimately have "unat (tail r + 1 - head r) = Suc (unat (tail r - head r))"
    by (simp only: eq unat_plus_of_nat_u64 get_size_def) simp
  then show ?thesis by (simp add: get_size_def)
qed

lemma get_size_head_Suc:
  assumes "\<not> is_empty r"
  shows "get_size r = Suc (get_size (r\<lparr>head := head r + 1\<rparr>))"
proof -
  let ?w = "tail r - (head r + 1)"
  have eq: "tail r - head r = ?w + of_nat 1" by simp
  have "unat ?w < 2 ^ 64" using unsigned_less [of ?w] by simp
  moreover have "unat ?w + 1 \<noteq> 2 ^ 64"
  proof
    assume "unat ?w + 1 = 2 ^ 64"
    then have "unat (tail r - head r) = 0"
      by (simp only: eq unat_plus_of_nat_u64) simp
    with assms show False by (simp add: is_empty_iff_size get_size_def)
  qed
  ultimately have "unat (tail r - head r) = Suc (unat ?w)"
    by (simp only: eq unat_plus_of_nat_u64) simp
  then show ?thesis by (simp add: get_size_def)
qed

lemma queued_set_back_slot:
  assumes "ring_inv r" and "\<not> is_full r"
  shows "queued (set_back_slot r v) = queued r"
proof -
  note b = ring_inv_bounds [OF assms(1)]
  have sz: "get_size r < get_capacity r"
    using assms b by (simp add: is_full_def)
  have ne: "(unat (head r) + i) mod get_capacity r \<noteq> get_index r (tail r)" if "i < get_size r" for i
    using that sz mod_index_inj [of i "get_capacity r" "get_size r" "unat (head r)"]
    by (auto simp: tail_index b)
  have hs: "has_single_bit (get_capacity (set_back_slot r v))" using b by simp
  have "get_size (set_back_slot r v) = get_size r" "head (set_back_slot r v) = head r"
      "buffer (set_back_slot r v) = (buffer r)[get_index r (tail r) := v]"
    by (simp_all add: ring_defs)
  then show ?thesis
    using ne by (auto simp: queued_mod [OF b(1)] queued_mod [OF hs]) (metis nth_list_update_neq)
qed

lemma back_slot_index_less: "ring_inv r \<Longrightarrow> get_index r (tail r) < length (buffer r)"
  using ring_inv_bounds [of r] by (simp add: tail_index get_capacity_def)

lemma ring_inv_set_back_slot: "ring_inv r \<Longrightarrow> ring_inv (set_back_slot r v)"
  by (simp add: ring_inv_def ring_defs)

lemma is_full_set_back_slot [simp]: "is_full (set_back_slot r v) = is_full r"
  by (simp add: ring_defs)

lemma back_slot_after_set:
  "ring_inv r \<Longrightarrow> buffer (set_back_slot r v) ! get_index (set_back_slot r v) (tail (set_back_slot r v)) = v"
  using back_slot_index_less [of r] by (simp add: set_back_slot_def get_index_def get_capacity_def)

lemma push_back_SomeD:
  assumes "ring_inv r" and "push_back r = Some r'"
  shows "ring_inv r'" and "queued r' = queued r @ [buffer r ! get_index r (tail r)]"
proof -
  note b = ring_inv_bounds [OF assms(1)]
  from assms(2) have nf: "\<not> is_full r" and r': "r' = r\<lparr>tail := tail r + 1\<rparr>"
    by (auto simp: push_back_def split: if_splits)
  have sz: "get_size r' = Suc (get_size r)"
    using get_size_tail_Suc [OF assms(1) nf] by (simp add: r')
  have cap: "get_capacity r' = get_capacity r" using assms(2) by (rule get_capacity_moves)
  show "ring_inv r'"
    using nf b sz cap by (simp add: ring_inv_def is_full_def)
  show "queued r' = queued r @ [buffer r ! get_index r (tail r)]"
    using b by (simp add: queued_mod sz cap tail_index) (simp add: r')
qed

lemma push_back_None_iff: "push_back r = None \<longleftrightarrow> is_full r"
  by (simp add: push_back_def)

text \<open>Filling the free element and pushing it is the push of the value.\<close>

lemma push_back_value_eq: "push_back_value r v = push_back (set_back_slot r v)"
  by (simp add: push_back_value_def push_back_def) (simp add: set_back_slot_def)

lemma push_back_value_SomeD:
  assumes "ring_inv r" and "push_back_value r v = Some r'"
  shows "ring_inv r'" and "queued r' = queued r @ [v]"
proof -
  from assms(2) have nf: "\<not> is_full r"
    by (auto simp: push_back_value_def split: if_splits)
  have p: "push_back (set_back_slot r v) = Some r'"
    using assms(2) by (simp add: push_back_value_eq)
  note d = push_back_SomeD [OF ring_inv_set_back_slot [OF assms(1)] p]
  show "ring_inv r'" by (rule d(1))
  show "queued r' = queued r @ [v]"
    using d(2) queued_set_back_slot [OF assms(1) nf] back_slot_after_set [OF assms(1)] by simp
qed

lemma get_front_eq:
  assumes "ring_inv r"
  shows "get_front r = (case queued r of [] \<Rightarrow> None | x # _ \<Rightarrow> Some x)"
proof (cases "get_size r")
  case 0
  then show ?thesis by (simp add: get_front_def is_empty_iff_size queued_def)
next
  case (Suc n)
  then show ?thesis
    by (simp add: get_front_def is_empty_iff_size queued_def map_nth_upt_Suc del: upt_Suc)
qed

lemma pop_front_SomeD:
  assumes "ring_inv r" and "pop_front r = Some r'"
  shows "ring_inv r'" and "queued r' = tl (queued r)"
proof -
  note b = ring_inv_bounds [OF assms(1)]
  from assms(2) have ne: "\<not> is_empty r" and r': "r' = r\<lparr>head := head r + 1\<rparr>"
    by (auto simp: pop_front_def split: if_splits)
  have sz: "get_size r = Suc (get_size r')"
    using get_size_head_Suc [OF ne] by (simp add: r')
  have cap: "get_capacity r' = get_capacity r" using assms(2) by (rule get_capacity_moves)
  show "ring_inv r'" using b sz cap by (simp add: ring_inv_def)
  show "queued r' = tl (queued r)"
    by (simp add: queued_def sz map_nth_upt_Suc del: upt_Suc)
      (simp add: r' get_index_def get_capacity_def add.assoc)
qed

lemma pop_front_None_iff: "pop_front r = None \<longleftrightarrow> is_empty r"
  by (simp add: pop_front_def)

lemma set_front_simps:
  assumes "ring_inv r" and "\<not> is_empty r"
  shows "ring_inv (set_front r v)" and "queued (set_front r v) = v # tl (queued r)"
proof -
  note b = ring_inv_bounds [OF assms(1)]
  show "ring_inv (set_front r v)"
    using assms(1) by (simp add: ring_inv_def ring_defs)
  obtain n where n: "get_size r = Suc n"
    using assms(2) by (cases "get_size r") (auto simp: is_empty_iff_size)
  have hs: "has_single_bit (get_capacity (set_front r v))" using b by simp
  have eqs: "get_size (set_front r v) = get_size r" "head (set_front r v) = head r"
      "buffer (set_front r v) = (buffer r)[get_index r (head r) := v]"
    by (simp_all add: ring_defs)
  have hd: "get_index r (head r) = (unat (head r) + 0) mod get_capacity r"
    by (simp add: get_index_mod b)
  have ne: "(unat (head r) + Suc i) mod get_capacity r \<noteq> get_index r (head r)" if "i < n" for i
    using that n b mod_index_inj [of "Suc i" "get_capacity r" 0 "unat (head r)"]
    by (auto simp: hd)
  have less: "get_index r (head r) < length (buffer r)"
    using b by (simp add: hd flip: get_capacity_def)
  show "queued (set_front r v) = v # tl (queued r)"
    using ne less by (auto simp: queued_mod [OF b(1)] queued_mod [OF hs] eqs n map_nth_upt_Suc hd
        simp del: upt_Suc) (metis nth_list_update_neq)
qed

section \<open>The contract: a bounded FIFO queue\<close>

text \<open>
  A sequence of pushes and pops, run on any queue through its operations (\<open>fifo_run\<close>) and on the
  abstract queue, a list of at most \<open>cap\<close> elements (\<open>fifo_spec\<close>). The result is the popped
  elements and the final queue, or \<open>None\<close> when an assertion fails on the way.
\<close>

datatype 'a fifo_op = Push 'a | Pop

fun fifo_spec :: "nat \<Rightarrow> 'a list \<Rightarrow> 'a fifo_op list \<Rightarrow> ('a list \<times> 'a list) option" where
  "fifo_spec cap xs [] = Some ([], xs)"
| "fifo_spec cap xs (Push v # ops) =
     (if length xs = cap then None else fifo_spec cap (xs @ [v]) ops)"
| "fifo_spec cap xs (Pop # ops) =
     (case xs of [] \<Rightarrow> None
      | x # xs' \<Rightarrow> map_option (apfst ((#) x)) (fifo_spec cap xs' ops))"

fun fifo_run :: "('q \<Rightarrow> 'a \<Rightarrow> 'q option) \<Rightarrow> ('q \<Rightarrow> 'a option) \<Rightarrow> ('q \<Rightarrow> 'q option) \<Rightarrow>
    'q \<Rightarrow> 'a fifo_op list \<Rightarrow> ('a list \<times> 'q) option" where
  "fifo_run push front pop q [] = Some ([], q)"
| "fifo_run push front pop q (Push v # ops) =
     (case push q v of None \<Rightarrow> None | Some q' \<Rightarrow> fifo_run push front pop q' ops)"
| "fifo_run push front pop q (Pop # ops) =
     (case front q of None \<Rightarrow> None
      | Some x \<Rightarrow>
          (case pop q of None \<Rightarrow> None
           | Some q' \<Rightarrow> map_option (apfst ((#) x)) (fifo_run push front pop q' ops)))"

fun pushed :: "'a fifo_op list \<Rightarrow> 'a list" where
  "pushed [] = []"
| "pushed (Push v # ops) = v # pushed ops"
| "pushed (Pop # ops) = pushed ops"

lemma fifo_spec_order:
  "fifo_spec cap xs ops = Some (out, ys) \<Longrightarrow> out @ ys = xs @ pushed ops"
  by (induction cap xs ops arbitrary: out rule: fifo_spec.induct)
    (auto split: if_splits list.splits)

lemma fifo_spec_bounded:
  "fifo_spec cap xs ops = Some (out, ys) \<Longrightarrow> length xs \<le> cap \<Longrightarrow> length ys \<le> cap"
  by (induction cap xs ops arbitrary: out rule: fifo_spec.induct)
    (auto split: if_splits list.splits)

locale bounded_fifo =
  fixes inv :: "'q \<Rightarrow> bool"
    and items :: "'q \<Rightarrow> 'a list"
    and cap :: "'q \<Rightarrow> nat"
    and push :: "'q \<Rightarrow> 'a \<Rightarrow> 'q option"
    and front :: "'q \<Rightarrow> 'a option"
    and pop :: "'q \<Rightarrow> 'q option"
  assumes bounded: "inv q \<Longrightarrow> length (items q) \<le> cap q"
    and push_fails: "inv q \<Longrightarrow> push q v = None \<longleftrightarrow> length (items q) = cap q"
    and push_inv: "inv q \<Longrightarrow> push q v = Some q' \<Longrightarrow> inv q'"
    and push_items: "inv q \<Longrightarrow> push q v = Some q' \<Longrightarrow> items q' = items q @ [v]"
    and push_cap: "inv q \<Longrightarrow> push q v = Some q' \<Longrightarrow> cap q' = cap q"
    and front_items: "inv q \<Longrightarrow> front q = (case items q of [] \<Rightarrow> None | x # _ \<Rightarrow> Some x)"
    and pop_fails: "inv q \<Longrightarrow> pop q = None \<longleftrightarrow> items q = []"
    and pop_inv: "inv q \<Longrightarrow> pop q = Some q' \<Longrightarrow> inv q'"
    and pop_items: "inv q \<Longrightarrow> pop q = Some q' \<Longrightarrow> items q' = tl (items q)"
    and pop_cap: "inv q \<Longrightarrow> pop q = Some q' \<Longrightarrow> cap q' = cap q"
begin

lemma push_not_full:
  assumes "inv q" and "length (items q) \<noteq> cap q"
  obtains q' where "push q v = Some q'" and "inv q'" and "items q' = items q @ [v]"
    and "cap q' = cap q"
proof (cases "push q v")
  case None
  with assms show thesis by (simp add: push_fails)
next
  case (Some q')
  with assms show thesis using push_inv push_items push_cap by (intro that [of q']) blast+
qed

lemma pop_not_empty:
  assumes "inv q" and "items q = x # xs"
  obtains q' where "front q = Some x" and "pop q = Some q'" and "inv q'" and "items q' = xs"
    and "cap q' = cap q"
proof (cases "pop q")
  case None
  with assms show thesis by (simp add: pop_fails)
next
  case (Some q')
  have "front q = Some x" using assms by (simp add: front_items)
  moreover have "items q' = xs" using pop_items [OF assms(1) Some] assms(2) by simp
  ultimately show thesis
    using Some pop_inv [OF assms(1) Some] pop_cap [OF assms(1) Some] by (intro that)
qed

lemma run_refines:
  "inv q \<Longrightarrow> map_option (apsnd items) (fifo_run push front pop q ops) = fifo_spec (cap q) (items q) ops"
proof (induction ops arbitrary: q)
  case Nil
  then show ?case by simp
next
  case (Cons a ops)
  show ?case
  proof (cases a)
    case (Push v)
    show ?thesis
    proof (cases "length (items q) = cap q")
      case True
      with Cons.prems have "push q v = None" by (simp add: push_fails)
      with Push True show ?thesis by simp
    next
      case False
      with Cons.prems obtain q' where "push q v = Some q'" "inv q'" "items q' = items q @ [v]"
          "cap q' = cap q"
        by (rule push_not_full)
      with Push False Cons.IH [of q'] show ?thesis by simp
    qed
  next
    case Pop
    show ?thesis
    proof (cases "items q")
      case Nil
      with Cons.prems Pop show ?thesis by (simp add: front_items)
    next
      case (Cons x xs)
      with Cons.prems obtain q' where "front q = Some x" "pop q = Some q'" "inv q'"
          "items q' = xs" "cap q' = cap q"
        by (rule pop_not_empty)
      with Pop Cons Cons.IH [of q', symmetric] show ?thesis
        by (simp add: option.map_comp comp_def apfst_def apsnd_def map_prod_def case_prod_beta)
    qed
  qed
qed

lemma run_fifo:
  assumes "inv q" and "fifo_run push front pop q ops = Some (out, q')"
  shows "out @ items q' = items q @ pushed ops" and "length (items q') \<le> cap q"
proof -
  have s: "fifo_spec (cap q) (items q) ops = Some (out, items q')"
    using run_refines [OF assms(1), of ops] assms(2) by simp
  show "out @ items q' = items q @ pushed ops"
    using s by (rule fifo_spec_order)
  show "length (items q') \<le> cap q"
    using s bounded [OF assms(1)] by (rule fifo_spec_bounded)
qed

end

interpretation rq: bounded_fifo ring_inv queued get_capacity push_back_value get_front pop_front
proof unfold_locales
  fix q q' :: "'a ring" and v :: 'a
  assume inv: "ring_inv q"
  show "length (queued q) \<le> get_capacity q"
    using inv by (simp add: ring_inv_def)
  show "(push_back_value q v = None) = (length (queued q) = get_capacity q)"
    by (simp add: push_back_value_def is_full_def)
  show "get_front q = (case queued q of [] \<Rightarrow> None | x # _ \<Rightarrow> Some x)"
    using inv by (rule get_front_eq)
  show "(pop_front q = None) = (queued q = [])"
    by (simp add: pop_front_None_iff is_empty_iff)
  show "ring_inv q'" if "pop_front q = Some q'" using inv that by (rule pop_front_SomeD(1))
  show "queued q' = tl (queued q)" if "pop_front q = Some q'"
    using inv that by (rule pop_front_SomeD(2))
  show "ring_inv q'" if "push_back_value q v = Some q'"
    using inv that by (rule push_back_value_SomeD(1))
  show "queued q' = queued q @ [v]" if "push_back_value q v = Some q'"
    using inv that by (rule push_back_value_SomeD(2))
qed (simp_all add: get_capacity_moves)


section \<open>Properties\<close>

text \<open>
  C10: the ring is a bounded FIFO queue. Any sequence of pushes and pops that is run on a ring whose
  positions are anywhere in the 64-bit range, also about to wrap around, fails an assertion exactly
  when the same sequence on a list of at most \<open>capacity\<close> elements overflows or underflows, and
  otherwise pops the same elements and leaves the same queue.
\<close>

theorem ring_refines_fifo:
  assumes "ring_inv r"
  shows "map_option (apsnd queued) (fifo_run push_back_value get_front pop_front r ops) =
         fifo_spec (get_capacity r) (queued r) ops"
  using assms by (rule rq.run_refines)

definition wrapping_ring :: "nat ring" where
  "wrapping_ring = \<lparr>buffer = [5, 0, 0, 4], head = - 1, tail = 1\<rparr>"

lemma wrapping_ring_inv: "ring_inv wrapping_ring"
  by code_simp

theorem ring_refines_fifo_witness:
  "map_option (apsnd queued) (fifo_run push_back_value get_front pop_front wrapping_ring
      [Push 6, Pop, Pop, Push 7]) = Some ([4, 5], [6, 7])"
  unfolding ring_refines_fifo [OF wrapping_ring_inv] by code_simp

text \<open>
  Nothing is lost, duplicated or reordered by a ring that starts empty: the popped elements
  followed by the ones still queued are the pushed elements in the order of the pushes, and never
  more than \<open>capacity\<close> of them are queued.
\<close>

theorem ring_fifo_order:
  assumes "has_single_bit n"
    and "fifo_run push_back_value get_front pop_front (new_ring n d) ops = Some (out, r)"
  shows "out @ queued r = pushed ops \<and> get_size r \<le> n"
  using rq.run_fifo [OF new_ring_inv [OF assms(1)] assms(2)] by simp

lemma fifo_run_example:
  "fifo_run push_back_value get_front pop_front (new_ring 2 0) [Push (7::nat), Push 8, Pop, Push 9] =
     Some ([7], \<lparr>buffer = [9, 8], head = 1, tail = 3\<rparr>)"
  by code_simp

theorem ring_fifo_order_witness:
  "[7] @ queued \<lparr>buffer = [9, 8], head = 1, tail = 3\<rparr> = [7::nat, 8, 9] \<and>
   get_size \<lparr>buffer = [9::nat, 8], head = 1, tail = 3\<rparr> \<le> 2"
proof -
  have "has_single_bit 2" by code_simp
  from ring_fifo_order [OF this fifo_run_example] show ?thesis by simp
qed

text \<open>
  An element may be filled in place. While the ring is not full, assigning through
  \<^verbatim>\<open>get_back_slot()\<close> does not change the queue, the following \<^verbatim>\<open>push_back()\<close> cannot fail and
  appends the assigned value, and every element that was queued stays at the same index of the
  array with the same value, so references to queued elements stay valid.
\<close>

theorem ring_in_place_push:
  assumes "ring_inv r" and "\<not> is_full r"
  shows "queued (set_back_slot r v) = queued r \<and>
    (\<exists>r'. push_back (set_back_slot r v) = Some r' \<and> ring_inv r' \<and> queued r' = queued r @ [v] \<and>
       (\<forall>i < get_size r. get_index r' (head r' + of_nat i) = get_index r (head r + of_nat i) \<and>
          buffer r' ! get_index r (head r + of_nat i) = buffer r ! get_index r (head r + of_nat i)))"
proof -
  from assms obtain r' where r': "push_back_value r v = Some r'"
    by (auto simp: push_back_value_def)
  note d = push_back_value_SomeD [OF assms(1) r']
  have same: "head r' = head r" "get_index r' = get_index r"
    using r' by (auto simp: push_back_value_def get_index_def get_capacity_def fun_eq_iff
        split: if_splits)
  have "buffer r' ! get_index r (head r + of_nat i) = buffer r ! get_index r (head r + of_nat i)"
    if "i < get_size r" for i
  proof -
    have "queued r' ! i = queued r ! i" using that by (simp add: d(2) nth_append)
    moreover have "i < get_size r'"
      using arg_cong [OF d(2), of length] that by simp
    ultimately show ?thesis using that by (simp add: queued_def same)
  qed
  then show ?thesis
    using r' d queued_set_back_slot [OF assms] by (auto simp: push_back_value_eq same)
qed

theorem ring_in_place_push_witness:
  "queued (set_back_slot wrapping_ring 9) = [4, 5] \<and>
   (\<exists>r'. push_back (set_back_slot wrapping_ring 9) = Some r' \<and> queued r' = [4, 5, 9])"
proof -
  have "\<not> is_full wrapping_ring" and "queued wrapping_ring = [4, 5]" by code_simp+
  then show ?thesis
    using ring_in_place_push [OF wrapping_ring_inv, of 9] by auto
qed

end
