(* ===== verification/Executor.thy ===== *)
theory Executor
  imports Prelude
begin

text \<open>
  The life cycle of \<^verbatim>\<open>cpp_components/executor/executor.{h,cpp}\<close>: construction, \<^verbatim>\<open>start\<close>,
  \<^verbatim>\<open>stop\<close>, the doorbell set-up and the thread controls. The results of the operating system and
  of Asio (\<^verbatim>\<open>eventfd\<close>, \<^verbatim>\<open>stream_descriptor::assign\<close>, the \<^verbatim>\<open>std::thread\<close> constructor,
  \<^verbatim>\<open>pthread_setschedparam\<close> and its kin) are arguments of the operations that use them.
  The concurrent protocol, \<^verbatim>\<open>ring\<close> and \<^verbatim>\<open>stop\<close> against the executor thread, is the theory \<open>Doorbell\<close>.
\<close>

section \<open>State\<close>

text \<open>
  The data members of \<^verbatim>\<open>Executor\<close>. \<open>thread_joinable\<close> is \<^verbatim>\<open>thread.joinable()\<close>, \<open>work\<close> whether
  the work guard is held. The last five fields record what the executor has asked of the
  operating system and of the \<^verbatim>\<open>io_context\<close>: whether a doorbell read is outstanding, how often the
  cancellation of the doorbell wait has been posted, whether \<^verbatim>\<open>io_context::stop\<close> was called, which
  descriptors were closed, and the scheduling calls that were made.
\<close>

datatype sched_policy = SCHED_OTHER | SCHED_RR

datatype sched_call =
    Set_sched_param sched_policy int
  | Set_affinity "nat list"

record executor =
  doorbell_handler :: bool
  doorbell_fd :: int
  thread_joinable :: bool
  work :: bool
  is_start_called :: bool
  is_started :: bool
  is_stopping :: bool
  doorbell_armed :: bool
  wait_outstanding :: bool
  cancels_posted :: nat
  context_stopped :: bool
  closed_fds :: "int list"
  sched_calls :: "sched_call list"

text \<open>
  Both constructors: without a handler (or with an empty one) the first argument is false.
\<close>

definition new_executor :: "bool \<Rightarrow> executor" where
  "new_executor has_handler =
     \<lparr>doorbell_handler = has_handler, doorbell_fd = - 1, thread_joinable = False, work = True,
      is_start_called = False, is_started = False, is_stopping = False, doorbell_armed = False,
      wait_outstanding = False, cancels_posted = 0, context_stopped = False, closed_fds = [],
      sched_calls = []\<rparr>"

text \<open>
  \<^verbatim>\<open>post\<close> and \<^verbatim>\<open>dispatch\<close> hand a callback to the \<^verbatim>\<open>io_context\<close>, whose state has the type \<open>'c\<close>; the
  allocator bound to the callback does not change what it does. The queue of callbacks is Asio's own.
\<close>

record ('f, 'c) io_context_ops =
  io_post :: "'f \<Rightarrow> 'c \<Rightarrow> 'c"
  io_dispatch :: "'f \<Rightarrow> 'c \<Rightarrow> 'c"

definition post :: "('f, 'c) io_context_ops \<Rightarrow> 'f \<Rightarrow> 'c \<Rightarrow> 'c" where
  "post A callback context = io_post A callback context"

definition dispatch :: "('f, 'c) io_context_ops \<Rightarrow> 'f \<Rightarrow> 'c \<Rightarrow> 'c" where
  "dispatch A callback context = io_dispatch A callback context"

section \<open>Start\<close>

definition start_doorbell_wait :: "executor \<Rightarrow> executor" where
  "start_doorbell_wait e = e\<lparr>wait_outstanding := True\<rparr>"

text \<open>
  \<^verbatim>\<open>setup_doorbell\<close>: \<open>fd\<close> is what \<^verbatim>\<open>eventfd\<close> returns (negative on failure, with \<open>errno\<close> set, never to 0),
  \<open>assign_ec\<close> what \<^verbatim>\<open>doorbell.assign\<close> reports.
\<close>

definition setup_doorbell :: "int \<Rightarrow> int \<Rightarrow> error_code \<Rightarrow> executor \<Rightarrow> executor \<times> error_code" where
  "setup_doorbell fd errno assign_ec e =
     (if fd < 0 then (e, Some (Sys_error errno))
      else case assign_ec of
        Some ec \<Rightarrow> (e\<lparr>closed_fds := closed_fds e @ [fd]\<rparr>, Some ec)
      | None \<Rightarrow>
          (start_doorbell_wait (e\<lparr>doorbell_fd := fd, doorbell_armed := True\<rparr>), None))"

text \<open>
  \<^verbatim>\<open>start\<close>: \<open>thread_ec\<close> is the code of the \<^verbatim>\<open>std::system_error\<close> that the thread constructor
  throws, or \<open>None\<close> when the thread is created. \<^verbatim>\<open>||\<close> does not evaluate the exchange when the
  executor is stopping.
\<close>

definition start_thread :: "error_code \<Rightarrow> executor \<Rightarrow> executor \<times> error_code" where
  "start_thread thread_ec e =
     (case thread_ec of
        Some ec \<Rightarrow> (e, Some ec)
      | None \<Rightarrow> (e\<lparr>thread_joinable := True, is_started := True\<rparr>, None))"

definition start :: "int \<Rightarrow> int \<Rightarrow> error_code \<Rightarrow> error_code \<Rightarrow> executor \<Rightarrow> executor \<times> error_code" where
  "start fd errno assign_ec thread_ec e =
     (if is_stopping e then (e, Some invalid_argument)
      else let called = is_start_called e; e1 = e\<lparr>is_start_called := True\<rparr> in
        if called then (e1, Some invalid_argument)
        else if doorbell_handler e1 then
          (case setup_doorbell fd errno assign_ec e1 of
             (e2, Some ec) \<Rightarrow> (e2, Some ec)
           | (e2, None) \<Rightarrow> start_thread thread_ec e2)
        else start_thread thread_ec e1)"

section \<open>Stop\<close>

text \<open>
  \<^verbatim>\<open>stop\<close>, called on the executor thread or on another one. The result says whether the call
  joined the thread.
\<close>

definition stop :: "bool \<Rightarrow> bool \<Rightarrow> executor \<Rightarrow> executor \<times> bool" where
  "stop on_executor_thread is_force_stop e =
     (let e1 = e\<lparr>is_stopping := True\<rparr> in
      if \<not> thread_joinable e1 then (e1, False)
      else
        let e2 = (if 0 \<le> doorbell_fd e1 then e1\<lparr>cancels_posted := Suc (cancels_posted e1)\<rparr> else e1);
            e3 = e2\<lparr>work := False\<rparr>;
            e4 = (if is_force_stop then e3\<lparr>context_stopped := True\<rparr> else e3)
        in if on_executor_thread then (e4, False)
           else (e4\<lparr>thread_joinable := False\<rparr>, True))"

text \<open>The destructor stops by force.\<close>

definition destroy_executor :: "executor \<Rightarrow> executor \<times> bool" where
  "destroy_executor e = stop False True e"

section \<open>Ring\<close>

text \<open>\<^verbatim>\<open>ring\<close>: the exchange on \<^verbatim>\<open>doorbell_armed\<close>; the result says whether the eventfd is written.\<close>

definition ring_doorbell :: "executor \<Rightarrow> executor \<times> bool" where
  "ring_doorbell e = (e\<lparr>doorbell_armed := False\<rparr>, doorbell_armed e)"

section \<open>The thread function\<close>

text \<open>
  \<^verbatim>\<open>run\<close>: \<^verbatim>\<open>io_context.run(ec)\<close> returns with a code or lets the exception of a callback escape.
  A message for \<^verbatim>\<open>std::cerr\<close> is a string; \<open>message\<close> is \<^verbatim>\<open>error_code::message()\<close>.
\<close>

datatype run_result =
    Run_returned error_code
  | Run_threw_exception string
  | Run_threw_unknown

datatype thread_outcome =
    Thread_returns "string list"
  | Thread_aborts "string list"

fun run :: "(errc \<Rightarrow> string) \<Rightarrow> run_result \<Rightarrow> thread_outcome" where
  "run message (Run_returned None) = Thread_returns []"
| "run message (Run_returned (Some ec)) = Thread_returns [''Executor: '' @ message ec]"
| "run message (Run_threw_exception what) =
     Thread_aborts [''Executor: unhandled exception in a callback: '' @ what]"
| "run message Run_threw_unknown =
     Thread_aborts [''Executor: unhandled unknown exception in a callback'']"

section \<open>Thread controls\<close>

text \<open>\<open>max_priority\<close> is \<^verbatim>\<open>sched_get_priority_max(SCHED_RR)\<close>; \<open>ret\<close> what the pthread call returns.\<close>

definition get_max_priority :: "int \<Rightarrow> int" where
  "get_max_priority max_priority = max_priority"

definition set_priority :: "int \<Rightarrow> int \<Rightarrow> int \<Rightarrow> executor \<Rightarrow> executor \<times> error_code" where
  "set_priority max_priority ret priority e =
     (if priority < 0 \<or> priority > get_max_priority max_priority then (e, Some invalid_argument)
      else if \<not> is_started e \<or> is_stopping e then (e, Some invalid_argument)
      else
        let policy = (if priority = 0 then SCHED_OTHER else SCHED_RR);
            e1 = e\<lparr>sched_calls := sched_calls e @ [Set_sched_param policy priority]\<rparr>
        in if ret \<noteq> 0 then (e1, Some (Sys_error ret)) else (e1, None))"

text \<open>
  \<^verbatim>\<open>get_priority\<close>: the result carries the new value of the reference argument \<open>priority\<close>;
  \<open>sched_priority\<close> is the value that \<^verbatim>\<open>pthread_getschedparam\<close> stores.
\<close>

definition get_priority :: "int \<Rightarrow> int \<Rightarrow> int \<Rightarrow> executor \<Rightarrow> int \<times> error_code" where
  "get_priority ret sched_priority priority e =
     (if \<not> is_started e \<or> is_stopping e then (priority, Some invalid_argument)
      else if ret \<noteq> 0 then (priority, Some (Sys_error ret))
      else (sched_priority, None))"

definition CPU_SETSIZE :: nat where
  "CPU_SETSIZE = 1024"

definition set_cpu_affinity :: "int \<Rightarrow> nat \<Rightarrow> executor \<Rightarrow> executor \<times> error_code" where
  "set_cpu_affinity ret cpu_id e =
     (if CPU_SETSIZE \<le> cpu_id then (e, Some invalid_argument)
      else if \<not> is_started e \<or> is_stopping e then (e, Some invalid_argument)
      else
        let e1 = e\<lparr>sched_calls := sched_calls e @ [Set_affinity [cpu_id]]\<rparr>
        in if ret \<noteq> 0 then (e1, Some (Sys_error ret)) else (e1, None))"

section \<open>The life cycle as a transition system\<close>

lemmas executor_defs = new_executor_def start_doorbell_wait_def setup_doorbell_def start_thread_def
  start_def stop_def destroy_executor_def ring_doorbell_def set_priority_def get_priority_def set_cpu_affinity_def
  Let_def

text \<open>
  One call on the public interface, with any result of the system calls, or one action of the executor thread on
  the members: the doorbell wait completes, \<^verbatim>\<open>handle_doorbell\<close>, \<^verbatim>\<open>run_doorbell_handler\<close> or the posted cancellation stores
  to \<^verbatim>\<open>doorbell_armed\<close>, or \<^verbatim>\<open>handle_doorbell\<close> starts the next wait. Here these come at any time at which there is
  a doorbell; when exactly they come is the subject of the theory \<open>Doorbell\<close>.
\<close>

inductive executor_step :: "executor \<Rightarrow> executor \<Rightarrow> bool" where
  start: "executor_step e (fst (start fd errno assign_ec thread_ec e))"
| stop: "executor_step e (fst (stop on_thread force e))"
| ring: "executor_step e (fst (ring_doorbell e))"
| wait_completes: "wait_outstanding e \<Longrightarrow> executor_step e (e\<lparr>wait_outstanding := False\<rparr>)"
| thread_stores: "0 \<le> doorbell_fd e \<Longrightarrow> executor_step e (e\<lparr>doorbell_armed := b\<rparr>)"
| thread_waits: "0 \<le> doorbell_fd e \<Longrightarrow> \<not> wait_outstanding e \<Longrightarrow> executor_step e (start_doorbell_wait e)"
| set_priority: "executor_step e (fst (set_priority mx ret p e))"
| set_cpu_affinity: "executor_step e (fst (set_cpu_affinity ret cpu e))"

abbreviation executor_steps :: "executor \<Rightarrow> executor \<Rightarrow> bool" where
  "executor_steps \<equiv> executor_step\<^sup>*\<^sup>*"

text \<open>
  What the members mean: a started executor was asked to start; the thread exists exactly from a
  successful start until it is joined, which only a stop does; a doorbell descriptor exists only
  where there is a handler, and only then can the doorbell be armed or a wait be outstanding; the work guard is given up,
  the context stopped and the doorbell wait cancelled only by stopping, and a stop of a started
  executor with a doorbell has posted the cancellation.
\<close>

definition executor_inv :: "executor \<Rightarrow> bool" where
  "executor_inv e \<longleftrightarrow>
     (is_started e \<longrightarrow> is_start_called e) \<and>
     (thread_joinable e \<longrightarrow> is_started e) \<and>
     (is_started e \<and> \<not> thread_joinable e \<longrightarrow> is_stopping e) \<and>
     (0 \<le> doorbell_fd e \<longrightarrow> doorbell_handler e \<and> is_start_called e) \<and>
     (doorbell_fd e < 0 \<longrightarrow> \<not> doorbell_armed e \<and> \<not> wait_outstanding e \<and> cancels_posted e = 0) \<and>
     (is_started e \<and> doorbell_handler e \<longrightarrow> 0 \<le> doorbell_fd e) \<and>
     (\<not> work e \<or> context_stopped e \<or> 0 < cancels_posted e \<longrightarrow> is_stopping e) \<and>
     (is_stopping e \<and> is_started e \<longrightarrow>
        \<not> work e \<and> (doorbell_handler e \<longrightarrow> 0 < cancels_posted e))"

lemma executor_inv_new: "executor_inv (new_executor h)"
  by (simp add: executor_inv_def executor_defs)

lemma executor_inv_start: "executor_inv e \<Longrightarrow> executor_inv (fst (start fd errno aec tec e))"
  by (cases "is_stopping e"; cases "is_start_called e"; cases aec; cases tec; cases "doorbell_handler e")
    (auto simp: executor_inv_def executor_defs)

lemma executor_inv_stop: "executor_inv e \<Longrightarrow> executor_inv (fst (stop on_thread force e))"
  by (cases "thread_joinable e"; cases on_thread; cases force; cases "0 \<le> doorbell_fd e")
    (auto simp: executor_inv_def executor_defs)

lemma executor_inv_sched_calls [simp]: "executor_inv (e\<lparr>sched_calls := cs\<rparr>) = executor_inv e"
  by (simp add: executor_inv_def)

lemma executor_inv_controls:
  "executor_inv e \<Longrightarrow> executor_inv (fst (set_priority mx ret p e))"
  "executor_inv e \<Longrightarrow> executor_inv (fst (set_cpu_affinity ret cpu e))"
  by (simp_all add: set_priority_def set_cpu_affinity_def Let_def)

lemma executor_inv_bell:
  assumes "executor_inv e"
  shows "executor_inv (fst (ring_doorbell e))" "executor_inv (e\<lparr>wait_outstanding := False\<rparr>)"
    and "0 \<le> doorbell_fd e \<Longrightarrow> executor_inv (e\<lparr>doorbell_armed := b\<rparr>)"
    and "0 \<le> doorbell_fd e \<Longrightarrow> executor_inv (start_doorbell_wait e)"
  using assms by (simp_all add: executor_inv_def executor_defs)

lemma executor_inv_step: "executor_step e e' \<Longrightarrow> executor_inv e \<Longrightarrow> executor_inv e'"
  by (erule executor_step.cases)
    (simp_all add: executor_inv_start executor_inv_stop executor_inv_controls executor_inv_bell)

lemma executor_inv_steps: "executor_steps e e' \<Longrightarrow> executor_inv e \<Longrightarrow> executor_inv e'"
  by (induction rule: rtranclp_induct) (auto intro: executor_inv_step)

text \<open>Flags that are never taken back.\<close>

lemma executor_step_mono:
  "executor_step e e' \<Longrightarrow>
     (is_start_called e \<longrightarrow> is_start_called e') \<and> (is_stopping e \<longrightarrow> is_stopping e')"
  by (erule executor_step.cases) (auto simp: executor_defs split: option.splits)

lemma executor_steps_mono:
  "executor_steps e e' \<Longrightarrow>
     (is_start_called e \<longrightarrow> is_start_called e') \<and> (is_stopping e \<longrightarrow> is_stopping e')"
  by (induction rule: rtranclp_induct) (auto dest: executor_step_mono)

lemma start_marks_called:
  "is_start_called (fst (start fd errno aec tec e)) \<or> is_stopping (fst (start fd errno aec tec e))"
  by (simp add: executor_defs split: option.splits)

lemma start_refused:
  "is_start_called e \<or> is_stopping e \<Longrightarrow>
     snd (start fd errno aec tec e) = Some invalid_argument \<and>
     (is_start_called e \<longrightarrow> fst (start fd errno aec tec e) = e)"
  by (auto simp: executor_defs)

section \<open>Properties\<close>

text \<open>
  Starting is one-shot. Whatever the first call of \<^verbatim>\<open>start\<close> returned, and whatever calls
  follow it, a later call of \<^verbatim>\<open>start\<close> returns \<^verbatim>\<open>invalid_argument\<close>; the same holds after
  \<^verbatim>\<open>stop\<close>. In particular a failed start cannot be retried.
\<close>

theorem start_is_one_shot:
  assumes "executor_steps (fst (start fd errno aec tec e)) e1 \<or>
           executor_steps (fst (stop on_thread force e)) e1"
  shows "snd (start fd' errno' aec' tec' e1) = Some invalid_argument"
proof -
  have "is_start_called e1 \<or> is_stopping e1"
    using assms start_marks_called [of fd errno aec tec e] executor_steps_mono
    by (fastforce simp: stop_def Let_def)
  then show ?thesis using start_refused by blast
qed

theorem start_is_one_shot_witness:
  "snd (start 5 0 None None (fst (start (- 1) 24 None None (new_executor True)))) =
     Some invalid_argument"
  by (rule start_is_one_shot [where fd = "- 1" and errno = 24 and aec = None and tec = None
        and e = "new_executor True"]) simp

text \<open>
  C34: the life-cycle invariant. In every state that calls on the public interface, \<^verbatim>\<open>ring\<close> among them, and the
  executor thread reach from a new executor, with any results of the system calls: the thread exists from
  a successful start until it is joined; a started executor with a handler has its doorbell descriptor, and
  without a descriptor the doorbell is never armed, waited for or cancelled; only stopping gives up the work guard,
  and once a started executor is stopping, the guard is gone and, if it has a doorbell, the cancellation of
  the doorbell wait has been posted.
\<close>

theorem executor_lifecycle:
  assumes "executor_steps (new_executor h) e"
  shows "executor_inv e"
  using assms executor_inv_new by (rule executor_inv_steps)

theorem executor_lifecycle_witness:
  "executor_inv (fst (stop False False (fst (ring_doorbell (fst (start 5 0 None None (new_executor True)))))))"
  by (rule executor_lifecycle [where h = True])
    (meson executor_step.start executor_step.ring executor_step.stop rtranclp.rtrancl_into_rtrancl
      rtranclp.rtrancl_refl)

text \<open>
  The thread controls. \<^verbatim>\<open>set_priority\<close> and \<^verbatim>\<open>set_cpu_affinity\<close> reach the operating system
  only with a value in range and only for an executor that is started and not stopping; otherwise
  they return \<^verbatim>\<open>invalid_argument\<close> and make no call. Priority 0 selects \<^verbatim>\<open>SCHED_OTHER\<close>, every
  other priority \<^verbatim>\<open>SCHED_RR\<close>.
\<close>

theorem thread_controls_guarded:
  "(set_priority mx ret p e =
      (if 0 \<le> p \<and> p \<le> mx \<and> is_started e \<and> \<not> is_stopping e
       then (e\<lparr>sched_calls := sched_calls e @ [Set_sched_param (if p = 0 then SCHED_OTHER else SCHED_RR) p]\<rparr>,
             if ret = 0 then None else Some (Sys_error ret))
       else (e, Some invalid_argument))) \<and>
   (set_cpu_affinity ret cpu e =
      (if cpu < 1024 \<and> is_started e \<and> \<not> is_stopping e
       then (e\<lparr>sched_calls := sched_calls e @ [Set_affinity [cpu]]\<rparr>,
             if ret = 0 then None else Some (Sys_error ret))
       else (e, Some invalid_argument)))"
  by (auto simp: executor_defs get_max_priority_def CPU_SETSIZE_def)

end
