(* ===== verification/Doorbell.thy ===== *)
theory Doorbell
  imports Executor
begin

text \<open>
  The doorbell of \<^verbatim>\<open>cpp_components/executor/executor.cpp\<close>: producer threads push an item to a queue
  and call \<^verbatim>\<open>ring()\<close>, the executor thread waits on an eventfd and runs the doorbell handler. Each
  step of the relation \<open>db_step\<close> is one atomic action of one thread, and the threads interleave
  freely. All accesses that synchronise are read-modify-write operations on the single atomic
  \<^verbatim>\<open>doorbell_armed\<close> (totally ordered by the memory model) and accesses to the eventfd; the queue is
  the caller's own and is taken to be linearizable.

  The calls of \<^verbatim>\<open>stop()\<close> are part of the interleaving, each of their actions a step of its own, and so is
  the return of \<^verbatim>\<open>io_context.run\<close>.

  The theory shows that no wake-up is lost, that the eventfd counter stays far from the overflow
  that \<^verbatim>\<open>write_doorbell\<close> ignores, that a stopping executor runs no further handler, and that its thread
  comes to an end, so that the \<^verbatim>\<open>join\<close> in \<^verbatim>\<open>stop()\<close> returns.
\<close>

section \<open>State\<close>

text \<open>
  Where the executor thread is. \<open>E_wait\<close>: the asynchronous read is outstanding. \<open>E_done ec\<close>: it
  has completed and \<^verbatim>\<open>handle_doorbell(ec)\<close> is due. \<open>E_arm\<close> to \<open>E_write\<close>: inside
  \<^verbatim>\<open>run_doorbell_handler\<close>, before the arming exchange, in the handler, after the handler's last
  check found the queues empty, after the handler reported remaining work, before the executor's own
  write. \<open>E_recheck\<close>: before the second look at \<^verbatim>\<open>is_stopping\<close>. \<open>E_idle\<close>: no wait outstanding and
  none will be started. \<open>E_exited\<close>: \<^verbatim>\<open>io_context.run\<close> has returned and the thread has ended.
\<close>

datatype executor_pc =
    E_wait
  | E_done error_code
  | E_arm
  | E_handler
  | E_drained
  | E_remain
  | E_write
  | E_recheck
  | E_idle
  | E_exited

text \<open>
  Where a producer is: outside, between the push and the exchange of \<^verbatim>\<open>ring()\<close>, or between the
  exchange that returned true and \<^verbatim>\<open>write_doorbell()\<close>.
\<close>

datatype producer_pc = P_idle | P_pushed | P_write

text \<open>
  Where a call of \<^verbatim>\<open>stop(is_force_stop)\<close> is: not there; after \<^verbatim>\<open>is_stopping\<close> was set; after the cancellation
  of the wait was posted; after \<^verbatim>\<open>work.reset()\<close>; before \<^verbatim>\<open>thread.join()\<close>, or before its return when it is called
  on the executor thread.
\<close>

datatype stop_pc = S_none | S_flagged bool | S_posted bool | S_released bool | S_joining

record doorbell =
  armed :: bool
  counter :: nat
  items :: nat
  epc :: executor_pc
  ppc :: "nat \<Rightarrow> producer_pc"
  spc :: "nat \<Rightarrow> stop_pc"
  stopping :: bool
  cancels :: nat
  guard_held :: bool
  ctx_stopped :: bool
  others :: nat
  joined :: bool
  handler_runs :: nat

text \<open>
  \<open>items\<close> is the number of queued items, \<open>cancels\<close> how many cancellations are posted and not yet run,
  \<open>guard_held\<close> whether \<^verbatim>\<open>work\<close> keeps the \<^verbatim>\<open>io_context\<close> busy, \<open>ctx_stopped\<close> whether it was stopped, \<open>others\<close> the
  number of callbacks and operations of other components outstanding on it, \<open>joined\<close> whether the thread was joined;
  \<open>handler_runs\<close> counts the calls of the handler.
\<close>

section \<open>The atomic actions\<close>

text \<open>
  The largest value of an eventfd counter: a write that would exceed it fails with \<^verbatim>\<open>EAGAIN\<close>, which
  \<^verbatim>\<open>write_doorbell\<close> ignores.
\<close>

definition eventfd_max :: nat where
  "eventfd_max = 2 ^ 64 - 2"

definition write_doorbell :: "doorbell \<Rightarrow> doorbell" where
  "write_doorbell s = (if counter s + 1 \<le> eventfd_max then s\<lparr>counter := counter s + 1\<rparr> else s)"

text \<open>\<^verbatim>\<open>ring()\<close>: the exchange; the write follows as a step of its own when it returned true.\<close>

definition ring_exchange :: "nat \<Rightarrow> doorbell \<Rightarrow> doorbell" where
  "ring_exchange p s =
     s\<lparr>armed := False, ppc := (ppc s)(p := (if armed s then P_write else P_idle))\<rparr>"

definition ring_write :: "nat \<Rightarrow> doorbell \<Rightarrow> doorbell" where
  "ring_write p s = (write_doorbell s)\<lparr>ppc := (ppc s)(p := P_idle)\<rparr>"

text \<open>\<^verbatim>\<open>handle_doorbell\<close>, up to the call of \<^verbatim>\<open>run_doorbell_handler\<close>.\<close>

definition handle_doorbell :: "error_code \<Rightarrow> doorbell \<Rightarrow> doorbell" where
  "handle_doorbell ec s =
     (if ec \<noteq> None then s\<lparr>armed := False, epc := E_idle\<rparr>
      else if stopping s then s\<lparr>armed := False, epc := E_idle\<rparr>
      else s\<lparr>epc := E_arm\<rparr>)"

text \<open>The end of \<^verbatim>\<open>handle_doorbell\<close>: the handler itself may have called \<^verbatim>\<open>stop()\<close>.\<close>

definition handle_doorbell_end :: "doorbell \<Rightarrow> doorbell" where
  "handle_doorbell_end s = (if \<not> stopping s then s\<lparr>epc := E_wait\<rparr> else s\<lparr>epc := E_idle\<rparr>)"

text \<open>
  \<^verbatim>\<open>run_doorbell_handler\<close>: the arming exchange before the handler, and what follows its result.
\<close>

definition run_doorbell_handler_arm :: "doorbell \<Rightarrow> doorbell" where
  "run_doorbell_handler_arm s = s\<lparr>armed := True, epc := E_handler, handler_runs := Suc (handler_runs s)\<rparr>"

definition run_doorbell_handler_disarm :: "doorbell \<Rightarrow> doorbell" where
  "run_doorbell_handler_disarm s = s\<lparr>armed := False, epc := E_write\<rparr>"

definition run_doorbell_handler_write :: "doorbell \<Rightarrow> doorbell" where
  "run_doorbell_handler_write s = (write_doorbell s)\<lparr>epc := E_recheck\<rparr>"

text \<open>The closure that \<^verbatim>\<open>stop()\<close> posts: it disarms the doorbell and cancels the outstanding wait.\<close>

definition cancel_doorbell :: "doorbell \<Rightarrow> doorbell" where
  "cancel_doorbell s =
     s\<lparr>armed := False, cancels := cancels s - 1,
       epc := (if epc s = E_wait then E_done (Some operation_aborted) else epc s)\<rparr>"

text \<open>The actions of \<^verbatim>\<open>stop()\<close> on a started executor that has a doorbell, by the thread \<open>q\<close>.\<close>

definition stop_flag :: "nat \<Rightarrow> bool \<Rightarrow> doorbell \<Rightarrow> doorbell" where
  "stop_flag q is_force_stop s = s\<lparr>stopping := True, spc := (spc s)(q := S_flagged is_force_stop)\<rparr>"

definition stop_post :: "nat \<Rightarrow> bool \<Rightarrow> doorbell \<Rightarrow> doorbell" where
  "stop_post q is_force_stop s =
     (if joined s then s\<lparr>spc := (spc s)(q := S_none)\<rparr>
      else s\<lparr>cancels := Suc (cancels s), spc := (spc s)(q := S_posted is_force_stop)\<rparr>)"

definition stop_release :: "nat \<Rightarrow> bool \<Rightarrow> doorbell \<Rightarrow> doorbell" where
  "stop_release q is_force_stop s = s\<lparr>guard_held := False, spc := (spc s)(q := S_released is_force_stop)\<rparr>"

definition stop_context :: "nat \<Rightarrow> bool \<Rightarrow> doorbell \<Rightarrow> doorbell" where
  "stop_context q is_force_stop s =
     s\<lparr>ctx_stopped := (if is_force_stop then True else ctx_stopped s), spc := (spc s)(q := S_joining)\<rparr>"

definition doorbell_init :: doorbell where
  "doorbell_init =
     \<lparr>armed = True, counter = 0, items = 0, epc = E_wait, ppc = (\<lambda>_. P_idle), spc = (\<lambda>_. S_none),
      stopping = False, cancels = 0, guard_held = True, ctx_stopped = False, others = 0, joined = False,
      handler_runs = 0\<rparr>"

section \<open>The step relation\<close>

text \<open>
  \<open>n\<close> producers. The handler pops items one at a time; it may report remaining work at any time,
  and it reports that none remains only when its last check has found the queues empty, which is
  the contract in \<^verbatim>\<open>executor.h\<close>. The posted cancellation and the callbacks of others run on the executor
  thread, hence only between handlers. \<^verbatim>\<open>io_context.run\<close> returns between handlers, once the context was stopped
  or nothing is outstanding on it. A call of \<^verbatim>\<open>stop\<close> on the executor thread returns without joining.
\<close>

definition between_handlers :: "doorbell \<Rightarrow> bool" where
  "between_handlers s \<longleftrightarrow> epc s = E_idle \<or> epc s = E_wait \<or> (\<exists>ec. epc s = E_done ec)"

inductive db_step :: "nat \<Rightarrow> doorbell \<Rightarrow> doorbell \<Rightarrow> bool" for n where
  push: "p < n \<Longrightarrow> ppc s p = P_idle \<Longrightarrow>
    db_step n s (s\<lparr>items := Suc (items s), ppc := (ppc s)(p := P_pushed)\<rparr>)"
| ring_exchange: "p < n \<Longrightarrow> ppc s p = P_pushed \<Longrightarrow> db_step n s (ring_exchange p s)"
| ring_write: "p < n \<Longrightarrow> ppc s p = P_write \<Longrightarrow> db_step n s (ring_write p s)"
| read: "epc s = E_wait \<Longrightarrow> 0 < counter s \<Longrightarrow> db_step n s (s\<lparr>counter := 0, epc := E_done None\<rparr>)"
| read_error: "epc s = E_wait \<Longrightarrow> db_step n s (s\<lparr>epc := E_done (Some ec)\<rparr>)"
| handle: "epc s = E_done ec \<Longrightarrow> db_step n s (handle_doorbell ec s)"
| arm: "epc s = E_arm \<Longrightarrow> db_step n s (run_doorbell_handler_arm s)"
| pop: "epc s = E_handler \<Longrightarrow> 0 < items s \<Longrightarrow> db_step n s (s\<lparr>items := items s - 1\<rparr>)"
| last_check: "epc s = E_handler \<Longrightarrow> items s = 0 \<Longrightarrow> db_step n s (s\<lparr>epc := E_drained\<rparr>)"
| return_false: "epc s = E_drained \<Longrightarrow> db_step n s (s\<lparr>epc := E_recheck\<rparr>)"
| return_true: "epc s = E_handler \<Longrightarrow> db_step n s (s\<lparr>epc := E_remain\<rparr>)"
| disarm: "epc s = E_remain \<Longrightarrow> db_step n s (run_doorbell_handler_disarm s)"
| self_write: "epc s = E_write \<Longrightarrow> db_step n s (run_doorbell_handler_write s)"
| recheck: "epc s = E_recheck \<Longrightarrow> db_step n s (handle_doorbell_end s)"
| cancel: "0 < cancels s \<Longrightarrow> between_handlers s \<Longrightarrow> db_step n s (cancel_doorbell s)"
| other_posted: "db_step n s (s\<lparr>others := Suc (others s)\<rparr>)"
| other_done: "0 < others s \<Longrightarrow> between_handlers s \<Longrightarrow> db_step n s (s\<lparr>others := others s - 1\<rparr>)"
| exit_stopped: "ctx_stopped s \<Longrightarrow> between_handlers s \<Longrightarrow> db_step n s (s\<lparr>epc := E_exited\<rparr>)"
| exit_no_work: "\<not> guard_held s \<Longrightarrow> epc s = E_idle \<Longrightarrow> cancels s = 0 \<Longrightarrow> others s = 0 \<Longrightarrow>
    db_step n s (s\<lparr>epc := E_exited\<rparr>)"
| stop: "spc s q = S_none \<Longrightarrow> db_step n s (stop_flag q f s)"
| stop_post: "spc s q = S_flagged f \<Longrightarrow> db_step n s (stop_post q f s)"
| stop_release: "spc s q = S_posted f \<Longrightarrow> db_step n s (stop_release q f s)"
| stop_context: "spc s q = S_released f \<Longrightarrow> db_step n s (stop_context q f s)"
| stop_return: "spc s q = S_joining \<Longrightarrow> db_step n s (s\<lparr>spc := (spc s)(q := S_none)\<rparr>)"
| stop_join: "spc s q = S_joining \<Longrightarrow> epc s = E_exited \<Longrightarrow>
    db_step n s (s\<lparr>joined := True, spc := (spc s)(q := S_none)\<rparr>)"

abbreviation db_steps :: "nat \<Rightarrow> doorbell \<Rightarrow> doorbell \<Rightarrow> bool" where
  "db_steps n \<equiv> (db_step n)\<^sup>*\<^sup>*"

lemmas db_defs = write_doorbell_def ring_exchange_def ring_write_def handle_doorbell_def
  handle_doorbell_end_def run_doorbell_handler_arm_def run_doorbell_handler_disarm_def
  run_doorbell_handler_write_def cancel_doorbell_def stop_flag_def stop_post_def stop_release_def
  stop_context_def

section \<open>No wake-up is lost\<close>

text \<open>
  A wake-up is under way when the counter is positive or a producer is about to write it. While the
  executor waits or is about to wait, a disarmed doorbell and a queued item each imply that a
  wake-up is under way, or that the item's producer has not rung yet. A call of \<^verbatim>\<open>stop\<close> that has posted its
  cancellation leaves no wait behind without one.
\<close>

definition wakeup :: "doorbell \<Rightarrow> bool" where
  "wakeup s \<longleftrightarrow> 0 < counter s \<or> (\<exists>p. ppc s p = P_write)"

definition ringing :: "doorbell \<Rightarrow> bool" where
  "ringing s \<longleftrightarrow> (\<exists>p. ppc s p = P_pushed)"

definition stop_inv :: "doorbell \<Rightarrow> bool" where
  "stop_inv s \<longleftrightarrow>
     (\<forall>q. spc s q \<noteq> S_none \<longrightarrow> stopping s) \<and> (\<not> guard_held s \<longrightarrow> stopping s) \<and>
     (\<forall>q f. spc s q = S_released f \<or> spc s q = S_joining \<longrightarrow> \<not> guard_held s) \<and>
     ((\<not> guard_held s \<or> (\<exists>q f. spc s q = S_posted f)) \<and> epc s = E_wait \<longrightarrow> 0 < cancels s)"

definition bell_inv :: "doorbell \<Rightarrow> bool" where
  "bell_inv s \<longleftrightarrow>
     (\<not> armed s \<and> epc s \<in> {E_wait, E_handler, E_drained, E_recheck} \<longrightarrow> wakeup s) \<and>
     (0 < items s \<and> epc s \<in> {E_wait, E_drained, E_recheck} \<longrightarrow> wakeup s \<or> ringing s)"

definition db_inv :: "doorbell \<Rightarrow> bool" where
  "db_inv s \<longleftrightarrow> bell_inv s \<and> stop_inv s"

lemma db_inv_init: "db_inv doorbell_init"
  by (simp add: db_inv_def bell_inv_def stop_inv_def doorbell_init_def)

lemma stop_inv_step:
  assumes "db_step n s s'" and "stop_inv s"
  shows "stop_inv s'"
  using assms(1)
proof cases
  case (stop q f)
  then show ?thesis using assms(2) by (auto simp: stop_inv_def stop_flag_def split: if_splits)
next
  case (stop_post q f)
  then show ?thesis using assms(2) by (auto simp: stop_inv_def stop_post_def split: if_splits)
next
  case (stop_release q f)
  then show ?thesis using assms(2) by (auto simp: stop_inv_def stop_release_def split: if_splits)
next
  case (stop_context q f)
  then show ?thesis using assms(2) by (auto simp: stop_inv_def stop_context_def split: if_splits)
next
  case (stop_return q)
  then show ?thesis using assms(2) by (auto simp: stop_inv_def split: if_splits)
next
  case (stop_join q)
  then show ?thesis using assms(2) by (auto simp: stop_inv_def split: if_splits)
qed (use assms(2) in \<open>simp_all add: stop_inv_def db_defs split: if_splits\<close>)

lemma wakeup_write_doorbell: "wakeup (write_doorbell s)"
  by (auto simp: wakeup_def write_doorbell_def eventfd_max_def)

lemma write_doorbell_frame [simp]:
  "armed (write_doorbell s) = armed s" "items (write_doorbell s) = items s"
  "epc (write_doorbell s) = epc s" "ppc (write_doorbell s) = ppc s"
  "stopping (write_doorbell s) = stopping s" "cancels (write_doorbell s) = cancels s"
  "handler_runs (write_doorbell s) = handler_runs s" "spc (write_doorbell s) = spc s"
  "guard_held (write_doorbell s) = guard_held s" "ctx_stopped (write_doorbell s) = ctx_stopped s"
  "others (write_doorbell s) = others s" "joined (write_doorbell s) = joined s"
  by (simp_all add: write_doorbell_def)

lemma counter_write_doorbell_pos: "0 < counter (write_doorbell s)"
  by (simp add: write_doorbell_def eventfd_max_def)

lemma ex_fun_upd_same: "(\<exists>q. (f(p := v)) q = v)"
  by (rule exI [of _ p]) simp

lemma ex_fun_upd_other: "v \<noteq> c \<Longrightarrow> f p \<noteq> c \<Longrightarrow> (\<exists>q. (f(p := v)) q = c) \<longleftrightarrow> (\<exists>q. f q = c)"
  by (metis fun_upd_other fun_upd_same)

lemma wakeup_push:
  "ppc s p = P_idle \<Longrightarrow> wakeup (s\<lparr>items := i, ppc := (ppc s)(p := P_pushed)\<rparr>) = wakeup s"
  unfolding wakeup_def by (simp add: ex_fun_upd_other del: fun_upd_apply)

lemma wakeup_ring_exchange:
  "ppc s p = P_pushed \<Longrightarrow> wakeup (ring_exchange p s) \<longleftrightarrow> armed s \<or> wakeup s"
  unfolding wakeup_def ring_exchange_def
  by (simp add: ex_fun_upd_other ex_fun_upd_same del: fun_upd_apply)

lemma ringing_ring_write:
  "ppc s p = P_write \<Longrightarrow> ringing (ring_write p s) = ringing s"
  unfolding ringing_def ring_write_def by (simp add: ex_fun_upd_other del: fun_upd_apply)

lemma bell_inv_push:
  assumes "bell_inv s" and "ppc s p = P_idle"
  shows "bell_inv (s\<lparr>items := Suc (items s), ppc := (ppc s)(p := P_pushed)\<rparr>)"
proof -
  have "ringing (s\<lparr>items := Suc (items s), ppc := (ppc s)(p := P_pushed)\<rparr>)"
    by (simp add: ringing_def ex_fun_upd_same del: fun_upd_apply)
  with assms show ?thesis by (simp add: bell_inv_def wakeup_push)
qed

lemma bell_inv_ring_exchange:
  assumes "bell_inv s" and "ppc s p = P_pushed"
  shows "bell_inv (ring_exchange p s)"
proof -
  have frame: "items (ring_exchange p s) = items s" "epc (ring_exchange p s) = epc s"
      "stopping (ring_exchange p s) = stopping s" "cancels (ring_exchange p s) = cancels s"
      "spc (ring_exchange p s) = spc s" "guard_held (ring_exchange p s) = guard_held s"
    by (simp_all add: ring_exchange_def)
  have "wakeup (ring_exchange p s)" if "epc s \<in> {E_wait, E_handler, E_drained, E_recheck}"
    using assms that by (auto simp: wakeup_ring_exchange bell_inv_def)
  then show ?thesis using assms(1) unfolding bell_inv_def frame by blast
qed

lemma bell_inv_ring_write:
  assumes "bell_inv s" and "ppc s p = P_write"
  shows "bell_inv (ring_write p s)"
proof -
  have "wakeup (ring_write p s)"
    using counter_write_doorbell_pos [of s] by (simp add: wakeup_def ring_write_def)
  with assms(1) show ?thesis by (simp add: bell_inv_def ring_write_def)
qed

lemma wakeup_congs [simp]:
  "wakeup (s\<lparr>epc := x\<rparr>) = wakeup s" "wakeup (s\<lparr>items := i\<rparr>) = wakeup s"
  "wakeup (s\<lparr>armed := b\<rparr>) = wakeup s" "wakeup (s\<lparr>stopping := b\<rparr>) = wakeup s"
  "wakeup (s\<lparr>cancels := k\<rparr>) = wakeup s" "wakeup (s\<lparr>handler_runs := k\<rparr>) = wakeup s"
  "wakeup (s\<lparr>spc := y\<rparr>) = wakeup s" "wakeup (s\<lparr>guard_held := b\<rparr>) = wakeup s"
  "wakeup (s\<lparr>ctx_stopped := b\<rparr>) = wakeup s" "wakeup (s\<lparr>others := k\<rparr>) = wakeup s" "wakeup (s\<lparr>joined := b\<rparr>) = wakeup s"
  by (simp_all add: wakeup_def)

lemma ringing_congs [simp]:
  "ringing (s\<lparr>epc := x\<rparr>) = ringing s" "ringing (s\<lparr>items := i\<rparr>) = ringing s"
  "ringing (s\<lparr>armed := b\<rparr>) = ringing s" "ringing (s\<lparr>stopping := b\<rparr>) = ringing s"
  "ringing (s\<lparr>cancels := k\<rparr>) = ringing s" "ringing (s\<lparr>handler_runs := k\<rparr>) = ringing s"
  "ringing (s\<lparr>spc := y\<rparr>) = ringing s" "ringing (s\<lparr>guard_held := b\<rparr>) = ringing s"
  "ringing (s\<lparr>ctx_stopped := b\<rparr>) = ringing s" "ringing (s\<lparr>others := k\<rparr>) = ringing s" "ringing (s\<lparr>joined := b\<rparr>) = ringing s"
  by (simp_all add: ringing_def)

lemma bell_inv_step:
  assumes "db_step n s s'" and "bell_inv s"
  shows "bell_inv s'"
  using assms(1)
proof cases
  case (push p) with assms(2) show ?thesis by (simp add: bell_inv_push)
next
  case (ring_exchange p) with assms(2) show ?thesis by (simp add: bell_inv_ring_exchange)
next
  case (ring_write p) with assms(2) show ?thesis by (simp add: bell_inv_ring_write)
next
  case self_write
  with assms(2) show ?thesis
    by (simp add: bell_inv_def run_doorbell_handler_write_def wakeup_write_doorbell)
next
  case (cancel)
  with assms(2) show ?thesis
    by (cases "epc s") (simp_all add: bell_inv_def cancel_doorbell_def between_handlers_def)
qed (use assms(2) in \<open>simp_all add: bell_inv_def db_defs split: if_splits\<close>)

lemma db_inv_step: "db_step n s s' \<Longrightarrow> db_inv s \<Longrightarrow> db_inv s'"
  by (simp add: db_inv_def bell_inv_step stop_inv_step)

lemma db_inv_steps: "db_steps n s s' \<Longrightarrow> db_inv s \<Longrightarrow> db_inv s'"
  by (induction rule: rtranclp_induct) (auto intro: db_inv_step)

section \<open>The counter stays small\<close>

text \<open>
  How many more writes the executor can cause before its next read: it arms the doorbell at most
  once (which lets one more producer win the exchange) and writes at most once itself.
\<close>

fun writes_left :: "executor_pc \<Rightarrow> nat" where
  "writes_left (E_done ec) = (if ec = None then 2 else 0)"
| "writes_left E_arm = 2"
| "writes_left E_handler = 1"
| "writes_left E_remain = 1"
| "writes_left E_write = 1"
| "writes_left _ = 0"

definition writers :: "nat \<Rightarrow> doorbell \<Rightarrow> nat set" where
  "writers n s = {p. p < n \<and> ppc s p = P_write}"

definition potential :: "nat \<Rightarrow> doorbell \<Rightarrow> nat" where
  "potential n s = counter s + card (writers n s) + (if armed s then 1 else 0) + writes_left (epc s)"

lemma finite_writers [simp]: "finite (writers n s)"
  by (simp add: writers_def)

lemma card_writers_le: "card (writers n s) \<le> n"
  using card_mono [of "{..<n}" "writers n s"] by (auto simp: writers_def)

lemma writers_congs [simp]:
  "writers n (s\<lparr>epc := x\<rparr>) = writers n s" "writers n (s\<lparr>items := i\<rparr>) = writers n s"
  "writers n (s\<lparr>armed := b\<rparr>) = writers n s" "writers n (s\<lparr>stopping := b\<rparr>) = writers n s"
  "writers n (s\<lparr>cancels := k\<rparr>) = writers n s" "writers n (s\<lparr>counter := c\<rparr>) = writers n s"
  "writers n (s\<lparr>spc := y\<rparr>) = writers n s" "writers n (s\<lparr>guard_held := b\<rparr>) = writers n s"
  "writers n (s\<lparr>ctx_stopped := b\<rparr>) = writers n s" "writers n (s\<lparr>others := k\<rparr>) = writers n s"
  "writers n (s\<lparr>joined := b\<rparr>) = writers n s"
  "writers n (s\<lparr>handler_runs := k\<rparr>) = writers n s" "writers n (write_doorbell s) = writers n s"
  by (simp_all add: writers_def)

lemma writers_ppc:
  "p < n \<Longrightarrow> writers n (s\<lparr>ppc := (ppc s)(p := v)\<rparr>) =
     (if v = P_write then insert p (writers n s) else writers n s - {p})"
  by (auto simp: writers_def)

lemma counter_write_doorbell_le: "counter (write_doorbell s) \<le> Suc (counter s)"
  by (simp add: write_doorbell_def)

lemma potential_producer:
  assumes "p < n"
  shows "ppc s p = P_idle \<Longrightarrow>
      potential n (s\<lparr>items := i, ppc := (ppc s)(p := P_pushed)\<rparr>) \<le> potential n s"
    and "ppc s p = P_pushed \<Longrightarrow> potential n (ring_exchange p s) \<le> potential n s"
    and "ppc s p = P_write \<Longrightarrow> potential n (ring_write p s) \<le> potential n s"
proof -
  have less: "card (writers n s - {p}) \<le> card (writers n s)"
    by (simp add: card_Diff1_le)
  show "potential n (s\<lparr>items := i, ppc := (ppc s)(p := P_pushed)\<rparr>) \<le> potential n s"
    using assms less writers_ppc [OF assms, of "s\<lparr>items := i\<rparr>" P_pushed] by (simp add: potential_def)
  show "potential n (ring_exchange p s) \<le> potential n s"
    using assms less card_insert_le_m1 [of "Suc (card (writers n s))" "writers n s" p]
      writers_ppc [OF assms, of "s\<lparr>armed := False\<rparr>"]
    by (simp add: potential_def ring_exchange_def card_insert_if)
  show "potential n (ring_write p s) \<le> potential n s" if "ppc s p = P_write"
  proof -
    have "p \<in> writers n s" using assms that by (simp add: writers_def)
    then have "Suc (card (writers n s - {p})) = card (writers n s)"
      by (intro card_Suc_Diff1) simp_all
    moreover have "writers n (ring_write p s) = writers n s - {p}"
      using writers_ppc [OF assms, of "write_doorbell s" P_idle] by (simp add: ring_write_def)
    ultimately show ?thesis
      using counter_write_doorbell_le [of s] by (simp add: potential_def) (simp add: ring_write_def)
  qed
qed

lemma potential_step:
  assumes "db_step n s s'" and "potential n s \<le> n + 3"
  shows "potential n s' \<le> n + 3"
  using assms(1)
proof cases
  case (push p)
  with assms(2) potential_producer(1) [of p n s "Suc (items s)"] show ?thesis by simp
next
  case (ring_exchange p)
  with assms(2) potential_producer(2) [of p n s] show ?thesis by simp
next
  case (ring_write p)
  with assms(2) potential_producer(3) [of p n s] show ?thesis by simp
next
  case read
  then show ?thesis
    using card_writers_le [of n s] by (simp add: potential_def)
next
  case self_write
  then show ?thesis
    using assms(2) counter_write_doorbell_le [of s]
    by (simp add: potential_def run_doorbell_handler_write_def)
next
  case cancel
  then show ?thesis
    using assms(2) by (cases "epc s") (auto simp: potential_def cancel_doorbell_def)
qed (use assms(2) in \<open>simp_all add: potential_def db_defs split: if_splits\<close>)

lemma potential_steps: "db_steps n s s' \<Longrightarrow> potential n s \<le> n + 3 \<Longrightarrow> potential n s' \<le> n + 3"
  by (induction rule: rtranclp_induct) (auto intro: potential_step)

section \<open>Stopping\<close>

lemma stopping_step: "db_step n s s' \<Longrightarrow> stopping s \<Longrightarrow> stopping s'"
  by (erule db_step.cases) (auto simp: db_defs)

text \<open>
  The handler runs that a stopping executor still owes: only a pass that was past its check of
  \<^verbatim>\<open>is_stopping\<close> when \<^verbatim>\<open>stop\<close> was called.
\<close>

definition handler_due :: "doorbell \<Rightarrow> nat" where
  "handler_due s = (if epc s = E_arm then 1 else 0)"

lemma handler_runs_stopping_step:
  "db_step n s s' \<Longrightarrow> stopping s \<Longrightarrow> db_inv s \<Longrightarrow>
     handler_runs s' + handler_due s' \<le> handler_runs s + handler_due s"
  by (erule db_step.cases) (auto simp: handler_due_def db_defs split: if_splits)

lemma handler_runs_stopping:
  "db_steps n s s' \<Longrightarrow> stopping s \<Longrightarrow> db_inv s \<Longrightarrow>
     handler_runs s' + handler_due s' \<le> handler_runs s + handler_due s \<and> stopping s' \<and> db_inv s'"
proof (induction rule: rtranclp_induct)
  case base
  then show ?case by simp
next
  case (step t u)
  then have "handler_runs u + handler_due u \<le> handler_runs t + handler_due t" and "stopping u" and "db_inv u"
    using handler_runs_stopping_step [OF step.hyps(2)] stopping_step [OF step.hyps(2)]
      db_inv_step [OF step.hyps(2)] by blast+
  with step show ?case by simp
qed

text \<open>The steps of the executor thread alone, and how many of them a stopping executor has left.\<close>

fun steps_to_idle :: "executor_pc \<Rightarrow> nat" where
  "steps_to_idle E_wait = 2"
| "steps_to_idle (E_done _) = 1"
| "steps_to_idle E_arm = 6"
| "steps_to_idle E_handler = 5"
| "steps_to_idle E_drained = 2"
| "steps_to_idle E_remain = 3"
| "steps_to_idle E_write = 2"
| "steps_to_idle E_recheck = 1"
| "steps_to_idle E_idle = 0"
| "steps_to_idle E_exited = 0"

lemma steps_to_idle_step:
  "db_step n s s' \<Longrightarrow> stopping s \<Longrightarrow> steps_to_idle (epc s') \<le> steps_to_idle (epc s)"
  by (erule db_step.cases) (auto simp: db_defs)

lemma steps_to_idle_steps:
  "db_steps n s s' \<Longrightarrow> stopping s \<Longrightarrow> steps_to_idle (epc s') \<le> steps_to_idle (epc s) \<and> stopping s'"
  by (induction rule: rtranclp_induct) (auto dest: steps_to_idle_step stopping_step)

text \<open>
  How far the thread is from its end: its own steps to idleness, the cancellations and the work of others that are
  outstanding (which a stopped context does not run), and the return of \<^verbatim>\<open>io_context.run\<close>.
\<close>

definition steps_to_exit :: "doorbell \<Rightarrow> nat" where
  "steps_to_exit s = (if epc s = E_exited then 0
     else steps_to_idle (epc s) + (if ctx_stopped s then 0 else cancels s + others s) + 1)"

lemma steps_to_exit_step:
  assumes "db_step n s t" and "stopping s" and "others t \<le> others s" and "cancels t \<le> cancels s"
  shows "steps_to_exit t \<le> steps_to_exit s"
  using assms by cases (auto simp: steps_to_exit_def db_defs split: if_splits)

text \<open>
  The steps that the executor thread is sure to be able to take: the code of the doorbell, the posted closures,
  the callbacks of others, the completion of a wait for which there is something to read, and the return
  of \<^verbatim>\<open>io_context.run\<close>. That the read of the eventfd fails (\<open>db_step.read_error\<close>) is possible, but nothing that a thread
  could wait for, so a wait with nothing to read ends here only by the cancellation that \<^verbatim>\<open>stop\<close> posts, or together
  with the run of a stopped \<^verbatim>\<open>io_context\<close>.
\<close>

inductive own_step :: "doorbell \<Rightarrow> doorbell \<Rightarrow> bool" where
  read: "epc s = E_wait \<Longrightarrow> 0 < counter s \<Longrightarrow> own_step s (s\<lparr>counter := 0, epc := E_done None\<rparr>)"
| handle: "epc s = E_done ec \<Longrightarrow> own_step s (handle_doorbell ec s)"
| arm: "epc s = E_arm \<Longrightarrow> own_step s (run_doorbell_handler_arm s)"
| pop: "epc s = E_handler \<Longrightarrow> 0 < items s \<Longrightarrow> own_step s (s\<lparr>items := items s - 1\<rparr>)"
| last_check: "epc s = E_handler \<Longrightarrow> items s = 0 \<Longrightarrow> own_step s (s\<lparr>epc := E_drained\<rparr>)"
| return_false: "epc s = E_drained \<Longrightarrow> own_step s (s\<lparr>epc := E_recheck\<rparr>)"
| return_true: "epc s = E_handler \<Longrightarrow> own_step s (s\<lparr>epc := E_remain\<rparr>)"
| disarm: "epc s = E_remain \<Longrightarrow> own_step s (run_doorbell_handler_disarm s)"
| self_write: "epc s = E_write \<Longrightarrow> own_step s (run_doorbell_handler_write s)"
| recheck: "epc s = E_recheck \<Longrightarrow> own_step s (handle_doorbell_end s)"
| cancel: "0 < cancels s \<Longrightarrow> between_handlers s \<Longrightarrow> own_step s (cancel_doorbell s)"
| other_done: "0 < others s \<Longrightarrow> between_handlers s \<Longrightarrow> own_step s (s\<lparr>others := others s - 1\<rparr>)"
| exit_stopped: "ctx_stopped s \<Longrightarrow> between_handlers s \<Longrightarrow> own_step s (s\<lparr>epc := E_exited\<rparr>)"
| exit_no_work: "\<not> guard_held s \<Longrightarrow> epc s = E_idle \<Longrightarrow> cancels s = 0 \<Longrightarrow> others s = 0 \<Longrightarrow>
    own_step s (s\<lparr>epc := E_exited\<rparr>)"

lemma own_step_db: "own_step s t \<Longrightarrow> db_step n s t"
  by (erule own_step.cases) (simp_all add: db_step.intros del: One_nat_def)

inductive_simps own_step_waiting: "own_step s t"

text \<open>A wait with nothing to read is ended by the cancellation or by the stop of the context, and by nothing else.\<close>

lemma wait_needs_cancel:
  "epc s = E_wait \<Longrightarrow> counter s = 0 \<Longrightarrow> own_step s t \<Longrightarrow> epc t \<noteq> E_wait \<Longrightarrow> 0 < cancels s \<or> ctx_stopped s"
  by (auto simp: own_step_waiting)

text \<open>Such a step towards the end of the thread: the other threads stay where they are.\<close>

definition exit_step :: "doorbell \<Rightarrow> doorbell \<Rightarrow> bool" where
  "exit_step s t \<longleftrightarrow> own_step s t \<and> steps_to_exit t < steps_to_exit s \<and> ppc t = ppc s \<and> spc t = spc s \<and>
     guard_held t = guard_held s"

lemma exit_stepI:
  assumes "own_step s t" and "epc s \<noteq> E_exited"
    and "epc t = E_exited \<or> cancels t + others t + steps_to_idle (epc t) < cancels s + others s + steps_to_idle (epc s) \<and>
      ctx_stopped t = ctx_stopped s \<and> (ctx_stopped s \<longrightarrow> steps_to_idle (epc t) < steps_to_idle (epc s))"
    and "ppc t = ppc s" and "spc t = spc s" and "guard_held t = guard_held s"
  shows "\<exists>t. exit_step s t"
  using assms by (intro exI [of _ t]) (auto simp: exit_step_def steps_to_exit_def)

lemma idle_progress:
  assumes "\<not> guard_held s" and "epc s = E_idle"
  shows "\<exists>t. exit_step s t"
proof -
  note go = exit_stepI [of s]
  consider (stopped) "ctx_stopped s" | (cancel) "0 < cancels s" "\<not> ctx_stopped s"
    | (other) "0 < others s" "\<not> ctx_stopped s" | (none) "cancels s = 0" "others s = 0"
    by blast
  then show ?thesis
  proof cases
    case stopped
    then have "own_step s (s\<lparr>epc := E_exited\<rparr>)" using assms by (simp add: own_step.exit_stopped between_handlers_def)
    from go [OF this] assms show ?thesis by simp
  next
    case cancel
    then have "own_step s (cancel_doorbell s)" using assms by (simp add: own_step.cancel between_handlers_def)
    from go [OF this] assms cancel show ?thesis by (simp add: cancel_doorbell_def)
  next
    case other
    then have "own_step s (s\<lparr>others := others s - 1\<rparr>)" using assms by (intro own_step.other_done) (simp_all add: between_handlers_def)
    from go [OF this] assms other show ?thesis by simp
  next
    case none
    then have "own_step s (s\<lparr>epc := E_exited\<rparr>)" using assms by (simp add: own_step.exit_no_work)
    from go [OF this] assms show ?thesis by simp
  qed
qed

lemma stopping_progress:
  assumes "db_inv s" and "\<not> guard_held s" and "epc s \<noteq> E_exited"
  shows "\<exists>t. exit_step s t"
proof -
  have stop: "stopping s" and wait: "epc s = E_wait \<longrightarrow> 0 < cancels s" using assms(1,2) by (auto simp: db_inv_def stop_inv_def)
  note go = exit_stepI [OF _ assms(3)]
  show ?thesis
  proof (cases "epc s")
    case E_wait
    then have "own_step s (cancel_doorbell s)" using wait by (simp add: own_step.cancel between_handlers_def)
    from go [OF this] E_wait wait show ?thesis by (simp add: cancel_doorbell_def)
  next
    case (E_done ec)
    then have "own_step s (handle_doorbell ec s)" by (rule own_step.handle)
    from go [OF this] E_done stop show ?thesis by (simp add: handle_doorbell_def)
  next
    case E_arm
    then have "own_step s (run_doorbell_handler_arm s)" by (rule own_step.arm)
    from go [OF this] E_arm show ?thesis by (simp add: run_doorbell_handler_arm_def)
  next
    case E_handler
    then have "own_step s (s\<lparr>epc := E_remain\<rparr>)" by (rule own_step.return_true)
    from go [OF this] E_handler show ?thesis by simp
  next
    case E_drained
    then have "own_step s (s\<lparr>epc := E_recheck\<rparr>)" by (rule own_step.return_false)
    from go [OF this] E_drained show ?thesis by simp
  next
    case E_remain
    then have "own_step s (run_doorbell_handler_disarm s)" by (rule own_step.disarm)
    from go [OF this] E_remain show ?thesis by (simp add: run_doorbell_handler_disarm_def)
  next
    case E_write
    then have "own_step s (run_doorbell_handler_write s)" by (rule own_step.self_write)
    from go [OF this] E_write show ?thesis by (simp add: run_doorbell_handler_write_def)
  next
    case E_recheck
    then have "own_step s (handle_doorbell_end s)" by (rule own_step.recheck)
    from go [OF this] E_recheck stop show ?thesis by (simp add: handle_doorbell_end_def)
  next
    case E_idle
    then show ?thesis using assms(2) by (intro idle_progress)
  qed (use assms(3) in simp)
qed

lemma exits:
  "db_inv s \<Longrightarrow> \<not> guard_held s \<Longrightarrow> \<exists>t. exit_step\<^sup>*\<^sup>* s t \<and> epc t = E_exited"
proof (induction "steps_to_exit s" arbitrary: s rule: less_induct)
  case less
  show ?case
  proof (cases "epc s = E_exited")
    case False
    with less.prems obtain t where t: "exit_step s t" using stopping_progress by blast
    then have "db_inv t" "\<not> guard_held t" "steps_to_exit t < steps_to_exit s"
      using less.prems db_inv_step [OF own_step_db [of s t 0]] by (auto simp: exit_step_def)
    with less.hyps obtain v where "exit_step\<^sup>*\<^sup>* t v" "epc v = E_exited" by blast
    with t show ?thesis by (meson converse_rtranclp_into_rtranclp)
  qed auto
qed

section \<open>Properties\<close>

text \<open>
  C6: no wake-up is lost. For any number of producers, any interleaving and any point at which the
  handler reports remaining work: when the executor waits on the doorbell with nothing to read, and
  no producer is inside \<^verbatim>\<open>ring()\<close>, every queue is empty. So a pushed and rung item is never left
  behind by a sleeping executor.
\<close>

theorem doorbell_no_lost_wakeup:
  assumes "db_steps n doorbell_init s"
    and "epc s = E_wait" and "counter s = 0" and "\<forall>p. ppc s p = P_idle"
  shows "items s = 0"
proof -
  have "db_inv s" using assms(1) db_inv_init by (rule db_inv_steps)
  with assms(2-4) show ?thesis by (auto simp: db_inv_def bell_inv_def wakeup_def ringing_def)
qed

text \<open>
  C38: the eventfd counter cannot overflow. With \<open>n\<close> producer threads it never exceeds \<open>n + 3\<close>, so
  the failure that \<^verbatim>\<open>write_doorbell\<close> ignores does not occur.
\<close>

theorem doorbell_counter_bounded:
  assumes "db_steps n doorbell_init s"
  shows "counter s \<le> n + 3"
proof -
  have "potential n doorbell_init \<le> n + 3"
    by (simp add: potential_def doorbell_init_def writers_def)
  with assms have "potential n s \<le> n + 3" by (rule potential_steps)
  then show ?thesis by (simp add: potential_def)
qed

text \<open>
  C33: a stopped executor runs no further handler. Once \<^verbatim>\<open>stop\<close> has set \<^verbatim>\<open>is_stopping\<close>, at most the pass that had
  already passed its check enters the handler, whatever the producers do and however often \<^verbatim>\<open>stop\<close> is
  called again; and no step of any thread takes the executor thread further from having no doorbell wait.
\<close>

theorem doorbell_stop:
  assumes "db_steps n doorbell_init s" and "stopping s" and "db_steps n s s'"
  shows "handler_runs s' \<le> handler_runs s + (if epc s = E_arm then 1 else 0) \<and>
    steps_to_idle (epc s') \<le> steps_to_idle (epc s)"
proof -
  have "db_inv s" using assms(1) db_inv_init by (rule db_inv_steps)
  with assms have "handler_runs s' + handler_due s' \<le> handler_runs s + handler_due s"
    using handler_runs_stopping by blast
  with steps_to_idle_steps [OF assms(3,2)] show ?thesis by (auto simp: handler_due_def)
qed

text \<open>
  C8: the \<^verbatim>\<open>join\<close> in \<^verbatim>\<open>stop\<close> returns. When a call of \<^verbatim>\<open>stop\<close> has come to its \<^verbatim>\<open>thread.join()\<close>, the executor thread is
  never stuck: as long as it has not ended, it has a step of its own that takes it closer to its end (a
  callback that is running returns, an operation of another component completes, the posted cancellation ends the
  doorbell wait; a failure of the eventfd is not relied on), and no step of another thread takes it away again,
  except by giving the \<^verbatim>\<open>io_context\<close> new work. After a forced stop the work of others does not count. So after
  finitely many of its own steps the thread ends.
\<close>

theorem executor_stop_joins:
  assumes "db_steps n doorbell_init s" and "spc s q = S_joining"
  shows "(epc s \<noteq> E_exited \<longrightarrow> (\<exists>t. exit_step s t)) \<and>
    (\<forall>t. db_step n s t \<longrightarrow> others t \<le> others s \<longrightarrow> cancels t \<le> cancels s \<longrightarrow> steps_to_exit t \<le> steps_to_exit s) \<and>
    (\<exists>t. exit_step\<^sup>*\<^sup>* s t \<and> epc t = E_exited)"
proof -
  have inv: "db_inv s" using assms(1) db_inv_init by (rule db_inv_steps)
  then have g: "\<not> guard_held s" and "stopping s" using assms(2) by (auto simp: db_inv_def stop_inv_def)
  then show ?thesis using stopping_progress [OF inv g] exits [OF inv g] steps_to_exit_step by blast
qed

section \<open>A run\<close>

text \<open>One producer pushes and rings; the executor wakes up, drains the queue and waits again.\<close>

lemma doorbell_round: "db_steps 1 doorbell_init (doorbell_init\<lparr>handler_runs := 1\<rparr>)"
proof -
  let ?i = doorbell_init
  let ?p = "\<lambda>v. (\<lambda>_. P_idle)(0 := v)"
  note d = doorbell_init_def db_defs eventfd_max_def
  have "db_steps 1 ?i ?i" by simp
  also have "db_step 1 ?i (?i\<lparr>items := 1, ppc := ?p P_pushed\<rparr>)"
    using db_step.push [of 0 1 ?i] by (simp add: d)
  also have "db_step 1 (?i\<lparr>items := 1, ppc := ?p P_pushed\<rparr>)
      (?i\<lparr>items := 1, ppc := ?p P_write, armed := False\<rparr>)"
    using db_step.ring_exchange [of 0 1 "?i\<lparr>items := 1, ppc := ?p P_pushed\<rparr>"] by (simp add: d)
  also have "db_step 1 (?i\<lparr>items := 1, ppc := ?p P_write, armed := False\<rparr>)
      (?i\<lparr>items := 1, armed := False, counter := 1\<rparr>)"
    using db_step.ring_write [of 0 1 "?i\<lparr>items := 1, ppc := ?p P_write, armed := False\<rparr>"]
    by (simp add: d fun_upd_idem)
  also have "db_step 1 (?i\<lparr>items := 1, armed := False, counter := 1\<rparr>)
      (?i\<lparr>items := 1, armed := False, epc := E_done None\<rparr>)"
    using db_step.read [of "?i\<lparr>items := 1, armed := False, counter := 1\<rparr>" 1] by (simp add: d)
  also have "db_step 1 (?i\<lparr>items := 1, armed := False, epc := E_done None\<rparr>)
      (?i\<lparr>items := 1, armed := False, epc := E_arm\<rparr>)"
    using db_step.handle [of "?i\<lparr>items := 1, armed := False, epc := E_done None\<rparr>" None 1]
    by (simp add: d)
  also have "db_step 1 (?i\<lparr>items := 1, armed := False, epc := E_arm\<rparr>)
      (?i\<lparr>items := 1, epc := E_handler, handler_runs := 1\<rparr>)"
    using db_step.arm [of "?i\<lparr>items := 1, armed := False, epc := E_arm\<rparr>" 1] by (simp add: d)
  also have "db_step 1 (?i\<lparr>items := 1, epc := E_handler, handler_runs := 1\<rparr>)
      (?i\<lparr>epc := E_handler, handler_runs := 1\<rparr>)"
    using db_step.pop [of "?i\<lparr>items := 1, epc := E_handler, handler_runs := 1\<rparr>" 1] by (simp add: d)
  also have "db_step 1 (?i\<lparr>epc := E_handler, handler_runs := 1\<rparr>)
      (?i\<lparr>epc := E_drained, handler_runs := 1\<rparr>)"
    using db_step.last_check [of "?i\<lparr>epc := E_handler, handler_runs := 1\<rparr>" 1] by (simp add: d)
  also have "db_step 1 (?i\<lparr>epc := E_drained, handler_runs := 1\<rparr>)
      (?i\<lparr>epc := E_recheck, handler_runs := 1\<rparr>)"
    using db_step.return_false [of "?i\<lparr>epc := E_drained, handler_runs := 1\<rparr>" 1] by (simp add: d)
  also have "db_step 1 (?i\<lparr>epc := E_recheck, handler_runs := 1\<rparr>) (?i\<lparr>handler_runs := 1\<rparr>)"
    using db_step.recheck [of "?i\<lparr>epc := E_recheck, handler_runs := 1\<rparr>" 1] by (simp add: d)
  finally show ?thesis .
qed

theorem doorbell_no_lost_wakeup_witness: "items (doorbell_init\<lparr>handler_runs := 1\<rparr>) = 0"
  by (rule doorbell_no_lost_wakeup [OF doorbell_round]) (simp_all add: doorbell_init_def)

theorem doorbell_counter_bounded_witness: "counter (doorbell_init\<lparr>handler_runs := 1\<rparr>) \<le> 1 + 3"
  by (rule doorbell_counter_bounded [OF doorbell_round])

theorem doorbell_stop_witness:
  "handler_runs (stop_flag 0 True (doorbell_init\<lparr>handler_runs := 1\<rparr>)) \<le> 1"
proof -
  let ?s = "stop_flag 0 True (doorbell_init\<lparr>handler_runs := 1\<rparr>)"
  have "db_step 1 (doorbell_init\<lparr>handler_runs := 1\<rparr>) ?s" by (intro db_step.stop) (simp add: doorbell_init_def)
  with doorbell_round have "db_steps 1 doorbell_init ?s" by (rule rtranclp.rtrancl_into_rtrancl)
  from doorbell_stop [OF this, of ?s] show ?thesis by (simp add: stop_flag_def doorbell_init_def)
qed

text \<open>A call of \<^verbatim>\<open>stop()\<close> that has come to its \<^verbatim>\<open>join\<close>.\<close>

definition joining_init :: doorbell where
  "joining_init = stop_context 0 False (stop_release 0 False (stop_post 0 False (stop_flag 0 False doorbell_init)))"

theorem executor_stop_joins_witness: "\<exists>t. exit_step\<^sup>*\<^sup>* joining_init t \<and> epc t = E_exited"
proof -
  let ?a = "stop_flag 0 False doorbell_init" let ?b = "stop_post 0 False ?a" let ?c = "stop_release 0 False ?b"
  note d = stop_flag_def stop_post_def stop_release_def stop_context_def doorbell_init_def
  have "db_steps 1 doorbell_init doorbell_init" by simp
  also have "db_step 1 doorbell_init ?a" by (intro db_step.stop) (simp add: d)
  also have "db_step 1 ?a ?b" by (intro db_step.stop_post) (simp add: d)
  also have "db_step 1 ?b ?c" by (intro db_step.stop_release) (simp add: d)
  also have "db_step 1 ?c joining_init" unfolding joining_init_def by (intro db_step.stop_context) (simp add: d)
  finally have "db_steps 1 doorbell_init joining_init" .
  from executor_stop_joins [OF this, of 0] show ?thesis by (simp add: joining_init_def stop_context_def)
qed

end
