(* ===== verification/Timer.thy ===== *)
theory Timer
  imports Prelude "HOL-Library.Multiset"
begin

text \<open>
  \<^verbatim>\<open>cpp_components/timer/timer.{h,cpp}\<close>: a wrapper of Asio's \<^verbatim>\<open>steady_timer\<close>. The timer it wraps is
  not part of this repository; its state is the type parameter \<open>'t\<close> and its operations are the
  fields of \<open>steady_timer_ops\<close>, an argument of every operation. That state comprises what the timer has put into
  the queue of the executor: Asio calls no handler inside the operations of the timer; a wait that completes
  only makes its handler ready, and the executor calls it later. Under this contract every wait ends in
  one call of its handler.
\<close>

record ('t, 'h) steady_timer_ops =
  asio_expires_after :: "duration \<Rightarrow> 't \<Rightarrow> 't"
  asio_expires_at :: "time_point \<Rightarrow> 't \<Rightarrow> 't"
  asio_expiry :: "'t \<Rightarrow> time_point"
  asio_async_wait :: "(error_code \<Rightarrow> ('h \<times> error_code) list) \<Rightarrow> 't \<Rightarrow> 't"
  asio_cancel :: "'t \<Rightarrow> 't"

record 't timer =
  timer_impl :: 't

definition new_timer :: "'t \<Rightarrow> 't timer" where
  "new_timer t = \<lparr>timer_impl = t\<rparr>"

definition expires_after :: "('t, 'h) steady_timer_ops \<Rightarrow> duration \<Rightarrow> 't timer \<Rightarrow> 't timer" where
  "expires_after A d tm = tm\<lparr>timer_impl := asio_expires_after A d (timer_impl tm)\<rparr>"

definition expires_at :: "('t, 'h) steady_timer_ops \<Rightarrow> time_point \<Rightarrow> 't timer \<Rightarrow> 't timer" where
  "expires_at A t tm = tm\<lparr>timer_impl := asio_expires_at A t (timer_impl tm)\<rparr>"

definition expiry :: "('t, 'h) steady_timer_ops \<Rightarrow> 't timer \<Rightarrow> time_point" where
  "expiry A tm = asio_expiry A (timer_impl tm)"

text \<open>
  The closure that \<^verbatim>\<open>async_wait\<close> passes to Asio: the calls it makes when the wait completes.
\<close>

definition wait_closure :: "'h option \<Rightarrow> error_code \<Rightarrow> ('h \<times> error_code) list" where
  "wait_closure handler ec = (case handler of None \<Rightarrow> [] | Some h \<Rightarrow> [(h, ec)])"

definition async_wait :: "('t, 'h) steady_timer_ops \<Rightarrow> 'h option \<Rightarrow> 't timer \<Rightarrow> 't timer" where
  "async_wait A handler tm = tm\<lparr>timer_impl := asio_async_wait A (wait_closure handler) (timer_impl tm)\<rparr>"

definition cancel_timer :: "('t, 'h) steady_timer_ops \<Rightarrow> 't timer \<Rightarrow> 't timer" where
  "cancel_timer A tm = tm\<lparr>timer_impl := asio_cancel A (timer_impl tm)\<rparr>"

text \<open>The destructor cancels, too.\<close>

definition destroy_timer :: "('t, 'h) steady_timer_ops \<Rightarrow> 't timer \<Rightarrow> 't timer" where
  "destroy_timer A tm = tm\<lparr>timer_impl := asio_cancel A (timer_impl tm)\<rparr>"

text \<open>
  Calls on a timer. \<open>Tm_expire\<close> and \<open>Tm_run\<close> are Asio's own steps: the expiry time is reached, and the
  executor runs a handler that is ready. What a handler does to the timer when it is run are the calls after it.
\<close>

datatype 'h timer_call =
    Tm_expires_after duration
  | Tm_expires_at time_point
  | Tm_async_wait "'h option"
  | Tm_cancel
  | Tm_expire
  | Tm_run

fun timer_step :: "('t, 'h) steady_timer_ops \<Rightarrow> ('t \<Rightarrow> 't) \<Rightarrow> ('t \<Rightarrow> 't) \<Rightarrow> 'h timer_call \<Rightarrow> 't timer \<Rightarrow> 't timer" where
  "timer_step A expire run_ready (Tm_expires_after d) tm = expires_after A d tm"
| "timer_step A expire run_ready (Tm_expires_at t) tm = expires_at A t tm"
| "timer_step A expire run_ready (Tm_async_wait handler) tm = async_wait A handler tm"
| "timer_step A expire run_ready Tm_cancel tm = cancel_timer A tm"
| "timer_step A expire run_ready Tm_expire tm = tm\<lparr>timer_impl := expire (timer_impl tm)\<rparr>"
| "timer_step A expire run_ready Tm_run tm = tm\<lparr>timer_impl := run_ready (timer_impl tm)\<rparr>"

definition timer_run :: "('t, 'h) steady_timer_ops \<Rightarrow> ('t \<Rightarrow> 't) \<Rightarrow> ('t \<Rightarrow> 't) \<Rightarrow> 'h timer_call list \<Rightarrow> 't \<Rightarrow> 't timer" where
  "timer_run A expire run_ready cs t = fold (timer_step A expire run_ready) cs (new_timer t)"

section \<open>The contract of Asio's timer\<close>

text \<open>
  What Asio documents of \<^verbatim>\<open>steady_timer\<close>, over three observers: the closures of the waits that have not completed,
  those that are ready, each with the code it will be called with, and the calls that were made. A wait adds its
  closure; setting the expiry time or cancelling makes every outstanding wait ready with
  \<^verbatim>\<open>operation_aborted\<close>; reaching the expiry time makes every outstanding wait ready without an error. None of these
  calls a handler. The executor runs what is ready, one closure at a time; nothing is said about the order.
\<close>

type_synonym 'h wait = "error_code \<Rightarrow> ('h \<times> error_code) list"

type_synonym 'h ready_waits = "('h wait \<times> error_code) multiset"

record ('t, 'h) timer_view =
  waits :: "'t \<Rightarrow> 'h wait multiset"
  ready :: "'t \<Rightarrow> 'h ready_waits"
  calls :: "'t \<Rightarrow> ('h \<times> error_code) multiset"

definition completes_all :: "('t, 'h) timer_view \<Rightarrow> error_code \<Rightarrow> ('t \<Rightarrow> 't) \<Rightarrow> bool" where
  "completes_all V ec f \<longleftrightarrow>
     (\<forall>t. waits V (f t) = {#} \<and> ready V (f t) = ready V t + {#(w, ec). w \<in># waits V t#} \<and> calls V (f t) = calls V t)"

definition runs_one :: "('t, 'h) timer_view \<Rightarrow> ('t \<Rightarrow> 't) \<Rightarrow> bool" where
  "runs_one V f \<longleftrightarrow>
     (\<forall>t. waits V (f t) = waits V t \<and>
        (if ready V t = {#} then ready V (f t) = {#} \<and> calls V (f t) = calls V t
         else \<exists>w ec. ready V t = add_mset (w, ec) (ready V (f t)) \<and> calls V (f t) = calls V t + mset (w ec)))"

definition timer_contract :: "('t, 'h) steady_timer_ops \<Rightarrow> ('t \<Rightarrow> 't) \<Rightarrow> ('t \<Rightarrow> 't) \<Rightarrow> ('t, 'h) timer_view \<Rightarrow> bool" where
  "timer_contract A expire run_ready V \<longleftrightarrow>
     (\<forall>d. completes_all V (Some operation_aborted) (asio_expires_after A d)) \<and>
     (\<forall>t. completes_all V (Some operation_aborted) (asio_expires_at A t)) \<and>
     completes_all V (Some operation_aborted) (asio_cancel A) \<and>
     completes_all V None expire \<and> runs_one V run_ready \<and>
     (\<forall>f t. waits V (asio_async_wait A f t) = add_mset f (waits V t) \<and>
        ready V (asio_async_wait A f t) = ready V t \<and> calls V (asio_async_wait A f t) = calls V t)"

section \<open>Every wait ends in one call\<close>

fun handlers_given :: "'h timer_call list \<Rightarrow> 'h list" where
  "handlers_given [] = []"
| "handlers_given (Tm_async_wait (Some h) # cs) = h # handlers_given cs"
| "handlers_given (_ # cs) = handlers_given cs"

text \<open>The calls that ready closures will make.\<close>

definition due :: "'h ready_waits \<Rightarrow> ('h \<times> error_code) multiset" where
  "due rs = (\<Sum>(w, ec) \<in># rs. mset (w ec))"

lemma due_simps [simp]: "due {#} = {#}" "due (add_mset (w, ec) rs) = mset (w ec) + due rs" "due (rs + rs') = due rs + due rs'"
  by (simp_all add: due_def)

text \<open>The handlers behind waits: \<open>waiting hs\<close> are the non-empty ones.\<close>

definition waiting :: "'h option multiset \<Rightarrow> 'h multiset" where
  "waiting hs = (\<Sum>h \<in># hs. mset (case h of None \<Rightarrow> [] | Some x \<Rightarrow> [x]))"

lemma waiting_simps [simp]:
  "waiting {#} = {#}" "waiting (add_mset None hs) = waiting hs"
  "waiting (add_mset (Some h) hs) = add_mset h (waiting hs)"
  by (simp_all add: waiting_def)

lemma due_closures: "due {#(wait_closure h, ec). h \<in># hs#} = {#(h, ec). h \<in># waiting hs#}"
proof (induction hs)
  case (add h hs)
  then show ?case by (cases h) (simp_all add: wait_closure_def)
qed simp

text \<open>Called, ready and waiting handlers are together those that were given.\<close>

definition timer_inv :: "('t, 'h) timer_view \<Rightarrow> 'h multiset \<Rightarrow> 't \<Rightarrow> bool" where
  "timer_inv V given t \<longleftrightarrow>
     (\<exists>hs. waits V t = image_mset wait_closure hs \<and>
        image_mset fst (calls V t) + image_mset fst (due (ready V t)) + waiting hs = given)"

lemma timer_invI:
  "waits V t = image_mset wait_closure hs \<Longrightarrow>
   image_mset fst (calls V t) + image_mset fst (due (ready V t)) + waiting hs = given \<Longrightarrow> timer_inv V given t"
  by (auto simp: timer_inv_def)

lemma completes_all_inv:
  assumes "completes_all V ec f" and "timer_inv V given t"
  shows "timer_inv V given (f t)"
    and "\<exists>W. due (ready V (f t)) = due (ready V t) + {#(h, ec). h \<in># W#} \<and>
      image_mset fst (calls V t) + image_mset fst (due (ready V t)) + W = given"
proof -
  from assms(2) obtain hs where hs: "waits V t = image_mset wait_closure hs"
      "image_mset fst (calls V t) + image_mset fst (due (ready V t)) + waiting hs = given"
    by (auto simp: timer_inv_def)
  then have f: "waits V (f t) = {#}" "calls V (f t) = calls V t"
      "due (ready V (f t)) = due (ready V t) + {#(h, ec). h \<in># waiting hs#}"
    using assms(1) due_closures [of ec hs] by (simp_all add: completes_all_def multiset.map_comp comp_def)
  show "timer_inv V given (f t)"
    using f hs by (intro timer_invI [of _ _ "{#}"]) (simp_all add: multiset.map_comp comp_def add.assoc)
  show "\<exists>W. due (ready V (f t)) = due (ready V t) + {#(h, ec). h \<in># W#} \<and>
      image_mset fst (calls V t) + image_mset fst (due (ready V t)) + W = given"
    using f hs by blast
qed

lemma runs_one_inv:
  assumes "runs_one V f"
  shows "timer_inv V given t \<Longrightarrow> timer_inv V given (f t)"
    and "calls V (f t) + due (ready V (f t)) = calls V t + due (ready V t)"
    and "size (ready V (f t)) = size (ready V t) - 1" and "waits V (f t) = waits V t"
proof -
  show w: "waits V (f t) = waits V t" using assms by (simp add: runs_one_def)
  have "calls V (f t) + due (ready V (f t)) = calls V t + due (ready V t) \<and>
      size (ready V (f t)) = size (ready V t) - 1"
  proof (cases "ready V t = {#}")
    case True
    with assms show ?thesis by (simp add: runs_one_def)
  next
    case False
    with assms obtain w ec where "ready V t = add_mset (w, ec) (ready V (f t))" "calls V (f t) = calls V t + mset (w ec)"
      by (metis runs_one_def)
    then show ?thesis by (simp add: add.assoc)
  qed
  then show *: "calls V (f t) + due (ready V (f t)) = calls V t + due (ready V t)"
    and "size (ready V (f t)) = size (ready V t) - 1" by simp_all
  from * have "image_mset fst (calls V (f t)) + image_mset fst (due (ready V (f t))) =
      image_mset fst (calls V t) + image_mset fst (due (ready V t))" by (metis image_mset_union)
  with w show "timer_inv V given t \<Longrightarrow> timer_inv V given (f t)" by (simp add: timer_inv_def)
qed

lemma timer_wait_inv:
  assumes "timer_contract A expire run_ready V" and "timer_inv V given (timer_impl tm)"
  shows "timer_inv V (given + mset (handlers_given [Tm_async_wait handler])) (timer_impl (async_wait A handler tm))"
proof -
  from assms(2) obtain hs where hs: "waits V (timer_impl tm) = image_mset wait_closure hs"
      "image_mset fst (calls V (timer_impl tm)) + image_mset fst (due (ready V (timer_impl tm))) + waiting hs = given"
    by (auto simp: timer_inv_def)
  show ?thesis
    by (rule timer_invI [of _ _ "add_mset handler hs"])
      (use assms(1) hs in \<open>cases handler; auto simp: async_wait_def timer_contract_def\<close>)+
qed

lemma timer_step_inv:
  assumes "timer_contract A expire run_ready V" and "timer_inv V given (timer_impl tm)"
  shows "timer_inv V (given + mset (handlers_given [c])) (timer_impl (timer_step A expire run_ready c tm))"
proof -
  have "timer_inv V given (asio_expires_after A x (timer_impl tm))" "timer_inv V given (asio_expires_at A x (timer_impl tm))"
      "timer_inv V given (asio_cancel A (timer_impl tm))" for x
    by (rule completes_all_inv(1) [where ec = "Some operation_aborted", OF _ assms(2)],
        use assms(1) in \<open>simp add: timer_contract_def\<close>)+
  moreover have "timer_inv V given (expire (timer_impl tm))"
    by (rule completes_all_inv(1) [where ec = None, OF _ assms(2)]) (use assms(1) in \<open>simp add: timer_contract_def\<close>)
  moreover have "timer_inv V given (run_ready (timer_impl tm))"
    by (rule runs_one_inv(1)) (use assms in \<open>simp_all add: timer_contract_def\<close>)
  ultimately show ?thesis using timer_wait_inv [OF assms]
    by (cases c) (simp_all add: expires_after_def expires_at_def cancel_timer_def)
qed
lemma handlers_given_Cons: "handlers_given (c # cs) = handlers_given [c] @ handlers_given cs"
proof (cases c)
  case (Tm_async_wait handler)
  then show ?thesis by (cases handler) simp_all
qed simp_all

lemma timer_fold_inv:
  assumes "timer_contract A expire run_ready V" and "timer_inv V given (timer_impl tm)"
  shows "timer_inv V (given + mset (handlers_given cs)) (timer_impl (fold (timer_step A expire run_ready) cs tm))"
  using assms(2)
proof (induction cs arbitrary: given tm)
  case (Cons c cs)
  from Cons.IH [OF timer_step_inv [OF assms(1) Cons.prems]] show ?case
    by (simp add: handlers_given_Cons [of c cs] add.assoc)
qed simp

text \<open>An executor that goes on running calls everything that is ready.\<close>

lemma run_all_ready:
  assumes "runs_one V f"
  shows "size (ready V t) \<le> n \<Longrightarrow>
    ready V ((f ^^ n) t) = {#} \<and> calls V ((f ^^ n) t) = calls V t + due (ready V t) \<and> waits V ((f ^^ n) t) = waits V t"
proof (induction n arbitrary: t)
  case (Suc n)
  have "size (ready V (f t)) \<le> n" using runs_one_inv(3) [OF assms, of t] Suc.prems by simp
  from Suc.IH [OF this] show ?case
    using runs_one_inv(2,4) [OF assms, of t] by (simp add: funpow_swap1)
qed simp

text \<open>
  C37: every wait on a timer ends in one call. Take any sequence of calls on a new timer, with the timer
  expiring and the executor running handlers at any points between them, and then its destruction. If Asio keeps
  its contract, the destructor leaves no wait outstanding and calls no handler itself: it makes those that
  still waited ready with \<^verbatim>\<open>operation_aborted\<close>. Once the executor has run all that is ready, each non-empty
  handler passed to \<^verbatim>\<open>async_wait\<close> has been called exactly once.
\<close>

theorem timer_handlers_called_once:
  assumes "timer_contract A expire run_ready V" and "waits V t = {#}" and "ready V t = {#}" and "calls V t = {#}"
    and "tm = timer_impl (timer_run A expire run_ready cs t)"
    and "d = timer_impl (destroy_timer A (timer_run A expire run_ready cs t))"
    and "size (ready V d) \<le> n"
  shows "waits V d = {#} \<and> calls V d = calls V tm \<and>
    (\<exists>W. due (ready V d) = due (ready V tm) + {#(h, Some operation_aborted). h \<in># W#} \<and>
       image_mset fst (calls V tm) + image_mset fst (due (ready V tm)) + W = mset (handlers_given cs)) \<and>
    ready V ((run_ready ^^ n) d) = {#} \<and> waits V ((run_ready ^^ n) d) = {#} \<and>
    calls V ((run_ready ^^ n) d) = calls V d + due (ready V d) \<and>
    image_mset fst (calls V ((run_ready ^^ n) d)) = mset (handlers_given cs)"
proof -
  have "timer_inv V {#} (timer_impl (new_timer t))"
    using assms(2-4) by (intro timer_invI [of _ _ "{#}"]) (simp_all add: new_timer_def)
  from timer_fold_inv [OF assms(1) this, of cs] have inv: "timer_inv V (mset (handlers_given cs)) tm"
    by (simp add: assms(5) timer_run_def)
  have cancel: "completes_all V (Some operation_aborted) (asio_cancel A)" and one: "runs_one V run_ready"
    using assms(1) by (simp_all add: timer_contract_def)
  have d: "d = asio_cancel A tm" by (simp add: assms(5,6) destroy_timer_def)
  have w: "waits V d = {#}" "calls V d = calls V tm" using cancel by (simp_all add: d completes_all_def)
  obtain W where W: "due (ready V d) = due (ready V tm) + {#(h, Some operation_aborted). h \<in># W#}"
      "image_mset fst (calls V tm) + image_mset fst (due (ready V tm)) + W = mset (handlers_given cs)"
    using completes_all_inv(2) [OF cancel inv] by (auto simp: d)
  then have "image_mset fst (calls V d + due (ready V d)) = mset (handlers_given cs)"
    by (simp add: w multiset.map_comp comp_def add.assoc)
  with w W run_all_ready [OF one assms(7)] show ?thesis by auto
qed

text \<open>A timer that keeps the contract: waits complete and run in the order in which they were started.\<close>

record 'h plain_timer =
  pt_expiry :: time_point
  pt_waits :: "'h wait list"
  pt_ready :: "('h wait \<times> error_code) list"
  pt_calls :: "('h \<times> error_code) list"

definition complete_waits :: "error_code \<Rightarrow> 'h plain_timer \<Rightarrow> 'h plain_timer" where
  "complete_waits ec t = t\<lparr>pt_waits := [], pt_ready := pt_ready t @ map (\<lambda>f. (f, ec)) (pt_waits t)\<rparr>"

definition run_first :: "'h plain_timer \<Rightarrow> 'h plain_timer" where
  "run_first t = (case pt_ready t of [] \<Rightarrow> t
     | (f, ec) # rs \<Rightarrow> t\<lparr>pt_ready := rs, pt_calls := pt_calls t @ f ec\<rparr>)"

definition plain_timer_ops :: "('h plain_timer, 'h) steady_timer_ops" where
  "plain_timer_ops =
     \<lparr>asio_expires_after = (\<lambda>d t. (complete_waits (Some operation_aborted) t)\<lparr>pt_expiry := d\<rparr>),
      asio_expires_at = (\<lambda>x t. (complete_waits (Some operation_aborted) t)\<lparr>pt_expiry := x\<rparr>),
      asio_expiry = pt_expiry, asio_async_wait = (\<lambda>f t. t\<lparr>pt_waits := pt_waits t @ [f]\<rparr>),
      asio_cancel = complete_waits (Some operation_aborted)\<rparr>"

definition plain_view :: "('h plain_timer, 'h) timer_view" where
  "plain_view = \<lparr>waits = mset \<circ> pt_waits, ready = mset \<circ> pt_ready, calls = mset \<circ> pt_calls\<rparr>"

lemma plain_timer_contract: "timer_contract plain_timer_ops (complete_waits None) run_first plain_view"
proof -
  have "runs_one plain_view (run_first :: 'a plain_timer \<Rightarrow> _)"
    by (auto simp: runs_one_def plain_view_def run_first_def split: list.split)
  then show ?thesis
    by (simp add: timer_contract_def completes_all_def plain_timer_ops_def complete_waits_def plain_view_def)
qed

definition new_plain_timer :: "nat plain_timer" where
  "new_plain_timer = \<lparr>pt_expiry = 0, pt_waits = [], pt_ready = [], pt_calls = []\<rparr>"

definition plain_calls :: "nat timer_call list" where
  "plain_calls = [Tm_async_wait (Some 1), Tm_expire, Tm_async_wait (Some 2), Tm_run, Tm_expires_at 5,
     Tm_async_wait None, Tm_async_wait (Some 3)]"

theorem timer_handlers_called_once_witness:
  "let d = timer_impl (destroy_timer plain_timer_ops (timer_run plain_timer_ops (complete_waits None) run_first plain_calls
       new_plain_timer))
   in pt_calls d = [(1, None)] \<and> image_mset fst (mset (pt_calls ((run_first ^^ 3) d))) = {#1, 2, 3#}"
proof -
  let ?d = "timer_impl (destroy_timer plain_timer_ops (timer_run plain_timer_ops (complete_waits None) run_first plain_calls
       new_plain_timer))"
  note e = plain_view_def new_plain_timer_def plain_calls_def timer_run_def new_timer_def async_wait_def expires_at_def
    destroy_timer_def plain_timer_ops_def complete_waits_def run_first_def wait_closure_def
  have "size (ready plain_view ?d) \<le> 3" by (simp add: e)
  moreover have "waits plain_view new_plain_timer = {#}" "ready plain_view new_plain_timer = {#}"
      "calls plain_view new_plain_timer = {#}" by (simp_all add: plain_view_def new_plain_timer_def)
  ultimately have "image_mset fst (calls plain_view ((run_first ^^ 3) ?d)) = mset (handlers_given plain_calls)"
    using timer_handlers_called_once [OF plain_timer_contract _ _ _ refl refl] by blast
  moreover have "pt_calls ?d = [(1, None)]" by (simp add: e)
  ultimately show ?thesis by (simp add: Let_def plain_view_def) (simp add: plain_calls_def)
qed

end
