(* ===== verification/Tls_Context.thy ===== *)
theory Tls_Context
  imports Prelude
begin

text \<open>
  The TLS context of \<^verbatim>\<open>HttpsClientAsync\<close> and \<^verbatim>\<open>SecureWebSocketClient\<close>: its set-up in the two
  constructors and \<^verbatim>\<open>set_ca_certificate\<close>. The context itself (\<^verbatim>\<open>boost::asio::ssl::context\<close>) is not part
  of the sources; it has the type \<open>'c\<close> and its operations, which return the changed context and an error
  code, are the fields of \<open>ssl_context_ops\<close>, an argument of every definition. The constructors only log an
  error; the lines they write to \<^verbatim>\<open>std::cerr\<close> are a result of the model.
\<close>

section \<open>Model\<close>

record 'c ssl_context_ops =
  ssl_tlsv12_client :: 'c
  ssl_set_default_verify_paths :: "'c \<Rightarrow> 'c \<times> error_code"
  ssl_set_verify_peer :: "'c \<Rightarrow> 'c \<times> error_code"
  ssl_load_verify_file :: "string \<Rightarrow> 'c \<Rightarrow> 'c \<times> error_code"
  ssl_message :: "errc \<Rightarrow> string"

definition log_failure :: "'c ssl_context_ops \<Rightarrow> string \<Rightarrow> error_code \<Rightarrow> string list" where
  "log_failure S what ec =
     (case ec of None \<Rightarrow> [] | Some e \<Rightarrow> [what @ ssl_message S e @ [char_of (10 :: nat)]])"

definition https_ssl_context :: "'c ssl_context_ops \<Rightarrow> 'c \<times> string list" where
  "https_ssl_context S =
     (let (c1, ec1) = ssl_set_default_verify_paths S (ssl_tlsv12_client S);
          (c2, ec2) = ssl_set_verify_peer S c1
      in (c2, log_failure S ''HttpsClientAsync: failed to load default CA paths: '' ec1 @
              log_failure S ''HttpsClientAsync: failed to set verify mode: '' ec2))"

definition ws_ssl_context :: "'c ssl_context_ops \<Rightarrow> 'c \<times> string list" where
  "ws_ssl_context S =
     (let (c1, ec1) = ssl_set_default_verify_paths S (ssl_tlsv12_client S);
          (c2, ec2) = ssl_set_verify_peer S c1
      in (c2, log_failure S ''SecureWebSocketClient: failed to load default CA paths: '' ec1 @
              log_failure S ''SecureWebSocketClient: failed to set verify mode: '' ec2))"

definition https_set_ca_certificate :: "'c ssl_context_ops \<Rightarrow> string \<Rightarrow> 'c \<Rightarrow> 'c \<times> error_code" where
  "https_set_ca_certificate S ca_certificate_file c =
     (if ca_certificate_file = [] then (c, None) else ssl_load_verify_file S ca_certificate_file c)"

definition ws_set_ca_certificate :: "'c ssl_context_ops \<Rightarrow> string \<Rightarrow> 'c \<Rightarrow> 'c \<times> error_code" where
  "ws_set_ca_certificate S ca_certificate_file c =
     (if ca_certificate_file = [] then (c, None) else ssl_load_verify_file S ca_certificate_file c)"

text \<open>Any number of calls, with the codes they return, in order.\<close>

fun set_ca_certificates :: "(string \<Rightarrow> 'c \<Rightarrow> 'c \<times> error_code) \<Rightarrow> string list \<Rightarrow> 'c \<Rightarrow> 'c \<times> error_code list" where
  "set_ca_certificates f [] c = (c, [])"
| "set_ca_certificates f (x # xs) c =
     (let (c1, ec) = f x c; (c2, ecs) = set_ca_certificates f xs c1 in (c2, ec # ecs))"

section \<open>The contract of the TLS library\<close>

text \<open>
  What Asio documents of the three operations, over two observers of a context: whether peers are
  verified, and the list of certificate files that are trusted in addition to the default paths. Setting
  the mode to \<^verbatim>\<open>verify_peer\<close> succeeds; loading a file never changes the mode and, if it fails, trusts
  no further file; the other operations load no file.
\<close>

definition ssl_contract :: "'c ssl_context_ops \<Rightarrow> ('c \<Rightarrow> bool) \<Rightarrow> ('c \<Rightarrow> string list) \<Rightarrow> bool" where
  "ssl_contract S verifies files \<longleftrightarrow>
     files (ssl_tlsv12_client S) = [] \<and>
     (\<forall>c. files (fst (ssl_set_default_verify_paths S c)) = files c) \<and>
     (\<forall>c. verifies (fst (ssl_set_verify_peer S c)) \<and> snd (ssl_set_verify_peer S c) = None \<and>
          files (fst (ssl_set_verify_peer S c)) = files c) \<and>
     (\<forall>f c. verifies (fst (ssl_load_verify_file S f c)) = verifies c \<and>
            files (fst (ssl_load_verify_file S f c)) =
              files c @ (if snd (ssl_load_verify_file S f c) = None then [f] else []))"

text \<open>The files that a sequence of calls loads, given the codes it returned.\<close>

fun loaded :: "string list \<Rightarrow> error_code list \<Rightarrow> string list" where
  "loaded (f # fs) (ec # ecs) = (if f \<noteq> [] \<and> ec = None then [f] else []) @ loaded fs ecs"
| "loaded _ _ = []"

lemma load_law:
  assumes "ssl_contract S verifies files" and "ssl_load_verify_file S f c = (d, ec)"
  shows "verifies d = verifies c \<and> files d = files c @ (if ec = None then [f] else [])"
proof -
  have "verifies (fst (ssl_load_verify_file S f c)) = verifies c \<and>
      files (fst (ssl_load_verify_file S f c)) =
        files c @ (if snd (ssl_load_verify_file S f c) = None then [f] else [])"
    using assms(1) unfolding ssl_contract_def by blast
  then show ?thesis using assms(2) by simp
qed

lemma set_ca_certificates_sound:
  assumes "ssl_contract S verifies files"
    and f: "\<And>x c. f x c = (if x = [] then (c, None) else ssl_load_verify_file S x c)"
  shows "verifies (fst (set_ca_certificates f xs c)) = verifies c \<and>
    files (fst (set_ca_certificates f xs c)) = files c @ loaded xs (snd (set_ca_certificates f xs c))"
proof (induction xs arbitrary: c)
  case (Cons x xs)
  obtain c1 ec where fx: "f x c = (c1, ec)" by fastforce
  have "verifies c1 = verifies c \<and> files c1 = files c @ (if x \<noteq> [] \<and> ec = None then [x] else [])"
    using fx f [of x c] load_law [OF assms(1), of x c c1 ec] by (cases "x = []") simp_all
  then show ?case
    using Cons.IH [of c1] by (simp add: fx split_beta)
qed simp

lemma fresh_context:
  assumes "ssl_contract S verifies files"
    and "c = fst (ssl_set_verify_peer S (fst (ssl_set_default_verify_paths S (ssl_tlsv12_client S))))"
  shows "verifies c \<and> files c = []"
  using assms by (simp add: ssl_contract_def)

lemma https_ssl_context_fst:
  "fst (https_ssl_context S) =
     fst (ssl_set_verify_peer S (fst (ssl_set_default_verify_paths S (ssl_tlsv12_client S))))"
  by (simp add: https_ssl_context_def split_beta)

lemma ws_ssl_context_fst:
  "fst (ws_ssl_context S) =
     fst (ssl_set_verify_peer S (fst (ssl_set_default_verify_paths S (ssl_tlsv12_client S))))"
  by (simp add: ws_ssl_context_def split_beta)

section \<open>Peers are always verified\<close>

text \<open>
  C27: after the construction of either client and any number of calls of \<^verbatim>\<open>set_ca_certificate\<close>, failed
  ones and ones with an empty name included, every TLS stream made from the context verifies its peer,
  and the certificate files trusted besides the default paths are exactly those whose call had a
  name and returned no error, in order.
\<close>

theorem peers_are_verified:
  assumes "ssl_contract S verifies files"
    and "(c, ecs) = set_ca_certificates (https_set_ca_certificate S) fs (fst (https_ssl_context S))"
    and "(w, wcs) = set_ca_certificates (ws_set_ca_certificate S) gs (fst (ws_ssl_context S))"
  shows "verifies c \<and> files c = loaded fs ecs \<and> verifies w \<and> files w = loaded gs wcs"
  using set_ca_certificates_sound [OF assms(1) https_set_ca_certificate_def, of fs "fst (https_ssl_context S)"]
    set_ca_certificates_sound [OF assms(1) ws_set_ca_certificate_def, of gs "fst (ws_ssl_context S)"]
    fresh_context [OF assms(1) https_ssl_context_fst] fresh_context [OF assms(1) ws_ssl_context_fst]
  by (simp flip: assms(2,3))

text \<open>A TLS library that cannot read \<^verbatim>\<open>missing.pem\<close>.\<close>

definition plain_ssl :: "(bool \<times> string list) ssl_context_ops" where
  "plain_ssl = \<lparr>ssl_tlsv12_client = (False, []), ssl_set_default_verify_paths = (\<lambda>c. (c, None)),
     ssl_set_verify_peer = (\<lambda>c. ((True, snd c), None)),
     ssl_load_verify_file = (\<lambda>f c. if f = ''missing.pem'' then (c, Some (Sys_error 2)) else ((fst c, snd c @ [f]), None)),
     ssl_message = (\<lambda>_. ''error'')\<rparr>"

lemma plain_ssl_contract: "ssl_contract plain_ssl fst snd"
  by (simp add: ssl_contract_def plain_ssl_def)

theorem peers_are_verified_witness:
  "fst (fst (set_ca_certificates (https_set_ca_certificate plain_ssl) [''ca.pem'', [], ''missing.pem'']
     (fst (https_ssl_context plain_ssl)))) \<and>
   loaded [''ca.pem'', [], ''missing.pem''] [None, None, Some (Sys_error 2)] = [''ca.pem'']"
  using peers_are_verified [OF plain_ssl_contract, of _ _ "[''ca.pem'', [], ''missing.pem'']" _ _ "[]",
      OF prod.collapse prod.collapse]
  by simp

end
