(* ===== verification/Request_Service.thy ===== *)
theory Request_Service
  imports Prelude "HOL-Library.Multiset"
begin

text \<open>
  The contract that the two HTTPS clients share: each input submits some response handlers, and each
  handler that was submitted is either outstanding or has been answered. What one step promises is the
  assumption of the locale; what follows for every run is proved in it once, and each client
  interprets the locale with its own step function.
\<close>

locale request_service =
  fixes step :: "'s \<Rightarrow> 'i \<Rightarrow> 's"
    and inv :: "'s \<Rightarrow> bool"
    and answered :: "'s \<Rightarrow> 'h multiset"
    and outstanding :: "'s \<Rightarrow> 'h multiset"
    and submitted :: "'i \<Rightarrow> 'h multiset"
  assumes step_inv: "inv s \<Longrightarrow> inv (step s i)"
    and step_balance: "inv s \<Longrightarrow>
      answered (step s i) + outstanding (step s i) = answered s + outstanding s + submitted i"
begin

lemma run_inv: "inv s \<Longrightarrow> inv (foldl step s is)"
  by (induction "is" arbitrary: s) (simp_all add: step_inv)

lemma run_balance:
  "inv s \<Longrightarrow> answered (foldl step s is) + outstanding (foldl step s is) =
     answered s + outstanding s + sum_list (map submitted is)"
proof (induction "is" arbitrary: s)
  case (Cons i "is")
  then show ?case using step_balance [of s i] by (simp add: step_inv ac_simps)
qed simp

text \<open>From a state in which nothing is outstanding or answered, no handler is answered more often than it
  was submitted, and when nothing is outstanding any more, each has been answered exactly as often.\<close>

lemma answered_at_most_once:
  assumes "inv s" and "answered s = {#}" and "outstanding s = {#}"
  shows "answered (foldl step s is) \<subseteq># sum_list (map submitted is)"
  using run_balance [OF assms(1), of "is"] assms(2,3) by (metis add_0 mset_subset_eq_add_left)

lemma answered_exactly_once:
  assumes "inv s" and "answered s = {#}" and "outstanding s = {#}" and "outstanding (foldl step s is) = {#}"
  shows "answered (foldl step s is) = sum_list (map submitted is)"
  using run_balance [OF assms(1), of "is"] assms(2-4) by simp

end

end
