(* ===== verification/Https_Client_Async.thy ===== *)
theory Https_Client_Async
  imports Prelude "HOL-Library.Multiset"
begin

text \<open>
  \<^verbatim>\<open>cpp_components/https_client_async/https_client_async.{h,cpp}\<close>: one HTTPS request at a time over a
  fresh TLS connection. The record \<open>https_client\<close> has the data members of \<^verbatim>\<open>HttpsClientAsync\<close>;
  streams are numbered in the order they are created, so \<^verbatim>\<open>std::unique_ptr<SslStream>\<close> is a
  \<open>nat option\<close>. Two fields stand for the surroundings: \<open>hc_pending\<close> holds the asynchronous
  operations that were started and whose completion handler has not run yet, and \<open>hc_trace\<close> lists
  every call the client makes on Asio, Beast and OpenSSL and every call of a response handler.

  The public operations (\<^verbatim>\<open>request\<close>, \<^verbatim>\<open>get\<close>, \<^verbatim>\<open>post\<close>, \<^verbatim>\<open>cancel\<close>) only post a closure to the executor;
  an input of the client (\<open>https_input\<close>) is one such closure being run, or the completion of one
  pending operation with any outcome. Completions may arrive in any order and arbitrarily late. A
  response handler can act on the client only by posting, so whatever it does is a later input.
\<close>

section \<open>Data\<close>

datatype http_method =
    Method_get
  | Method_head
  | Method_post
  | Method_put
  | Method_del
  | Method_patch
  | Method_other int

text \<open>
  \<open>Method_other\<close> is a value outside the enumerators, which \<^verbatim>\<open>static_cast<HttpMethod>\<close> can produce.
\<close>

datatype verb = Verb_get | Verb_head | Verb_post | Verb_put | Verb_delete | Verb_patch

record http_header =
  hdr_name :: string
  hdr_value :: string

record http_response =
  status_code :: nat
  resp_body :: string
  headers :: "http_header list"

definition empty_response :: http_response where
  "empty_response = \<lparr>status_code = 0, resp_body = [], headers = []\<rparr>"

text \<open>Beast's request message; its fields are an association list in insertion order.\<close>

record http_request =
  version :: nat
  req_method :: verb
  target :: string
  req_fields :: "(string \<times> string) list"
  req_body :: string

definition empty_request :: http_request where
  "empty_request = \<lparr>version = 11, req_method = Verb_get, target = [], req_fields = [], req_body = []\<rparr>"

text \<open>Beast's response message, as a read delivers it.\<close>

record http_message =
  result_int :: nat
  msg_body :: string
  msg_fields :: "(string \<times> string) list"

definition empty_message :: http_message where
  "empty_message = \<lparr>result_int = 200, msg_body = [], msg_fields = []\<rparr>"

text \<open>
  What the client calls on a Beast message and cannot be read here: \<^verbatim>\<open>fields::set\<close> and
  \<^verbatim>\<open>prepare_payload\<close>.
\<close>

record beast =
  set_field :: "(string \<times> string) list \<Rightarrow> string \<Rightarrow> string \<Rightarrow> (string \<times> string) list"
  prepare_payload :: "http_request \<Rightarrow> http_request"

datatype request_state = idle | in_progress | cancelling

datatype https_op = Op_resolve | Op_connect | Op_handshake | Op_write | Op_read

datatype 'h https_event =
    Ev_resolve string string
  | Ev_connect nat
  | Ev_tls_host nat string bool
  | Ev_verify_host nat string error_code
  | Ev_handshake nat
  | Ev_write nat http_request
  | Ev_read nat
  | Ev_expires_after nat int
  | Ev_expires_never nat
  | Ev_cancel_resolver
  | Ev_cancel nat
  | Ev_close nat
  | Ev_response 'h error_code http_response

record 'h https_client =
  hc_stream :: "nat option"
  hc_read_buffer :: string
  hc_request :: http_request
  hc_response :: http_message
  hc_handler :: "'h option"
  hc_host :: string
  hc_timeout :: int
  hc_state :: request_state
  hc_generation :: u64
  hc_streams_made :: nat
  hc_pending :: "(https_op \<times> u64) list"
  hc_trace :: "'h https_event list"

definition new_https_client :: "'h https_client" where
  "new_https_client =
     \<lparr>hc_stream = None, hc_read_buffer = [], hc_request = empty_request,
      hc_response = empty_message, hc_handler = None, hc_host = [], hc_timeout = 0,
      hc_state = idle, hc_generation = 0, hc_streams_made = 0, hc_pending = [], hc_trace = []\<rparr>"

definition emit :: "'h https_event \<Rightarrow> 'h https_client \<Rightarrow> 'h https_client" where
  "emit ev s = s\<lparr>hc_trace := hc_trace s @ [ev]\<rparr>"

definition start_op :: "https_op \<Rightarrow> u64 \<Rightarrow> 'h https_client \<Rightarrow> 'h https_client" where
  "start_op p generation s = s\<lparr>hc_pending := hc_pending s @ [(p, generation)]\<rparr>"

text \<open>Calling a \<^verbatim>\<open>std::function\<close> that may be empty.\<close>

definition call_handler :: "'h option \<Rightarrow> error_code \<Rightarrow> http_response \<Rightarrow> 'h https_client \<Rightarrow> 'h https_client" where
  "call_handler handler ec response s =
     (case handler of None \<Rightarrow> s | Some h \<Rightarrow> emit (Ev_response h ec response) s)"

section \<open>Helpers of the class\<close>

definition is_busy :: "'h https_client \<Rightarrow> bool" where
  "is_busy s \<longleftrightarrow> hc_state s \<noteq> idle"

definition set_state :: "request_state \<Rightarrow> 'h https_client \<Rightarrow> 'h https_client" where
  "set_state st s = s\<lparr>hc_state := st\<rparr>"

definition is_current_request :: "u64 \<Rightarrow> 'h https_client \<Rightarrow> bool" where
  "is_current_request generation s \<longleftrightarrow> hc_state s = in_progress \<and> generation = hc_generation s"

definition destroy_stream :: "'h https_client \<Rightarrow> 'h https_client" where
  "destroy_stream s = s\<lparr>hc_stream := None\<rparr>"

definition create_stream :: "'h https_client \<Rightarrow> 'h https_client" where
  "create_stream s =
     (destroy_stream s)\<lparr>hc_read_buffer := [], hc_stream := Some (hc_streams_made s),
        hc_streams_made := Suc (hc_streams_made s)\<rparr>"

definition cancel_pending_operations :: "'h https_client \<Rightarrow> 'h https_client" where
  "cancel_pending_operations s =
     (let s1 = emit Ev_cancel_resolver s
      in case hc_stream s1 of None \<Rightarrow> s1 | Some sid \<Rightarrow> emit (Ev_cancel sid) s1)"

definition close_socket :: "'h https_client \<Rightarrow> 'h https_client" where
  "close_socket s = (case hc_stream s of None \<Rightarrow> s | Some sid \<Rightarrow> emit (Ev_close sid) s)"

definition complete_request :: "error_code \<Rightarrow> http_response \<Rightarrow> 'h https_client \<Rightarrow> 'h https_client" where
  "complete_request ec response s =
     (let handler = hc_handler s;
          s1 = s\<lparr>hc_handler := None, hc_host := [], hc_timeout := 0, hc_request := empty_request,
                 hc_response := empty_message\<rparr>
      in call_handler handler ec response (set_state idle s1))"

definition fail_request :: "error_code \<Rightarrow> 'h https_client \<Rightarrow> 'h https_client" where
  "fail_request ec s =
     complete_request ec empty_response
       (destroy_stream (close_socket (cancel_pending_operations s)))"

definition apply_timeout :: "'h https_client \<Rightarrow> 'h https_client" where
  "apply_timeout s =
     (case hc_stream s of
        None \<Rightarrow> s
      | Some sid \<Rightarrow> if hc_timeout s \<le> 0 then s else emit (Ev_expires_after sid (hc_timeout s)) s)"

fun to_beast_verb :: "http_method \<Rightarrow> verb" where
  "to_beast_verb Method_get = Verb_get"
| "to_beast_verb Method_head = Verb_head"
| "to_beast_verb Method_post = Verb_post"
| "to_beast_verb Method_put = Verb_put"
| "to_beast_verb Method_del = Verb_delete"
| "to_beast_verb Method_patch = Verb_patch"
| "to_beast_verb (Method_other _) = Verb_get"

section \<open>Requests\<close>

record 'h request_args =
  arg_method :: http_method
  arg_host :: string
  arg_port :: string
  arg_target :: string
  arg_body :: string
  arg_headers :: "http_header list"
  arg_timeout :: int
  arg_handler :: "'h option"

text \<open>\<^verbatim>\<open>get\<close> and \<^verbatim>\<open>post\<close> forward to \<^verbatim>\<open>request\<close>, which posts \<^verbatim>\<open>do_request\<close> with these arguments.\<close>

definition get_args :: "string \<Rightarrow> string \<Rightarrow> string \<Rightarrow> int \<Rightarrow> 'h option \<Rightarrow> 'h request_args" where
  "get_args host port tgt timeout handler =
     \<lparr>arg_method = Method_get, arg_host = host, arg_port = port, arg_target = tgt, arg_body = [],
      arg_headers = [], arg_timeout = timeout, arg_handler = handler\<rparr>"

definition post_args :: "string \<Rightarrow> string \<Rightarrow> string \<Rightarrow> string \<Rightarrow> int \<Rightarrow> 'h option \<Rightarrow> 'h request_args" where
  "post_args host port tgt body timeout handler =
     \<lparr>arg_method = Method_post, arg_host = host, arg_port = port, arg_target = tgt, arg_body = body,
      arg_headers = [], arg_timeout = timeout, arg_handler = handler\<rparr>"

definition build_request :: "beast \<Rightarrow> 'h request_args \<Rightarrow> http_request" where
  "build_request B a =
     (let fs0 = set_field B [] ''Host'' (arg_host a);
          fs1 = set_field B fs0 ''User-Agent'' ''https-client'';
          fs2 = foldl (\<lambda>fs h. set_field B fs (hdr_name h) (hdr_value h)) fs1 (arg_headers a)
      in prepare_payload B
           (empty_request\<lparr>version := 11, req_method := to_beast_verb (arg_method a),
              target := arg_target a, req_fields := fs2, req_body := arg_body a\<rparr>))"

definition do_request :: "beast \<Rightarrow> 'h request_args \<Rightarrow> 'h https_client \<Rightarrow> 'h https_client" where
  "do_request B a s =
     (if hc_state s \<noteq> idle
      then call_handler (arg_handler a) (Some operation_in_progress) empty_response s
      else
        let s1 = set_state in_progress s;
            generation = hc_generation s1 + 1;
            s2 = s1\<lparr>hc_generation := generation, hc_host := arg_host a,
                    hc_timeout := arg_timeout a, hc_handler := arg_handler a,
                    hc_request := build_request B a, hc_response := empty_message\<rparr>;
            s3 = create_stream s2
        in start_op Op_resolve generation (emit (Ev_resolve (hc_host s3) (arg_port a)) s3))"

definition do_cancel :: "'h https_client \<Rightarrow> 'h https_client" where
  "do_cancel s =
     (if hc_state s = idle \<or> hc_state s = cancelling then s
      else
        let s1 = set_state cancelling s;
            s2 = s1\<lparr>hc_generation := hc_generation s1 + 1\<rparr>
        in complete_request (Some operation_canceled) empty_response
             (destroy_stream (close_socket (cancel_pending_operations s2))))"

text \<open>The destructor.\<close>

definition destroy_https_client :: "'h https_client \<Rightarrow> 'h https_client" where
  "destroy_https_client s = do_cancel s"

section \<open>Completion handlers\<close>

text \<open>
  What a completion brings: the error code, what OpenSSL answers while the connection is being set
  up, and the message that a successful read stores into \<^verbatim>\<open>http_response\<close>.
\<close>

record completion =
  comp_ec :: error_code
  comp_tls_host_ok :: bool
  comp_ssl_error :: int
  comp_verify_ec :: error_code
  comp_message :: http_message

definition handle_resolve :: "u64 \<Rightarrow> completion \<Rightarrow> 'h https_client \<Rightarrow> 'h https_client" where
  "handle_resolve generation c s =
     (case hc_stream s of None \<Rightarrow> s | Some sid \<Rightarrow>
        if \<not> is_current_request generation s then s
        else if comp_ec c \<noteq> None then fail_request (comp_ec c) s
        else start_op Op_connect generation (emit (Ev_connect sid) (apply_timeout s)))"

definition handle_connect :: "u64 \<Rightarrow> completion \<Rightarrow> 'h https_client \<Rightarrow> 'h https_client" where
  "handle_connect generation c s =
     (case hc_stream s of None \<Rightarrow> s | Some sid \<Rightarrow>
        if \<not> is_current_request generation s then s
        else if comp_ec c \<noteq> None then fail_request (comp_ec c) s
        else
          let s1 = emit (Ev_tls_host sid (hc_host s) (comp_tls_host_ok c)) (apply_timeout s) in
          if \<not> comp_tls_host_ok c then fail_request (make_code (comp_ssl_error c)) s1
          else
            let s2 = emit (Ev_verify_host sid (hc_host s1) (comp_verify_ec c)) s1 in
            if comp_verify_ec c \<noteq> None then fail_request (comp_verify_ec c) s2
            else start_op Op_handshake generation (emit (Ev_handshake sid) s2))"

definition handle_ssl_handshake :: "u64 \<Rightarrow> completion \<Rightarrow> 'h https_client \<Rightarrow> 'h https_client" where
  "handle_ssl_handshake generation c s =
     (case hc_stream s of None \<Rightarrow> s | Some sid \<Rightarrow>
        if \<not> is_current_request generation s then s
        else if comp_ec c \<noteq> None then fail_request (comp_ec c) s
        else start_op Op_write generation (emit (Ev_write sid (hc_request s)) (apply_timeout s)))"

definition handle_write :: "u64 \<Rightarrow> completion \<Rightarrow> 'h https_client \<Rightarrow> 'h https_client" where
  "handle_write generation c s =
     (case hc_stream s of None \<Rightarrow> s | Some sid \<Rightarrow>
        if \<not> is_current_request generation s then s
        else if comp_ec c \<noteq> None then fail_request (comp_ec c) s
        else start_op Op_read generation (emit (Ev_read sid) (apply_timeout s)))"

definition to_response :: "http_message \<Rightarrow> http_response" where
  "to_response m =
     \<lparr>status_code = result_int m, resp_body = msg_body m,
      headers = map (\<lambda>(n, v). \<lparr>hdr_name = n, hdr_value = v\<rparr>) (msg_fields m)\<rparr>"

text \<open>
  The read operation has stored the message into \<^verbatim>\<open>http_response\<close> when its handler runs; a stale
  read refers to a stream that has been destroyed and stores nothing the client looks at.
\<close>

definition handle_read :: "u64 \<Rightarrow> completion \<Rightarrow> 'h https_client \<Rightarrow> 'h https_client" where
  "handle_read generation c s =
     (case hc_stream s of None \<Rightarrow> s | Some sid \<Rightarrow>
        if \<not> is_current_request generation s then s
        else
          let s1 = s\<lparr>hc_response := comp_message c\<rparr> in
          if comp_ec c \<noteq> None then fail_request (comp_ec c) s1
          else
            let response = to_response (hc_response s1);
                s2 = emit (Ev_expires_never sid) s1
            in complete_request None response (destroy_stream (close_socket s2)))"

fun complete_op :: "https_op \<Rightarrow> u64 \<Rightarrow> completion \<Rightarrow> 'h https_client \<Rightarrow> 'h https_client" where
  "complete_op Op_resolve = handle_resolve"
| "complete_op Op_connect = handle_connect"
| "complete_op Op_handshake = handle_ssl_handshake"
| "complete_op Op_write = handle_write"
| "complete_op Op_read = handle_read"

section \<open>Running the client\<close>

datatype 'h https_input =
    In_request "'h request_args"
  | In_cancel
  | In_complete nat completion

text \<open>\<open>In_complete i c\<close> completes the \<open>i\<close>-th pending operation; there is nothing to do if there is none.\<close>

fun https_step :: "beast \<Rightarrow> 'h https_client \<Rightarrow> 'h https_input \<Rightarrow> 'h https_client" where
  "https_step B s (In_request a) = do_request B a s"
| "https_step B s In_cancel = do_cancel s"
| "https_step B s (In_complete i c) =
     (if i < length (hc_pending s) then
        (case hc_pending s ! i of (p, generation) \<Rightarrow>
           complete_op p generation c
             (s\<lparr>hc_pending := take i (hc_pending s) @ drop (Suc i) (hc_pending s)\<rparr>))
      else s)"

fun https_run :: "beast \<Rightarrow> 'h https_client \<Rightarrow> 'h https_input list \<Rightarrow> 'h https_client" where
  "https_run B s [] = s"
| "https_run B s (i # is) = https_run B (https_step B s i) is"

lemmas https_defs = emit_def start_op_def call_handler_def set_state_def is_current_request_def
  destroy_stream_def create_stream_def cancel_pending_operations_def close_socket_def
  complete_request_def fail_request_def apply_timeout_def do_request_def do_cancel_def
  handle_resolve_def handle_connect_def handle_ssl_handshake_def handle_write_def handle_read_def
  Let_def

end
