(* ===== verification/Https_Properties.thy ===== *)
theory Https_Properties
  imports Https_Client_Async Request_Service
begin

text \<open>
  Properties of \<^verbatim>\<open>HttpsClientAsync\<close> for every order of completions: what each helper changes, the invariant
  between two inputs, the generations that tell the operations of the current request from those left
  over, and the order of the security-relevant calls on a stream.
\<close>

section \<open>What the helpers change\<close>

lemma emit_simps [simp]:
  "hc_stream (emit ev s) = hc_stream s" "hc_handler (emit ev s) = hc_handler s"
  "hc_host (emit ev s) = hc_host s" "hc_timeout (emit ev s) = hc_timeout s"
  "hc_request (emit ev s) = hc_request s" "hc_response (emit ev s) = hc_response s"
  "hc_state (emit ev s) = hc_state s" "hc_generation (emit ev s) = hc_generation s"
  "hc_streams_made (emit ev s) = hc_streams_made s" "hc_pending (emit ev s) = hc_pending s"
  "hc_read_buffer (emit ev s) = hc_read_buffer s" "hc_trace (emit ev s) = hc_trace s @ [ev]"
  by (simp_all add: emit_def)

lemma call_handler_simps [simp]:
  "hc_stream (call_handler h ec r s) = hc_stream s" "hc_handler (call_handler h ec r s) = hc_handler s"
  "hc_state (call_handler h ec r s) = hc_state s" "hc_generation (call_handler h ec r s) = hc_generation s"
  "hc_streams_made (call_handler h ec r s) = hc_streams_made s"
  "hc_pending (call_handler h ec r s) = hc_pending s" "hc_host (call_handler h ec r s) = hc_host s"
  "hc_request (call_handler h ec r s) = hc_request s"
  "hc_trace (call_handler h ec r s) =
     hc_trace s @ (case h of None \<Rightarrow> [] | Some x \<Rightarrow> [Ev_response x ec r])"
  by (simp_all add: call_handler_def split: option.split)

text \<open>The events that are not calls of a response handler.\<close>

fun responses :: "'h https_event list \<Rightarrow> ('h \<times> error_code \<times> http_response) list" where
  "responses [] = []"
| "responses (Ev_response h ec r # es) = (h, ec, r) # responses es"
| "responses (e # es) = responses es"

lemma responses_append [simp]: "responses (xs @ ys) = responses xs @ responses ys"
  by (induction xs rule: responses.induct) simp_all

lemma teardown_simps [simp]:
  fixes s :: "'h https_client"
  defines "t \<equiv> destroy_stream (close_socket (cancel_pending_operations s))"
  shows "hc_stream t = None" and "hc_handler t = hc_handler s" and "hc_state t = hc_state s"
    and "hc_generation t = hc_generation s" and "hc_streams_made t = hc_streams_made s"
    and "hc_pending t = hc_pending s" and "responses (hc_trace t) = responses (hc_trace s)"
  by (simp_all add: t_def destroy_stream_def close_socket_def cancel_pending_operations_def Let_def
      split: option.split)

lemma complete_request_simps [simp]:
  "hc_stream (complete_request ec r s) = hc_stream s"
  "hc_handler (complete_request ec r s) = None"
  "hc_state (complete_request ec r s) = idle"
  "hc_generation (complete_request ec r s) = hc_generation s"
  "hc_streams_made (complete_request ec r s) = hc_streams_made s"
  "hc_pending (complete_request ec r s) = hc_pending s"
  "hc_trace (complete_request ec r s) =
     hc_trace s @ (case hc_handler s of None \<Rightarrow> [] | Some h \<Rightarrow> [Ev_response h ec r])"
  by (simp_all add: complete_request_def set_state_def Let_def)

lemma fail_request_simps [simp]:
  "hc_stream (fail_request ec s) = None"
  "hc_handler (fail_request ec s) = None"
  "hc_state (fail_request ec s) = idle"
  "hc_generation (fail_request ec s) = hc_generation s"
  "hc_streams_made (fail_request ec s) = hc_streams_made s"
  "hc_pending (fail_request ec s) = hc_pending s"
  "responses (hc_trace (fail_request ec s)) =
     responses (hc_trace s) @
     (case hc_handler s of None \<Rightarrow> [] | Some h \<Rightarrow> [(h, ec, empty_response)])"
  by (simp_all add: fail_request_def split: option.split)

lemma apply_timeout_simps [simp]:
  "hc_stream (apply_timeout s) = hc_stream s" "hc_handler (apply_timeout s) = hc_handler s"
  "hc_state (apply_timeout s) = hc_state s" "hc_generation (apply_timeout s) = hc_generation s"
  "hc_streams_made (apply_timeout s) = hc_streams_made s"
  "hc_pending (apply_timeout s) = hc_pending s" "hc_host (apply_timeout s) = hc_host s"
  "hc_request (apply_timeout s) = hc_request s"
  "responses (hc_trace (apply_timeout s)) = responses (hc_trace s)"
  by (simp_all add: apply_timeout_def split: option.split)

lemma start_op_simps [simp]:
  "hc_stream (start_op p g s) = hc_stream s" "hc_handler (start_op p g s) = hc_handler s"
  "hc_state (start_op p g s) = hc_state s" "hc_generation (start_op p g s) = hc_generation s"
  "hc_streams_made (start_op p g s) = hc_streams_made s" "hc_host (start_op p g s) = hc_host s"
  "hc_request (start_op p g s) = hc_request s"
  "hc_pending (start_op p g s) = hc_pending s @ [(p, g)]" "hc_trace (start_op p g s) = hc_trace s"
  by (simp_all add: start_op_def)

section \<open>What a completion does\<close>

fun next_op :: "https_op \<Rightarrow> https_op option" where
  "next_op Op_resolve = Some Op_connect"
| "next_op Op_connect = Some Op_handshake"
| "next_op Op_handshake = Some Op_write"
| "next_op Op_write = Some Op_read"
| "next_op Op_read = None"

definition current :: "u64 \<Rightarrow> 'h https_client \<Rightarrow> bool" where
  "current g s \<longleftrightarrow> is_current_request g s \<and> hc_stream s \<noteq> None"

text \<open>The request goes on with its next operation, or it ends and its handler is called.\<close>

definition advances :: "https_op \<Rightarrow> u64 \<Rightarrow> 'h https_client \<Rightarrow> 'h https_client \<Rightarrow> bool" where
  "advances p g s s' \<longleftrightarrow>
     (\<exists>q. next_op p = Some q \<and> hc_pending s' = hc_pending s @ [(q, g)]) \<and>
     hc_state s' = in_progress \<and> hc_handler s' = hc_handler s \<and> hc_generation s' = hc_generation s \<and>
     hc_stream s' = hc_stream s \<and> hc_streams_made s' = hc_streams_made s \<and>
     hc_host s' = hc_host s \<and> hc_request s' = hc_request s \<and>
     responses (hc_trace s') = responses (hc_trace s)"

definition ends :: "'h https_client \<Rightarrow> 'h https_client \<Rightarrow> bool" where
  "ends s s' \<longleftrightarrow>
     hc_state s' = idle \<and> hc_handler s' = None \<and> hc_stream s' = None \<and>
     hc_pending s' = hc_pending s \<and> hc_generation s' = hc_generation s \<and>
     hc_streams_made s' = hc_streams_made s \<and>
     (\<exists>ec r. (ec = None \<or> r = empty_response) \<and> responses (hc_trace s') = responses (hc_trace s) @
        (case hc_handler s of None \<Rightarrow> [] | Some h \<Rightarrow> [(h, ec, r)]))"

lemma complete_op_stale: "\<not> current g s \<Longrightarrow> complete_op p g c s = s"
  by (cases p)
    (auto simp: current_def handle_resolve_def handle_connect_def handle_ssl_handshake_def
      handle_write_def handle_read_def split: option.split)

lemma ends_fail_request: "ends s (fail_request ec s)"
  by (auto simp: ends_def split: option.split)

lemma ends_emit: "ends (emit ev s) s' \<Longrightarrow> responses [ev] = [] \<Longrightarrow> ends s s'"
  by (simp add: ends_def)

lemma ends_apply_timeout: "ends (apply_timeout s) s' \<Longrightarrow> ends s s'"
  by (simp add: ends_def)

lemma ends_complete_request:
  "ends s (complete_request None r (destroy_stream (close_socket (emit (Ev_expires_never sid)
     (s\<lparr>hc_response := m\<rparr>)))))"
  by (auto simp: ends_def destroy_stream_def close_socket_def split: option.split)

lemma complete_op_current:
  assumes "current g s"
  shows "advances p g s (complete_op p g c s) \<or> ends s (complete_op p g c s)"
proof -
  obtain sid where sid: "hc_stream s = Some sid" and cur: "is_current_request g s"
    using assms by (auto simp: current_def)
  then have st: "hc_state s = in_progress" by (simp add: is_current_request_def)
  have fr: "ends s (fail_request ec s)" for ec by (rule ends_fail_request)
  show ?thesis
  proof (cases p)
    case Op_resolve
    then show ?thesis
      using sid cur st fr by (simp add: handle_resolve_def advances_def)
  next
    case Op_connect
    have "ends s (fail_request ec (emit (Ev_tls_host sid h b) (apply_timeout s)))" for ec h b
      by (rule ends_apply_timeout, rule ends_emit [OF ends_fail_request]) simp
    moreover have "ends s (fail_request ec (emit (Ev_verify_host sid h vc) (emit (Ev_tls_host sid h b)
        (apply_timeout s))))" for ec h b vc
      by (rule ends_apply_timeout, rule ends_emit, rule ends_emit [OF ends_fail_request]) simp_all
    ultimately show ?thesis
      using Op_connect sid cur st fr by (simp add: handle_connect_def advances_def Let_def)
  next
    case Op_handshake
    then show ?thesis
      using sid cur st fr by (simp add: handle_ssl_handshake_def advances_def)
  next
    case Op_write
    then show ?thesis
      using sid cur st fr by (simp add: handle_write_def advances_def)
  next
    case Op_read
    have "ends s (fail_request ec (s\<lparr>hc_response := m\<rparr>))" for ec m
      using ends_fail_request [of "s\<lparr>hc_response := m\<rparr>" ec] by (simp add: ends_def)
    then show ?thesis
      using Op_read sid cur st by (simp add: handle_read_def Let_def ends_complete_request)
  qed
qed

section \<open>Invariants\<close>

text \<open>Between two inputs the client is idle, with nothing left of the last request, or busy with a stream.\<close>

definition https_inv :: "'h https_client \<Rightarrow> bool" where
  "https_inv s \<longleftrightarrow>
     (hc_state s = idle \<and> hc_handler s = None \<and> hc_stream s = None) \<or>
     (hc_state s = in_progress \<and> hc_stream s \<noteq> None)"

definition remove_op :: "nat \<Rightarrow> 'h https_client \<Rightarrow> 'h https_client" where
  "remove_op i s = s\<lparr>hc_pending := take i (hc_pending s) @ drop (Suc i) (hc_pending s)\<rparr>"

lemma remove_op_simps [simp]:
  "hc_stream (remove_op i s) = hc_stream s" "hc_handler (remove_op i s) = hc_handler s"
  "hc_state (remove_op i s) = hc_state s" "hc_generation (remove_op i s) = hc_generation s"
  "hc_streams_made (remove_op i s) = hc_streams_made s" "hc_trace (remove_op i s) = hc_trace s"
  "hc_host (remove_op i s) = hc_host s" "hc_request (remove_op i s) = hc_request s"
  "hc_pending (remove_op i s) = take i (hc_pending s) @ drop (Suc i) (hc_pending s)"
  by (simp_all add: remove_op_def)

lemma current_remove_op [simp]: "current g (remove_op i s) = current g s"
  by (simp add: current_def is_current_request_def)

lemma https_step_complete:
  "i < length (hc_pending s) \<Longrightarrow> hc_pending s ! i = (p, g) \<Longrightarrow>
     https_step B s (In_complete i c) = complete_op p g c (remove_op i s)"
  by (simp add: remove_op_def)

text \<open>Every input is a request, a cancellation, a completion of the current request, or without effect.\<close>

lemma do_request_idle:
  fixes s :: "'h https_client" and B :: beast and a :: "'h request_args"
  assumes "hc_state s = idle"
  defines "s' \<equiv> do_request B a s"
  shows "hc_state s' = in_progress" and "hc_handler s' = arg_handler a"
    and "hc_stream s' = Some (hc_streams_made s)" and "hc_streams_made s' = Suc (hc_streams_made s)"
    and "hc_generation s' = hc_generation s + 1" and "hc_host s' = arg_host a"
    and "hc_request s' = build_request B a"
    and "hc_pending s' = hc_pending s @ [(Op_resolve, hc_generation s + 1)]"
    and "hc_trace s' = hc_trace s @ [Ev_resolve (arg_host a) (arg_port a)]"
  using assms(1) by (simp_all add: s'_def do_request_def Let_def set_state_def create_stream_def
      destroy_stream_def)

lemma do_request_busy:
  "hc_state s \<noteq> idle \<Longrightarrow>
     do_request B a s = call_handler (arg_handler a) (Some operation_in_progress) empty_response s"
  by (simp add: do_request_def)

lemma do_cancel_busy:
  fixes s :: "'h https_client"
  assumes "hc_state s = in_progress"
  defines "s' \<equiv> do_cancel s"
  shows "hc_state s' = idle" and "hc_handler s' = None" and "hc_stream s' = None"
    and "hc_streams_made s' = hc_streams_made s" and "hc_generation s' = hc_generation s + 1"
    and "hc_pending s' = hc_pending s"
    and "responses (hc_trace s') = responses (hc_trace s) @
      (case hc_handler s of None \<Rightarrow> [] | Some h \<Rightarrow> [(h, Some operation_canceled, empty_response)])"
  using assms(1)
  by (simp_all add: s'_def do_cancel_def Let_def set_state_def split: option.split)

lemma do_cancel_idle: "hc_state s = idle \<Longrightarrow> do_cancel s = s"
  by (simp add: do_cancel_def)

lemma https_step_cases [consumes 1, case_names request_idle request_busy cancel_idle cancel_busy
    none stale advance finish]:
  assumes "https_inv s"
  obtains
    (request_idle) a where "i = In_request a" "hc_state s = idle" "hc_handler s = None"
      "https_step B s i = do_request B a s"
  | (request_busy) a where "i = In_request a" "hc_state s = in_progress"
      "https_step B s i = call_handler (arg_handler a) (Some operation_in_progress) empty_response s"
  | (cancel_idle) "i = In_cancel" "https_step B s i = s"
  | (cancel_busy) "i = In_cancel" "hc_state s = in_progress" "https_step B s i = do_cancel s"
  | (none) j c where "i = In_complete j c" "https_step B s i = s"
  | (stale) j c p g where "i = In_complete j c" "j < length (hc_pending s)"
      "hc_pending s ! j = (p, g)" "\<not> current g s" "https_step B s i = remove_op j s"
  | (advance) j c p g where "i = In_complete j c" "j < length (hc_pending s)"
      "hc_pending s ! j = (p, g)" "current g s" "https_step B s i = complete_op p g c (remove_op j s)"
      "advances p g (remove_op j s) (https_step B s i)"
  | (finish) j c p g where "i = In_complete j c" "j < length (hc_pending s)"
      "hc_pending s ! j = (p, g)" "current g s" "ends (remove_op j s) (https_step B s i)"
proof (cases i)
  case (In_request a)
  with assms show thesis
    by (cases "hc_state s") (auto simp: https_inv_def do_request_busy intro: request_idle request_busy)
next
  case In_cancel
  with assms show thesis
    by (cases "hc_state s") (auto simp: https_inv_def do_cancel_idle intro: cancel_idle cancel_busy)
next
  case (In_complete j c)
  show thesis
  proof (cases "j < length (hc_pending s)")
    case False
    with In_complete show thesis by (intro none) simp_all
  next
    case True
    obtain p g where pg: "hc_pending s ! j = (p, g)" by (cases "hc_pending s ! j")
    note st = https_step_complete [OF True pg, of B c]
    show thesis
    proof (cases "current g s")
      case False
      with In_complete True pg st show thesis
        by (intro stale) (simp_all add: complete_op_stale)
    next
      case cur: True
      then show thesis
        using complete_op_current [of g "remove_op j s" p c] In_complete True pg st
          advance [of j c p g] finish [of j c p g] by auto
    qed
  qed
qed

lemma https_inv_new: "https_inv new_https_client"
  by (simp add: https_inv_def new_https_client_def)

lemma https_inv_step:
  assumes "https_inv s"
  shows "https_inv (https_step B s i)"
  using assms
proof (cases rule: https_step_cases [where i = i and B = B])
  case (request_idle a)
  then show ?thesis by (simp add: https_inv_def do_request_idle)
next
  case (request_busy a)
  with assms show ?thesis by (simp add: https_inv_def)
next
  case cancel_busy
  then show ?thesis by (simp add: https_inv_def do_cancel_busy)
next
  case (stale j c p g)
  with assms show ?thesis by (simp add: https_inv_def del: https_step.simps)
next
  case (advance j c p g)
  then show ?thesis by (simp add: https_inv_def advances_def current_def del: https_step.simps)
next
  case (finish j c p g)
  then show ?thesis by (simp add: https_inv_def ends_def del: https_step.simps)
qed (use assms in \<open>simp_all del: https_step.simps\<close>)

lemma https_inv_run: "https_inv s \<Longrightarrow> https_inv (https_run B s is)"
  by (induction "is" arbitrary: s) (simp_all add: https_inv_step)

subsection \<open>Each handler is called once\<close>

fun requested :: "'h https_input list \<Rightarrow> 'h list" where
  "requested [] = []"
| "requested (In_request a # is) = (case arg_handler a of None \<Rightarrow> [] | Some h \<Rightarrow> [h]) @ requested is"
| "requested (i # is) = requested is"

definition answered :: "'h https_client \<Rightarrow> 'h multiset" where
  "answered s = mset (map fst (responses (hc_trace s)))"

definition waiting :: "'h https_client \<Rightarrow> 'h multiset" where
  "waiting s = (case hc_handler s of None \<Rightarrow> {#} | Some h \<Rightarrow> {#h#})"

lemma https_step_handlers:
  assumes "https_inv s"
  shows "answered (https_step B s i) + waiting (https_step B s i) =
    answered s + waiting s + mset (requested [i])"
  using assms
proof (cases rule: https_step_cases [where i = i and B = B])
  case (request_idle a)
  then show ?thesis
    by (simp add: answered_def waiting_def do_request_idle split: option.split)
next
  case (request_busy a)
  then show ?thesis by (simp add: answered_def waiting_def split: option.split)
next
  case cancel_busy
  then show ?thesis by (simp add: answered_def waiting_def do_cancel_busy split: option.split)
next
  case (advance j c p g)
  then show ?thesis by (simp add: answered_def waiting_def advances_def)
next
  case (finish j c p g)
  then show ?thesis by (auto simp: answered_def waiting_def ends_def split: option.split)
qed (simp_all add: answered_def waiting_def)

interpretation hs: request_service "https_step B" https_inv answered waiting "\<lambda>i. mset (requested [i])" for B
  by unfold_locales (simp_all add: https_inv_step https_step_handlers del: https_step.simps requested.simps)

lemma https_run_foldl: "https_run B s is = foldl (https_step B) s is"
  by (induction "is" arbitrary: s) simp_all

lemma requested_sum: "mset (requested is) = sum_list (map (\<lambda>i. mset (requested [i])) is)"
  by (induction "is" rule: requested.induct) simp_all

lemma https_run_handlers:
  "https_inv s \<Longrightarrow> answered (https_run B s is) + waiting (https_run B s is) =
     answered s + waiting s + mset (requested is)"
  unfolding https_run_foldl requested_sum [of "is"] by (rule hs.run_balance)

section \<open>Generations\<close>

text \<open>
  The request counter is a \<^verbatim>\<open>uint64_t\<close> that grows by at most one per input, so it does not wrap
  around in fewer than \<open>2 ^ 64\<close> inputs. Until then every pending operation carries a generation
  that was in use, and exactly one of them belongs to a request that is in progress.
\<close>

definition ops_of :: "u64 \<Rightarrow> 'h https_client \<Rightarrow> (https_op \<times> u64) list" where
  "ops_of g s = filter (\<lambda>x. snd x = g) (hc_pending s)"

definition gen_inv :: "nat \<Rightarrow> 'h https_client \<Rightarrow> bool" where
  "gen_inv n s \<longleftrightarrow>
     unat (hc_generation s) \<le> n \<and>
     (\<forall>(p, g) \<in> set (hc_pending s). g \<le> hc_generation s) \<and>
     length (ops_of (hc_generation s) s) = (if hc_state s = in_progress then 1 else 0)"

lemma gen_inv_step:
  assumes inv: "https_inv s" and gen: "gen_inv n s" and n: "n < 2 ^ 64 - 1"
  shows "gen_inv (Suc n) (https_step B s i)"
proof -
  have less: "unat (hc_generation s) < 2 ^ 64 - 1"
    using gen n by (simp add: gen_inv_def)
  have old: "g < hc_generation s + 1" if "(p, g) \<in> set (hc_pending s)" for p g
    using gen that less_Suc_generation [OF less, of g] by (auto simp: gen_inv_def)
  then have none: "filter (\<lambda>x. snd x = hc_generation s + 1) (hc_pending s) = []"
    by (fastforce simp: filter_empty_conv)
  note suc = unat_Suc_generation [OF less]
  have removed: "\<forall>(p, g) \<in> set (take j (hc_pending s) @ drop (Suc j) (hc_pending s)). g \<le> hc_generation s" for j
    using gen set_remove_nth [of j "hc_pending s"] unfolding gen_inv_def by blast
  note count = length_filter_remove_nth [where P = "\<lambda>x. snd x = hc_generation s" and xs = "hc_pending s"]
  from inv show ?thesis
  proof (cases rule: https_step_cases [where i = i and B = B])
    case (request_idle a)
    then show ?thesis
      using gen suc old none by (fastforce simp: gen_inv_def ops_of_def do_request_idle less_imp_le)
  next
    case cancel_busy
    then show ?thesis
      using gen suc old none by (fastforce simp: gen_inv_def ops_of_def do_cancel_busy less_imp_le)
  next
    case (stale j c p g)
    have "hc_state s = in_progress \<Longrightarrow> g \<noteq> hc_generation s"
      using stale inv by (auto simp: current_def is_current_request_def https_inv_def)
    then show ?thesis
      using stale gen removed [of j] count [of j]
      by (auto simp: gen_inv_def ops_of_def split: if_splits)
  next
    case (advance j c p g)
    then have "g = hc_generation s" "hc_state s = in_progress"
      by (auto simp: current_def is_current_request_def)
    then show ?thesis
      using advance gen removed [of j] count [of j]
      by (auto simp: gen_inv_def ops_of_def advances_def)
  next
    case (finish j c p g)
    then have "g = hc_generation s" "hc_state s = in_progress"
      by (auto simp: current_def is_current_request_def)
    then show ?thesis
      using finish gen removed [of j] count [of j]
      by (auto simp: gen_inv_def ops_of_def ends_def)
  qed (use gen in \<open>auto simp: gen_inv_def ops_of_def\<close>)
qed

lemma gen_inv_run:
  "https_inv s \<Longrightarrow> gen_inv n s \<Longrightarrow> n + length is < 2 ^ 64 \<Longrightarrow>
     gen_inv (n + length is) (https_run B s is)"
proof (induction "is" arbitrary: s n)
  case Nil
  then show ?case by simp
next
  case (Cons i "is")
  then have "gen_inv (Suc n) (https_step B s i)" by (intro gen_inv_step) simp_all
  from Cons.IH [OF https_inv_step [OF Cons.prems(1)] this] Cons.prems(3) show ?case by simp
qed

lemma gen_inv_new: "gen_inv 0 new_https_client"
  by (simp add: gen_inv_def ops_of_def new_https_client_def)

section \<open>No request is sent before the peer's name is bound to the connection\<close>

definition no_write :: "'h https_event list \<Rightarrow> bool" where
  "no_write es \<longleftrightarrow> (\<forall>sid r. Ev_write sid r \<notin> set es)"

lemma no_write_simps [simp]:
  "no_write []"
  "no_write (xs @ ys) \<longleftrightarrow> no_write xs \<and> no_write ys"
  "no_write (e # es) \<longleftrightarrow> (\<forall>sid r. e \<noteq> Ev_write sid r) \<and> no_write es"
  by (auto simp: no_write_def)

text \<open>\<open>quiet s s'\<close>: the calls made from \<open>s\<close> to \<open>s'\<close> include no write.\<close>

definition quiet :: "'h https_client \<Rightarrow> 'h https_client \<Rightarrow> bool" where
  "quiet s s' \<longleftrightarrow> (\<exists>es. hc_trace s' = hc_trace s @ es \<and> no_write es)"

lemma quiet_refl [simp]: "hc_trace s' = hc_trace s \<Longrightarrow> quiet s s'"
  by (simp add: quiet_def)

lemma quiet_trans: "quiet s t \<Longrightarrow> quiet t u \<Longrightarrow> quiet s u"
  by (auto simp: quiet_def)

lemma quiet_emit: "(\<forall>sid r. ev \<noteq> Ev_write sid r) \<Longrightarrow> quiet s (emit ev s)"
  by (simp add: quiet_def)

lemma quiet_call_handler: "quiet s (call_handler h ec r s)"
  by (simp add: quiet_def split: option.split)

lemma quiet_teardown: "quiet s (destroy_stream (close_socket (cancel_pending_operations s)))"
  by (simp add: quiet_def destroy_stream_def close_socket_def cancel_pending_operations_def Let_def
      split: option.split)

lemma quiet_complete_request: "quiet s (complete_request ec r s)"
  by (simp add: quiet_def split: option.split)

lemma quiet_fail_request: "quiet s (fail_request ec s)"
  unfolding fail_request_def by (rule quiet_trans [OF quiet_teardown quiet_complete_request])

lemma quiet_apply_timeout: "quiet s (apply_timeout s)"
  by (simp add: apply_timeout_def quiet_emit split: option.split)

lemma quiet_do_cancel: "quiet s (do_cancel s)"
proof -
  let ?s2 = "set_state cancelling s\<lparr>hc_generation := hc_generation (set_state cancelling s) + 1\<rparr>"
  have "quiet s ?s2" by (simp add: set_state_def)
  from quiet_trans [OF this quiet_trans [OF quiet_teardown quiet_complete_request]]
  show ?thesis by (simp add: do_cancel_def Let_def)
qed

lemma quiet_handle_connect: "quiet s (handle_connect g c s)"
proof -
  have 1: "quiet s (emit (Ev_tls_host sid h b) (apply_timeout s))" for sid h b
    by (rule quiet_trans [OF quiet_apply_timeout quiet_emit]) simp
  have 2: "quiet s (emit (Ev_verify_host sid h vc) (emit (Ev_tls_host sid h b) (apply_timeout s)))" for sid h b vc
    by (rule quiet_trans [OF 1 quiet_emit]) simp
  have 3: "quiet s (start_op Op_handshake g (emit (Ev_handshake sid) (emit (Ev_verify_host sid h vc)
      (emit (Ev_tls_host sid h b) (apply_timeout s)))))" for sid h b vc
    by (rule quiet_trans [OF quiet_trans [OF 2 quiet_emit] quiet_refl]) simp_all
  show ?thesis
    using quiet_trans [OF 1 quiet_fail_request] quiet_trans [OF 2 quiet_fail_request] 3
    by (simp add: handle_connect_def Let_def quiet_fail_request split: option.split)
qed

lemma quiet_handle_read: "quiet s (handle_read g c s)"
proof -
  have 1: "quiet s (fail_request ec (s\<lparr>hc_response := m\<rparr>))" for ec m
    by (rule quiet_trans [OF _ quiet_fail_request]) simp
  have 2: "quiet s (destroy_stream (close_socket (emit (Ev_expires_never sid) (s\<lparr>hc_response := m\<rparr>))))" for sid m
    by (simp add: quiet_def destroy_stream_def close_socket_def split: option.split)
  show ?thesis
    using 1 quiet_trans [OF 2 quiet_complete_request]
    by (simp add: handle_read_def Let_def split: option.split)
qed

lemma quiet_start_emit:
  assumes "\<forall>sid r. ev \<noteq> Ev_write sid r"
  shows "quiet s (start_op p g (emit ev (apply_timeout s)))"
  by (rule quiet_trans [OF quiet_trans [OF quiet_apply_timeout quiet_emit [OF assms]] quiet_refl]) simp

lemma quiet_complete_op: "p \<noteq> Op_handshake \<Longrightarrow> quiet s (complete_op p g c s)"
  by (cases p) (simp_all add: quiet_handle_connect quiet_handle_read handle_resolve_def
      handle_write_def quiet_start_emit quiet_fail_request split: option.split)

text \<open>
  The server name and the name to verify the certificate against were set to the host, both without an error, and
  then the TLS handshake was started.
\<close>

definition secured :: "'h https_event list \<Rightarrow> nat \<Rightarrow> string \<Rightarrow> bool" where
  "secured tr sid host \<longleftrightarrow>
     subseq [Ev_tls_host sid host True, Ev_verify_host sid host None, Ev_handshake sid] tr"

text \<open>Every write of the trace is the message of one of the requests in \<open>A\<close>, on a stream secured for its host.\<close>

definition writes_secured :: "beast \<Rightarrow> 'h request_args set \<Rightarrow> 'h https_event list \<Rightarrow> bool" where
  "writes_secured B A tr \<longleftrightarrow>
     (\<forall>k sid req. k < length tr \<and> tr ! k = Ev_write sid req \<longrightarrow>
        (\<exists>a \<in> A. req = build_request B a \<and> secured (take k tr) sid (arg_host a)))"

lemma secured_append: "secured tr sid host \<Longrightarrow> secured (tr @ es) sid host"
  unfolding secured_def by (metis append_Nil2 list_emb_append_mono subseq_order.order_refl list_emb_Nil)

lemma writes_secured_append:
  assumes "writes_secured B A tr" and "no_write es"
  shows "writes_secured B A (tr @ es)"
  using assms unfolding writes_secured_def no_write_def
  by (auto simp: nth_append split: if_splits) (metis less_diff_conv2 linorder_not_less nth_mem add.commute)

lemma writes_secured_snoc:
  fixes tr :: "'h https_event list"
  assumes "writes_secured B A tr" and "req = build_request B (a :: 'h request_args)" and "a \<in> A"
    and "secured tr sid (arg_host a)"
  shows "writes_secured B A (tr @ [Ev_write sid req])"
  unfolding writes_secured_def
proof (intro allI impI)
  fix k sid' req'
  assume k: "k < length (tr @ [Ev_write sid req]) \<and> (tr @ [Ev_write sid req]) ! k = Ev_write sid' req'"
  show "\<exists>a \<in> A. req' = build_request B a \<and>
          secured (take k (tr @ [Ev_write sid req])) sid' (arg_host a)"
  proof (cases "k < length tr")
    case True
    with k assms(1) show ?thesis unfolding writes_secured_def by (auto simp: nth_append)
  next
    case False
    with k have "k = length tr" "sid' = sid" "req' = req" by (auto simp: less_Suc_eq)
    with assms show ?thesis by auto
  qed
qed

lemma writes_secured_quiet: "writes_secured B A (hc_trace s) \<Longrightarrow> quiet s s' \<Longrightarrow> writes_secured B A (hc_trace s')"
  by (auto simp: quiet_def writes_secured_append)

definition sec_inv :: "beast \<Rightarrow> 'h request_args set \<Rightarrow> 'h https_client \<Rightarrow> bool" where
  "sec_inv B A s \<longleftrightarrow>
     writes_secured B A (hc_trace s) \<and>
     (hc_state s = in_progress \<longrightarrow>
        (\<exists>a \<in> A. hc_request s = build_request B a \<and> hc_host s = arg_host a) \<and>
        (\<forall>p sid. (p, hc_generation s) \<in> set (hc_pending s) \<longrightarrow> p \<notin> {Op_resolve, Op_connect} \<longrightarrow>
           hc_stream s = Some sid \<longrightarrow> secured (hc_trace s) sid (hc_host s)))"

text \<open>The calls of the two completions that matter: the connection is bound to the host, the request is sent.\<close>

lemma handle_connect_secures:
  assumes "advances Op_connect g s (handle_connect g c s)" and "hc_stream s = Some sid"
  shows "secured (hc_trace (handle_connect g c s)) sid (hc_host s)"
  using assms
  by (auto simp: handle_connect_def advances_def secured_def list_emb_append2 Let_def split: if_splits)

lemma handle_ssl_handshake_writes:
  assumes "advances Op_handshake g s (handle_ssl_handshake g c s)" and "hc_stream s = Some sid"
  obtains es where "no_write es"
    "hc_trace (handle_ssl_handshake g c s) = (hc_trace s @ es) @ [Ev_write sid (hc_request s)]"
proof -
  obtain es where "hc_trace (apply_timeout s) = hc_trace s @ es" "no_write es"
    using quiet_apply_timeout [of s] by (auto simp: quiet_def)
  with assms that [of es] show thesis
    by (auto simp: handle_ssl_handshake_def advances_def split: if_splits)
qed

lemma quiet_handshake_ends:
  assumes "ends s (handle_ssl_handshake g c s)" and "hc_state s = in_progress"
  shows "quiet s (handle_ssl_handshake g c s)"
  using assms by (auto simp: handle_ssl_handshake_def ends_def quiet_fail_request split: option.splits if_splits)

lemma advances_trace_grows:
  "advances p g s (complete_op p g c s) \<Longrightarrow> hc_stream s = Some sid \<Longrightarrow> secured (hc_trace s) sid' h \<Longrightarrow>
     secured (hc_trace (complete_op p g c s)) sid' h"
proof (cases "p = Op_handshake")
  case True
  moreover assume "advances p g s (complete_op p g c s)" "hc_stream s = Some sid" "secured (hc_trace s) sid' h"
  ultimately show ?thesis
    using handle_ssl_handshake_writes [of g s c sid] by (metis complete_op.simps(3) append_assoc secured_append)
next
  case False
  moreover assume "secured (hc_trace s) sid' h"
  ultimately show ?thesis
    using quiet_complete_op [of p s g c] by (auto simp: quiet_def intro: secured_append)
qed

lemma sec_inv_new: "sec_inv B A new_https_client"
  by (simp add: sec_inv_def writes_secured_def new_https_client_def)

lemma sec_inv_request_idle:
  assumes "sec_inv B A s" and "hc_state s = idle" and "a \<in> A"
    and none: "filter (\<lambda>x. snd x = hc_generation s + 1) (hc_pending s) = []"
  shows "sec_inv B A (do_request B a s)"
proof -
  have "quiet s (do_request B a s)"
    using assms(2) by (simp add: quiet_def do_request_idle)
  with assms(1) have "writes_secured B A (hc_trace (do_request B a s))"
    by (auto simp: sec_inv_def intro: writes_secured_quiet)
  moreover have "p = Op_resolve"
    if "(p, hc_generation s + 1) \<in> set (hc_pending s @ [(Op_resolve, hc_generation s + 1)])" for p
    using that none by (auto simp: filter_empty_conv)
  ultimately show ?thesis
    using assms(2,3) by (auto simp: sec_inv_def do_request_idle)
qed

lemma sec_inv_advance:
  assumes sec: "sec_inv B A s" and adv: "advances p g s (complete_op p g c s)"
    and cur: "current g s" and here: "secured (hc_trace s) sid (hc_host s) \<or> p \<in> {Op_resolve, Op_connect}"
    and sid: "hc_stream s = Some sid" and only: "\<forall>q. (q, g) \<notin> set (hc_pending s)"
  shows "sec_inv B A (complete_op p g c s)"
proof -
  let ?t = "complete_op p g c s"
  have g: "g = hc_generation s" "hc_state s = in_progress"
    using cur by (auto simp: current_def is_current_request_def)
  from sec g obtain a where a: "a \<in> A" "hc_request s = build_request B a" "hc_host s = arg_host a"
    by (auto simp: sec_inv_def)
  have tr: "writes_secured B A (hc_trace s)" using sec by (simp add: sec_inv_def)
  have "writes_secured B A (hc_trace ?t)"
  proof (cases "p = Op_handshake")
    case True
    then obtain es where es: "no_write es" "hc_trace ?t = (hc_trace s @ es) @ [Ev_write sid (hc_request s)]"
      using handle_ssl_handshake_writes [of g s c sid] adv sid by (metis complete_op.simps(3))
    have "secured (hc_trace s @ es) sid (arg_host a)"
      using here True a by (auto intro: secured_append)
    with es tr a show ?thesis
      by (metis writes_secured_append writes_secured_snoc)
  next
    case False
    from tr quiet_complete_op [OF this] show ?thesis by (rule writes_secured_quiet)
  qed
  moreover have "secured (hc_trace ?t) sid (hc_host s)" if "next_op p = Some q" "q \<notin> {Op_resolve, Op_connect}" for q
  proof (cases "p = Op_connect")
    case True
    then show ?thesis using handle_connect_secures [of g s c sid] adv sid by simp
  next
    case False
    then have "secured (hc_trace s) sid (hc_host s)" using here that by (cases p) auto
    with adv sid show ?thesis by (rule advances_trace_grows)
  qed
  moreover obtain q where "next_op p = Some q" "hc_pending ?t = hc_pending s @ [(q, g)]"
    using adv by (auto simp: advances_def)
  ultimately show ?thesis
    using adv a g sid only unfolding sec_inv_def advances_def by auto
qed

lemma sec_inv_remove_op: "sec_inv B A s \<Longrightarrow> sec_inv B A (remove_op j s)"
  using set_remove_nth [of j "hc_pending s"] unfolding sec_inv_def remove_op_simps by blast

lemma sec_inv_step:
  assumes inv: "https_inv s" and gen: "gen_inv n s" and n: "n < 2 ^ 64 - 1" and sec: "sec_inv B A s"
    and A: "\<forall>a. i = In_request a \<longrightarrow> a \<in> A"
  shows "sec_inv B A (https_step B s i)"
  using inv
proof (cases rule: https_step_cases [where i = i and B = B])
  case (request_idle a)
  have "unat (hc_generation s) < 2 ^ 64 - 1" using gen n by (simp add: gen_inv_def)
  then have "filter (\<lambda>x. snd x = hc_generation s + 1) (hc_pending s) = []"
    using gen less_Suc_generation [of "hc_generation s"] by (fastforce simp: filter_empty_conv gen_inv_def)
  with request_idle sec A show ?thesis by (simp add: sec_inv_request_idle)
next
  case (request_busy a)
  from sec have "writes_secured B A (hc_trace (https_step B s i))"
    using request_busy writes_secured_quiet [OF _ quiet_call_handler] by (auto simp: sec_inv_def)
  moreover have "secured tr sid h \<Longrightarrow> secured (tr @ es) sid h" for tr :: "'a https_event list" and sid h es
    by (rule secured_append)
  ultimately show ?thesis using request_busy sec by (auto simp: sec_inv_def)
next
  case cancel_busy
  from sec have "writes_secured B A (hc_trace (https_step B s i))"
    using cancel_busy writes_secured_quiet [OF _ quiet_do_cancel] by (auto simp: sec_inv_def)
  then show ?thesis using cancel_busy by (simp add: sec_inv_def do_cancel_busy)
next
  case (stale j c p g)
  with sec show ?thesis by (simp add: sec_inv_remove_op)
next
  case (advance j c p g)
  have g: "g = hc_generation s" "hc_state s = in_progress"
    using advance by (auto simp: current_def is_current_request_def)
  obtain sid where sid: "hc_stream s = Some sid" using advance by (auto simp: current_def)
  have mem: "(p, g) \<in> set (hc_pending s)" using advance by (metis nth_mem)
  have rest: "filter (\<lambda>x. snd x = g) (take j (hc_pending s) @ drop (Suc j) (hc_pending s)) = []"
    using gen g advance length_filter_remove_nth [of j "hc_pending s" "\<lambda>x. snd x = g"]
    by (simp add: gen_inv_def ops_of_def)
  have sec': "sec_inv B A (remove_op j s)" using sec by (rule sec_inv_remove_op)
  have "secured (hc_trace s) sid (hc_host s) \<or> p \<in> {Op_resolve, Op_connect}"
    using sec g sid mem by (auto simp: sec_inv_def)
  moreover have "\<forall>q. (q, g) \<notin> set (hc_pending (remove_op j s))"
    using rest by (auto simp: filter_empty_conv)
  ultimately show ?thesis
    using sec_inv_advance [OF sec', of p g c sid] advance sid by simp
next
  case (finish j c p g)
  have q: "quiet (remove_op j s) (complete_op p g c (remove_op j s))"
  proof (cases "p = Op_handshake")
    case True
    then show ?thesis
      using finish quiet_handshake_ends [of "remove_op j s" g c] https_step_complete [of j s p g B c]
      by (simp add: current_def is_current_request_def)
  next
    case False
    then show ?thesis by (rule quiet_complete_op)
  qed
  have "writes_secured B A (hc_trace (remove_op j s))" using sec by (simp add: sec_inv_def)
  from writes_secured_quiet [OF this q] show ?thesis
    using finish https_step_complete [of j s p g B c] by (simp add: sec_inv_def ends_def)
qed (use sec in simp_all)

lemma sec_inv_run:
  "https_inv s \<Longrightarrow> gen_inv n s \<Longrightarrow> n + length is < 2 ^ 64 \<Longrightarrow> sec_inv B A s \<Longrightarrow> \<forall>a. In_request a \<in> set is \<longrightarrow> a \<in> A \<Longrightarrow>
     sec_inv B A (https_run B s is)"
proof (induction "is" arbitrary: s n)
  case Nil
  then show ?case by simp
next
  case (Cons i "is")
  then have n: "n < 2 ^ 64 - 1" by simp
  from Cons.prems n show ?case
    using Cons.IH [of "https_step B s i" "Suc n"] https_inv_step [of s B i] gen_inv_step [of s n B i]
      sec_inv_step [of s n B A i] by simp
qed

section \<open>Properties\<close>

text \<open>
  C4: every response handler is called exactly once. After any sequence of requests, cancellations
  and completions (late, stale or failed ones included), the handlers that were called, together
  with the handler of the request in progress if there is one, are exactly the handlers that were
  passed to \<^verbatim>\<open>request\<close>, as multisets: none is called twice and none is forgotten, be it by a
  rejection, a failure at any stage, a cancellation or a success.
\<close>

theorem https_handler_exactly_once:
  "answered (https_run B new_https_client is) +
     (if is_busy (https_run B new_https_client is) then waiting (https_run B new_https_client is) else {#})
   = mset (requested is)"
proof -
  let ?s = "https_run B new_https_client is"
  have "answered ?s + waiting ?s = mset (requested is)"
    using https_run_handlers [OF https_inv_new, of B "is"]
    by (simp add: answered_def waiting_def new_https_client_def)
  moreover have "https_inv ?s" using https_inv_new by (rule https_inv_run)
  ultimately show ?thesis by (auto simp: https_inv_def is_busy_def waiting_def)
qed

text \<open>
  C28: a request in progress always has exactly one operation of its own outstanding, and its
  completion, whatever it brings, either starts the next of the five stages (resolve, connect,
  handshake, write, read) or ends the request; so a request ends after at most five completions of
  its own. Every other outstanding operation, left over from an earlier request, is without effect
  when it completes. (Fewer than \<open>2 ^ 64\<close> inputs: the generation counter has not wrapped around.)
\<close>

theorem https_request_progress:
  assumes "length is < 2 ^ 64" and "s = https_run B new_https_client is" and "is_busy s"
  shows "\<exists>i p. i < length (hc_pending s) \<and> hc_pending s ! i = (p, hc_generation s) \<and>
    (\<forall>c. \<not> is_busy (https_step B s (In_complete i c)) \<or>
         (\<exists>q. next_op p = Some q \<and> is_busy (https_step B s (In_complete i c)) \<and>
              (q, hc_generation s) \<in> set (hc_pending (https_step B s (In_complete i c))))) \<and>
    (\<forall>j c. j < length (hc_pending s) \<longrightarrow> j \<noteq> i \<longrightarrow> https_step B s (In_complete j c) = remove_op j s)"
proof -
  have inv: "https_inv s" unfolding assms(2) using https_inv_new by (rule https_inv_run)
  have gen: "gen_inv (length is) s"
    using gen_inv_run [OF https_inv_new gen_inv_new, of "is" B] assms by simp
  have busy: "hc_state s = in_progress" using inv assms(3) by (auto simp: https_inv_def is_busy_def)
  from gen busy obtain x where x: "ops_of (hc_generation s) s = [x]"
    by (auto simp: gen_inv_def length_Suc_conv)
  then have "x \<in> set (hc_pending s) \<and> snd x = hc_generation s"
    using filter_set [of "\<lambda>x. snd x = hc_generation s" "hc_pending s"] by (auto simp: ops_of_def)
  then obtain i p where i: "i < length (hc_pending s)" "hc_pending s ! i = (p, hc_generation s)"
    by (metis in_set_conv_nth prod.collapse)
  have other: "snd (hc_pending s ! j) \<noteq> hc_generation s" if "j < length (hc_pending s)" "j \<noteq> i" for j
    using filter_eq_singleton_nth [OF x [unfolded ops_of_def] i(1) _ that(1)] i(2) that(2) by auto
  have cur: "current (hc_generation s) s"
    using busy inv by (auto simp: current_def is_current_request_def https_inv_def)
  have "\<not> is_busy (https_step B s (In_complete i c)) \<or>
      (\<exists>q. next_op p = Some q \<and> is_busy (https_step B s (In_complete i c)) \<and>
           (q, hc_generation s) \<in> set (hc_pending (https_step B s (In_complete i c))))" for c
    using complete_op_current [of "hc_generation s" "remove_op i s" p c] cur
      https_step_complete [OF i, of B c] by (auto simp: advances_def ends_def is_busy_def)
  moreover have "https_step B s (In_complete j c) = remove_op j s"
    if "j < length (hc_pending s)" "j \<noteq> i" for j c
  proof -
    obtain q g where q: "hc_pending s ! j = (q, g)" by (cases "hc_pending s ! j")
    with other [OF that] have "\<not> current g (remove_op j s)"
      by (simp add: current_def is_current_request_def)
    then show ?thesis using https_step_complete [OF that(1) q] by (simp add: complete_op_stale)
  qed
  ultimately show ?thesis using i by blast
qed

text \<open>
  A concrete stand-in for the two Beast operations, for evaluating runs: fields are replaced by name
  and the payload is left alone.
\<close>

definition plain_beast :: beast where
  "plain_beast =
     \<lparr>set_field = (\<lambda>fs n v. filter (\<lambda>x. fst x \<noteq> n) fs @ [(n, v)]), prepare_payload = (\<lambda>r. r)\<rparr>"

theorem https_request_progress_witness:
  "\<exists>i p. i < 1 \<and>
    hc_pending (https_run plain_beast new_https_client
      [In_request (get_args ''example.org'' ''443'' ''/'' 0 (Some (7 :: nat)))]) ! i = (p, 1)"
proof -
  let ?is = "[In_request (get_args ''example.org'' ''443'' ''/'' 0 (Some (7 :: nat)))]"
  have busy: "is_busy (https_run plain_beast new_https_client ?is)"
    by (simp add: is_busy_def do_request_idle new_https_client_def)
  show ?thesis
    using https_request_progress [OF _ refl busy]
    by (simp add: do_request_idle new_https_client_def)
qed

definition succeeds :: "completion \<Rightarrow> bool" where
  "succeeds c \<longleftrightarrow> comp_ec c = None \<and> comp_tls_host_ok c \<and> comp_verify_ec c = None"

lemma take_drop_snoc [simp]: "take (length xs) (xs @ [x]) @ drop (Suc (length xs)) (xs @ [x]) = xs"
  by simp

lemma complete_op_succeeds:
  assumes "succeeds c" and "current g s"
  shows "p \<noteq> Op_read \<Longrightarrow> \<exists>q. next_op p = Some q \<and> advances p g s (complete_op p g c s)"
    and "ends s (handle_read g c s) \<and> responses (hc_trace (handle_read g c s)) = responses (hc_trace s) @
      (case hc_handler s of None \<Rightarrow> [] | Some h \<Rightarrow> [(h, None, to_response (comp_message c))])"
proof -
  obtain sid where sid: "hc_stream s = Some sid" and cur: "is_current_request g s"
    using assms(2) by (auto simp: current_def)
  then have st: "hc_state s = in_progress" by (simp add: is_current_request_def)
  show "\<exists>q. next_op p = Some q \<and> advances p g s (complete_op p g c s)" if "p \<noteq> Op_read"
    using that assms(1) sid cur st
    by (cases p) (simp_all add: succeeds_def advances_def Let_def handle_resolve_def handle_connect_def
        handle_ssl_handshake_def handle_write_def)
  have "responses (hc_trace (destroy_stream (close_socket t))) = responses (hc_trace t)"
      "hc_handler (destroy_stream (close_socket t)) = hc_handler t" for t :: "'a https_client"
    by (simp_all add: destroy_stream_def close_socket_def split: option.split)
  then show "ends s (handle_read g c s) \<and> responses (hc_trace (handle_read g c s)) = responses (hc_trace s) @
      (case hc_handler s of None \<Rightarrow> [] | Some h \<Rightarrow> [(h, None, to_response (comp_message c))])"
    using assms(1) sid cur
    by (auto simp: succeeds_def handle_read_def Let_def ends_complete_request split: option.split)
qed

text \<open>Completing the operation that the request has appended to the pending ones.\<close>

lemma https_step_last:
  assumes "succeeds c" and "current g s" and "hc_pending s = xs @ [(p, g)]" and "next_op p = Some q"
    and s'_def: "s' = https_step B s (In_complete (length xs) c)"
  shows "current g s' \<and> hc_pending s' = xs @ [(q, g)] \<and> hc_handler s' = hc_handler s \<and>
    responses (hc_trace s') = responses (hc_trace s)"
proof -
  have p: "p \<noteq> Op_read" using assms(4) by auto
  have s': "s' = complete_op p g c (remove_op (length xs) s)"
    unfolding s'_def using assms(3) by (intro https_step_complete) simp_all
  have "advances p g (remove_op (length xs) s) s'"
    unfolding s' using complete_op_succeeds(1) [OF assms(1) _ p, of g "remove_op (length xs) s"] assms(2)
    by simp
  with assms(2-4) show ?thesis
    by (auto simp: advances_def current_def is_current_request_def)
qed

text \<open>
  The successful exchange. A request on an idle client whose five operations all succeed is
  answered with the message that was read: status, body and headers in order, without an error; the
  client is idle again and only the operations left over from earlier requests are pending.
\<close>

theorem https_success:
  assumes "s = https_run B new_https_client is" and "\<not> is_busy s"
    and "succeeds c1" and "succeeds c2" and "succeeds c3" and "succeeds c4" and "succeeds c5"
    and "n = length (hc_pending s)"
    and "s' = https_run B s [In_request a, In_complete n c1, In_complete n c2, In_complete n c3,
                In_complete n c4, In_complete n c5]"
  shows "\<not> is_busy s' \<and> hc_pending s' = hc_pending s \<and>
    responses (hc_trace s') = responses (hc_trace s) @
      (case arg_handler a of None \<Rightarrow> [] | Some h \<Rightarrow> [(h, None, to_response (comp_message c5))])"
proof -
  define g where "g = hc_generation s + 1"
  define xs where "xs = hc_pending s"
  have idle: "hc_state s = idle" using assms(2) by (simp add: is_busy_def)
  let ?u = "\<lambda>s q t. current g t \<and> hc_pending t = xs @ [(q, g)] \<and> hc_handler t = arg_handler a \<and>
    responses (hc_trace t) = responses (hc_trace s)"
  define s0 where "s0 = do_request B a s"
  have 0: "?u s Op_resolve s0"
    using idle by (simp add: s0_def do_request_idle current_def is_current_request_def g_def xs_def)
  define s1 where "s1 = https_step B s0 (In_complete n c1)"
  have 1: "?u s Op_connect s1"
    using 0 https_step_last [OF assms(3), of g s0 xs Op_resolve Op_connect s1 B] by (simp add: s1_def assms(8) xs_def)
  define s2 where "s2 = https_step B s1 (In_complete n c2)"
  have 2: "?u s Op_handshake s2"
    using 1 https_step_last [OF assms(4), of g s1 xs Op_connect Op_handshake s2 B] by (simp add: s2_def assms(8) xs_def)
  define s3 where "s3 = https_step B s2 (In_complete n c3)"
  have 3: "?u s Op_write s3"
    using 2 https_step_last [OF assms(5), of g s2 xs Op_handshake Op_write s3 B] by (simp add: s3_def assms(8) xs_def)
  define s4 where "s4 = https_step B s3 (In_complete n c4)"
  have 4: "?u s Op_read s4"
    using 3 https_step_last [OF assms(6), of g s3 xs Op_write Op_read s4 B] by (simp add: s4_def assms(8) xs_def)
  have "s' = https_step B s4 (In_complete n c5)"
    by (simp only: assms(9) https_run.simps https_step.simps(1) s0_def s1_def s2_def s3_def s4_def)
  also have "\<dots> = handle_read g c5 (remove_op n s4)"
    using 4 https_step_complete [of n s4 Op_read g B c5] by (simp add: assms(8) xs_def)
  finally have s': "s' = handle_read g c5 (remove_op n s4)" .
  have pend: "hc_pending (remove_op n s4) = xs" using 4 by (simp add: assms(8) xs_def)
  from complete_op_succeeds(2) [OF assms(7), of g "remove_op n s4"] 4 pend show ?thesis
    by (simp add: s' ends_def is_busy_def xs_def)
qed

definition sample_completion :: completion where
  "sample_completion =
     \<lparr>comp_ec = None, comp_tls_host_ok = True, comp_ssl_error = 0, comp_verify_ec = None,
      comp_message = \<lparr>result_int = 200, msg_body = ''hello'', msg_fields = [(''Server'', ''x'')]\<rparr>\<rparr>"

theorem https_success_witness:
  "responses (hc_trace (https_run plain_beast new_https_client
     [In_request (get_args ''example.org'' ''443'' ''/'' 0 (Some (7 :: nat))),
      In_complete 0 sample_completion, In_complete 0 sample_completion, In_complete 0 sample_completion,
      In_complete 0 sample_completion, In_complete 0 sample_completion])) =
   [(7, None, \<lparr>status_code = 200, resp_body = ''hello'',
               headers = [\<lparr>hdr_name = ''Server'', hdr_value = ''x''\<rparr>]\<rparr>)]"
proof -
  have "succeeds sample_completion" by (simp add: succeeds_def sample_completion_def)
  note ok = this this this this this
  have idle: "\<not> is_busy new_https_client" and none: "0 = length (hc_pending new_https_client)"
    by (simp_all add: is_busy_def new_https_client_def)
  from https_success [OF https_run.simps(1) [symmetric] idle ok none refl, of plain_beast
      "get_args ''example.org'' ''443'' ''/'' 0 (Some (7 :: nat))"]
  show ?thesis
    by (simp add: to_response_def sample_completion_def get_args_def new_https_client_def
        del: https_run.simps https_step.simps)
qed

text \<open>A step that writes is the successful completion of the handshake of the request in progress.\<close>

definition handshake_succeeds :: "'h https_client \<Rightarrow> 'h https_input \<Rightarrow> nat \<Rightarrow> bool" where
  "handshake_succeeds s i sid \<longleftrightarrow>
     (\<exists>j c. i = In_complete j c \<and> j < length (hc_pending s) \<and> hc_pending s ! j = (Op_handshake, hc_generation s) \<and>
        hc_state s = in_progress \<and> hc_stream s = Some sid \<and> comp_ec c = None)"

lemma quiet_no_write: "quiet s t \<Longrightarrow> hc_trace t = hc_trace s @ es \<Longrightarrow> Ev_write sid req \<notin> set es"
  by (auto simp: quiet_def no_write_def)

lemma step_writes:
  assumes "https_inv s" and "hc_trace (https_step B s i) = hc_trace s @ es" and "Ev_write sid req \<in> set es"
  shows "handshake_succeeds s i sid"
proof -
  have nq: "\<not> quiet s (https_step B s i)" using quiet_no_write [OF _ assms(2)] assms(3) by blast
  from assms(1) show ?thesis
  proof (cases rule: https_step_cases [where i = i and B = B])
    case (request_idle a)
    then show ?thesis using nq by (simp add: quiet_def do_request_idle)
  next
    case (request_busy a)
    then show ?thesis using nq quiet_call_handler [of s "arg_handler a"] by simp
  next
    case cancel_busy
    then show ?thesis using nq quiet_do_cancel [of s] by simp
  next
    case (stale j c p g)
    then show ?thesis using nq by simp
  next
    case (advance j c p g)
    let ?u = "remove_op j s"
    have step: "https_step B s i = complete_op p g c ?u" using advance https_step_complete [of j s p g B c] by simp
    have "\<not> quiet ?u (complete_op p g c ?u)" using nq by (simp add: step quiet_def)
    then have p: "p = Op_handshake" using quiet_complete_op by blast
    obtain sid' where sid': "hc_stream s = Some sid'" using advance by (auto simp: current_def)
    have adv: "advances Op_handshake g ?u (handle_ssl_handshake g c ?u)" using advance step p by simp
    then have "comp_ec c = None"
      using sid' adv by (auto simp: handle_ssl_handshake_def advances_def current_def split: if_splits)
    moreover obtain es' where es': "no_write es'"
        "hc_trace (handle_ssl_handshake g c ?u) = (hc_trace ?u @ es') @ [Ev_write sid' (hc_request ?u)]"
      using handle_ssl_handshake_writes [OF adv, of sid'] sid' by (metis remove_op_simps(1))
    moreover have "es = es' @ [Ev_write sid' (hc_request ?u)]" using assms(2) step p es'(2) by simp
    then have "sid' = sid" using es'(1) assms(3) by (auto simp: no_write_def)
    ultimately show ?thesis
      using advance p sid' by (auto simp: handshake_succeeds_def current_def is_current_request_def)
  next
    case (finish j c p g)
    let ?u = "remove_op j s"
    have step: "https_step B s i = complete_op p g c ?u" using finish https_step_complete [of j s p g B c] by simp
    have "quiet ?u (complete_op p g c ?u)"
      using finish quiet_complete_op quiet_handshake_ends [of ?u g c] step
      by (cases "p = Op_handshake") (auto simp: current_def is_current_request_def)
    then show ?thesis using nq by (simp add: step quiet_def)
  qed (use nq in simp_all)
qed

text \<open>
  C25: a request is written only to a verified peer. Whenever the trace shows a write, the written message was
  built for one of the requests that were made, and earlier in the trace the same stream was given that request's host as
  the TLS server name and as the name to verify the certificate against, both without an error, and the TLS
  handshake was started after that. And the write is made in no other step than the successful completion of
  the handshake on that stream. This holds for every interleaving with completions left over from earlier requests.
\<close>

theorem https_write_is_verified:
  assumes "length is < 2 ^ 64"
  shows "writes_secured B {a. In_request a \<in> set is} (hc_trace (https_run B new_https_client is)) \<and>
    (\<forall>xs i ys es sid req. is = xs @ i # ys \<longrightarrow>
       hc_trace (https_run B new_https_client (xs @ [i])) = hc_trace (https_run B new_https_client xs) @ es \<longrightarrow>
       Ev_write sid req \<in> set es \<longrightarrow> handshake_succeeds (https_run B new_https_client xs) i sid)"
proof -
  have "handshake_succeeds (https_run B new_https_client xs) i sid"
    if "hc_trace (https_run B new_https_client (xs @ [i])) = hc_trace (https_run B new_https_client xs) @ es"
      "Ev_write sid req \<in> set es" for xs i es sid req
    using that step_writes [OF https_inv_run [OF https_inv_new]] by (simp add: https_run_foldl)
  with sec_inv_run [OF https_inv_new gen_inv_new _ sec_inv_new, of "is" "{a. In_request a \<in> set is}" B] assms
  show ?thesis by (simp add: sec_inv_def) blast
qed

theorem https_write_is_verified_witness:
  "let is = [In_request (get_args ''example.org'' ''443'' ''/'' 0 (Some (7 :: nat))),
     In_complete 0 sample_completion, In_complete 0 sample_completion, In_complete 0 sample_completion] in
   writes_secured plain_beast {a. In_request a \<in> set is} (hc_trace (https_run plain_beast new_https_client is)) \<and>
   handshake_succeeds (https_run plain_beast new_https_client (butlast is)) (last is) 0"
proof -
  let ?xs = "[In_request (get_args ''example.org'' ''443'' ''/'' 0 (Some (7 :: nat))),
     In_complete 0 sample_completion, In_complete 0 sample_completion]"
  let ?run = "https_run plain_beast new_https_client"
  let ?i = "In_complete 0 sample_completion"
  have tr: "hc_trace (?run (?xs @ [?i])) = hc_trace (?run ?xs) @ [Ev_write 0 (build_request plain_beast
      (get_args ''example.org'' ''443'' ''/'' 0 (Some (7 :: nat))))]"
    by (simp add: new_https_client_def get_args_def https_defs sample_completion_def)
  have "length (?xs @ [?i]) < 2 ^ 64" by simp
  from https_write_is_verified [OF this, of plain_beast]
  have w: "writes_secured plain_beast {a. In_request a \<in> set (?xs @ [?i])} (hc_trace (?run (?xs @ [?i])))"
    and h: "\<And>es req. hc_trace (?run (?xs @ [?i])) = hc_trace (?run ?xs) @ es \<Longrightarrow> Ev_write 0 req \<in> set es \<Longrightarrow>
      handshake_succeeds (?run ?xs) ?i 0" by blast+
  from w h [OF tr] show ?thesis by (simp del: https_run.simps)
qed

text \<open>
  Errors are reported as they are. When an operation of the request in progress completes with
  an error, at whichever stage, the response handler is called with exactly that error and an empty
  response, the socket of the request is closed, and the client is idle again.
\<close>

theorem https_error_reported:
  assumes "s = https_run B new_https_client is" and "is_busy s"
    and "i < length (hc_pending s)" and "hc_pending s ! i = (p, hc_generation s)"
    and "comp_ec c = Some e" and "s' = https_step B s (In_complete i c)"
  shows "\<not> is_busy s' \<and>
    responses (hc_trace s') = responses (hc_trace s) @
      (case hc_handler s of None \<Rightarrow> [] | Some h \<Rightarrow> [(h, Some e, empty_response)]) \<and>
    (\<exists>sid. hc_stream s = Some sid \<and> Ev_close sid \<in> set (hc_trace s'))"
proof -
  have inv: "https_inv s" unfolding assms(1) using https_inv_new by (rule https_inv_run)
  then obtain sid where sid: "hc_stream s = Some sid" and busy: "hc_state s = in_progress"
    using assms(2) by (auto simp: https_inv_def is_busy_def)
  have "s' = complete_op p (hc_generation s) c (remove_op i s)"
    unfolding assms(6) using assms(3,4) by (rule https_step_complete)
  also have "\<dots> = (if p = Op_read then fail_request (Some e) (remove_op i s\<lparr>hc_response := comp_message c\<rparr>)
      else fail_request (Some e) (remove_op i s))"
    using sid busy assms(5)
    by (cases p) (simp_all add: handle_resolve_def handle_connect_def handle_ssl_handshake_def
        handle_write_def handle_read_def is_current_request_def)
  finally have s': "s' = fail_request (Some e) (if p = Op_read
      then remove_op i s\<lparr>hc_response := comp_message c\<rparr> else remove_op i s)"
    by simp
  have close: "Ev_close sid \<in> set (hc_trace (fail_request ec t))" if "hc_stream t = Some sid"
    for ec and t :: "'a https_client"
    using that by (simp add: fail_request_def destroy_stream_def close_socket_def
        cancel_pending_operations_def Let_def)
  show ?thesis using sid by (simp add: s' is_busy_def close)
qed

theorem https_error_reported_witness:
  "responses (hc_trace (https_step plain_beast
      (https_run plain_beast new_https_client
         [In_request (get_args ''example.org'' ''443'' ''/'' 0 (Some (7 :: nat)))])
      (In_complete 0 (sample_completion\<lparr>comp_ec := Some host_unreachable\<rparr>)))) =
   [(7, Some host_unreachable, empty_response)]"
proof -
  let ?s = "https_run plain_beast new_https_client
    [In_request (get_args ''example.org'' ''443'' ''/'' 0 (Some (7 :: nat)))]"
  have s: "is_busy ?s" "hc_pending ?s = [(Op_resolve, 1)]" "hc_generation ?s = 1"
      "hc_handler ?s = Some 7" "responses (hc_trace ?s) = []"
    by (simp_all add: is_busy_def do_request_idle new_https_client_def get_args_def)
  from https_error_reported [OF refl s(1), of 0 Op_resolve
      "sample_completion\<lparr>comp_ec := Some host_unreachable\<rparr>" host_unreachable, OF _ _ _ refl]
  show ?thesis
    by (simp add: s del: https_run.simps https_step.simps)
qed

end
