(* ===== verification/Https_Refinement.thy ===== *)
theory Https_Refinement
  imports Https_Properties
begin

text \<open>
  The contract of \<^verbatim>\<open>HttpsClientAsync\<close> as a small state machine, a slot that serves one request at a time,
  and the proof that the client refines it: every run of the client, with completions in any order, is a
  run of the slot with the same answers in the same order. The theory also has the properties of the
  request message and of the timeouts.
\<close>

section \<open>The specification: a slot for one request\<close>

datatype 'h slot = Free | Serving "'h option"

datatype 'h label = Submit "'h option" | Cancel | Progress

type_synonym 'h answers = "('h \<times> error_code \<times> http_response) list"

definition reply :: "'h option \<Rightarrow> error_code \<Rightarrow> http_response \<Rightarrow> 'h answers" where
  "reply h ec r = (case h of None \<Rightarrow> [] | Some x \<Rightarrow> [(x, ec, r)])"

text \<open>
  A free slot accepts a request; a serving one refuses it at once. Cancelling ends the request that is
  served. Otherwise the slot may, at any time, finish it: with a response, or with an error and an empty
  response.
\<close>

inductive slot_step :: "'h slot \<Rightarrow> 'h label \<Rightarrow> 'h answers \<Rightarrow> 'h slot \<Rightarrow> bool" where
  accept: "slot_step Free (Submit h) [] (Serving h)"
| refuse: "slot_step (Serving x) (Submit h) (reply h (Some operation_in_progress) empty_response) (Serving x)"
| cancel: "slot_step (Serving x) Cancel (reply x (Some operation_canceled) empty_response) Free"
| cancel_free: "slot_step Free Cancel [] Free"
| silent: "slot_step x Progress [] x"
| finish: "ec = None \<or> r = empty_response \<Longrightarrow> slot_step (Serving x) Progress (reply x ec r) Free"

inductive slot_run :: "'h slot \<Rightarrow> 'h label list \<Rightarrow> 'h answers \<Rightarrow> 'h slot \<Rightarrow> bool" where
  stop: "slot_run x [] [] x"
| more: "slot_step x l as y \<Longrightarrow> slot_run y ls bs z \<Longrightarrow> slot_run x (l # ls) (as @ bs) z"

inductive_cases slot_stepE: "slot_step x l as y"

inductive_simps slot_run_Nil: "slot_run x [] as y"
  and slot_run_Cons: "slot_run x (l # ls) as y"

section \<open>The simulation\<close>

fun label_of :: "'h https_input \<Rightarrow> 'h label" where
  "label_of (In_request a) = Submit (arg_handler a)"
| "label_of In_cancel = Cancel"
| "label_of (In_complete i c) = Progress"

definition slot_of :: "'h https_client \<Rightarrow> 'h slot" where
  "slot_of s = (if is_busy s then Serving (hc_handler s) else Free)"

lemma slot_of_idle [simp]: "hc_state s = idle \<Longrightarrow> slot_of s = Free"
  by (simp add: slot_of_def is_busy_def)

lemma slot_of_busy [simp]: "hc_state s = in_progress \<Longrightarrow> slot_of s = Serving (hc_handler s)"
  by (simp add: slot_of_def is_busy_def)

lemma current_state: "current g s \<Longrightarrow> hc_state s = in_progress"
  by (simp add: current_def is_current_request_def)

lemma slot_of_remove_op [simp]: "slot_of (remove_op j s) = slot_of s"
  by (simp add: slot_of_def is_busy_def)

lemma https_step_simulates:
  assumes "https_inv s"
  shows "\<exists>as. slot_step (slot_of s) (label_of i) as (slot_of (https_step B s i)) \<and>
    responses (hc_trace (https_step B s i)) = responses (hc_trace s) @ as"
  using assms
proof (cases rule: https_step_cases [where i = i and B = B])
  case (request_idle a)
  then show ?thesis by (auto simp: do_request_idle intro: slot_step.accept exI [of _ "[]"])
next
  case (request_busy a)
  then have "slot_of (https_step B s i) = Serving (hc_handler s)" by (simp del: https_step.simps)
  moreover have "responses (hc_trace (https_step B s i)) =
      responses (hc_trace s) @ reply (arg_handler a) (Some operation_in_progress) empty_response"
    using request_busy by (simp add: reply_def split: option.split del: https_step.simps)
  ultimately show ?thesis using request_busy slot_step.refuse by (fastforce simp del: https_step.simps)
next
  case cancel_idle
  then have "hc_state s = idle" using assms do_cancel_busy(1) [of s] by (auto simp: https_inv_def)
  with cancel_idle show ?thesis
    using slot_step.cancel_free by (auto intro!: exI [of _ "[]"])
next
  case cancel_busy
  then show ?thesis
    using slot_step.cancel [of "hc_handler s"] by (auto simp: do_cancel_busy reply_def)
next
  case (none j c)
  then show ?thesis by (auto intro!: exI [of _ "[]"] slot_step.silent simp del: https_step.simps)
next
  case (stale j c p g)
  then show ?thesis by (auto intro!: exI [of _ "[]"] slot_step.silent simp del: https_step.simps)
next
  case (advance j c p g)
  then show ?thesis
    using current_state [OF advance(4)]
    by (auto simp: advances_def intro!: exI [of _ "[]"] slot_step.silent simp del: https_step.simps)
next
  case (finish j c p g)
  then obtain ec r where "ec = None \<or> r = empty_response"
      "responses (hc_trace (https_step B s i)) = responses (hc_trace s) @ reply (hc_handler s) ec r"
    by (auto simp: ends_def reply_def simp del: https_step.simps)
  moreover have "slot_of (https_step B s i) = Free" using finish(5) by (simp add: ends_def)
  ultimately show ?thesis
    using finish(1) current_state [OF finish(4)] slot_step.finish [of ec r "hc_handler s"]
    by (auto simp del: https_step.simps)
qed

lemma https_run_simulates:
  assumes "https_inv s"
  shows "\<exists>as. slot_run (slot_of s) (map label_of is) as (slot_of (https_run B s is)) \<and>
    responses (hc_trace (https_run B s is)) = responses (hc_trace s) @ as"
  using assms
proof (induction "is" arbitrary: s)
  case Nil
  then show ?case by (auto intro: slot_run.stop)
next
  case (Cons i "is")
  obtain as where 1: "slot_step (slot_of s) (label_of i) as (slot_of (https_step B s i))"
      "responses (hc_trace (https_step B s i)) = responses (hc_trace s) @ as"
    using https_step_simulates [OF Cons.prems] by blast
  obtain bs where 2: "slot_run (slot_of (https_step B s i)) (map label_of is) bs (slot_of (https_run B (https_step B s i) is))"
      "responses (hc_trace (https_run B (https_step B s i) is)) = responses (hc_trace (https_step B s i)) @ bs"
    using Cons.IH [OF https_inv_step [OF Cons.prems]] by blast
  from slot_run.more [OF 1(1) 2(1)] 1(2) 2(2) show ?case by auto
qed

section \<open>Properties\<close>

text \<open>
  C11: refinement. The client implements the slot: after any sequence of requests, cancellations and
  completions, in any order and with any outcome, the answers its handlers got are those of a run of the
  slot under the same requests and cancellations, in the same order, and the slot is serving exactly
  when \<^verbatim>\<open>is_busy()\<close>.
\<close>

theorem https_refines_slot:
  "slot_run Free (map label_of is) (responses (hc_trace (https_run B new_https_client is)))
     (slot_of (https_run B new_https_client is))"
  using https_run_simulates [OF https_inv_new, of "is" B] by (simp add: new_https_client_def)

section \<open>Timeouts\<close>

fun starts_op :: "https_op \<Rightarrow> nat \<Rightarrow> 'h https_event \<Rightarrow> bool" where
  "starts_op Op_resolve sid ev = (\<exists>host port. ev = Ev_resolve host port)"
| "starts_op Op_connect sid ev = (ev = Ev_connect sid)"
| "starts_op Op_handshake sid ev = (ev = Ev_handshake sid)"
| "starts_op Op_write sid ev = (\<exists>r. ev = Ev_write sid r)"
| "starts_op Op_read sid ev = (ev = Ev_read sid)"

fun sets_timer :: "'h https_event \<Rightarrow> bool" where
  "sets_timer (Ev_expires_after sid t) = True"
| "sets_timer (Ev_expires_never sid) = True"
| "sets_timer _ = False"

lemma complete_op_continues:
  assumes "is_current_request g s" and "hc_stream s = Some sid" and "hc_state (complete_op p g c s) \<noteq> idle"
  shows "\<exists>q es ev. next_op p = Some q \<and> starts_op q sid ev \<and> list_all (\<lambda>e. \<not> sets_timer e) es \<and>
    complete_op p g c s = start_op q g (emit ev (fold emit es (apply_timeout s)))"
proof -
  have goal: ?thesis if "complete_op p g c s = start_op q g (emit ev (fold emit es (apply_timeout s)))"
      "next_op p = Some q" "starts_op q sid ev" "list_all (\<lambda>e. \<not> sets_timer e) es" for q es ev
    using that by blast
  show ?thesis
  proof (cases p)
    case Op_resolve
    then have "complete_op p g c s = start_op Op_connect g (emit (Ev_connect sid) (fold emit [] (apply_timeout s)))"
      using assms by (auto simp: handle_resolve_def split: if_splits)
    then show ?thesis by (rule goal) (simp_all add: Op_resolve)
  next
    case Op_connect
    then have "complete_op p g c s = start_op Op_handshake g (emit (Ev_handshake sid)
        (fold emit [Ev_tls_host sid (hc_host s) True, Ev_verify_host sid (hc_host s) None] (apply_timeout s)))"
      using assms by (auto simp: handle_connect_def Let_def split: if_splits)
    then show ?thesis by (rule goal) (simp_all add: Op_connect)
  next
    case Op_handshake
    then have "complete_op p g c s = start_op Op_write g (emit (Ev_write sid (hc_request s)) (fold emit [] (apply_timeout s)))"
      using assms by (auto simp: handle_ssl_handshake_def split: if_splits)
    then show ?thesis by (rule goal) (simp_all add: Op_handshake)
  next
    case Op_write
    then have "complete_op p g c s = start_op Op_read g (emit (Ev_read sid) (fold emit [] (apply_timeout s)))"
      using assms by (auto simp: handle_write_def split: if_splits)
    then show ?thesis by (rule goal) (simp_all add: Op_write)
  next
    case Op_read
    then have False using assms by (auto simp: handle_read_def Let_def split: if_splits)
    then show ?thesis ..
  qed
qed

lemma fold_emit [simp]:
  "hc_trace (fold emit es s) = hc_trace s @ es" "hc_timeout (fold emit es s) = hc_timeout s"
  by (induction es arbitrary: s) (simp_all add: emit_def)

text \<open>
  Timeouts. When the request in progress goes on to its next operation on the stream, the stream's
  timer is first set to the timeout that the request was made with, and is not set again before the
  operation starts; without a timeout (zero or negative) the timer is never touched. The request's
  timeout does not change while it is in progress.
\<close>

theorem https_operation_timeouts:
  assumes "s = https_run B new_https_client is" and "is_busy s"
    and "i < length (hc_pending s)" and "hc_pending s ! i = (p, hc_generation s)"
    and "t = https_step B s (In_complete i c)" and "is_busy t"
  shows "hc_timeout t = hc_timeout s \<and>
    (\<exists>sid q es ev. hc_stream s = Some sid \<and> next_op p = Some q \<and> starts_op q sid ev \<and>
       hc_trace t = hc_trace s @ (if 0 < hc_timeout s then [Ev_expires_after sid (hc_timeout s)] else []) @ es @ [ev] \<and>
       list_all (\<lambda>e. \<not> sets_timer e) es)"
proof -
  have inv: "https_inv s" unfolding assms(1) using https_inv_new by (rule https_inv_run)
  then obtain sid where sid: "hc_stream s = Some sid" and busy: "hc_state s = in_progress"
    using assms(2) by (auto simp: https_inv_def is_busy_def)
  let ?s = "remove_op i s"
  have t: "t = complete_op p (hc_generation s) c ?s"
    unfolding assms(5) using assms(3,4) by (rule https_step_complete)
  have cur: "is_current_request (hc_generation s) ?s" using busy by (simp add: is_current_request_def)
  have timer: "hc_trace (apply_timeout ?s) =
      hc_trace s @ (if 0 < hc_timeout s then [Ev_expires_after sid (hc_timeout s)] else [])"
      "hc_timeout (apply_timeout ?s) = hc_timeout s"
    using sid by (simp_all add: apply_timeout_def remove_op_def emit_def)
  have "hc_state t \<noteq> idle" using assms(6) by (simp add: is_busy_def)
  moreover have "hc_stream ?s = Some sid" using sid by (simp add: remove_op_def)
  ultimately obtain q es ev where q: "next_op p = Some q" "starts_op q sid ev" "list_all (\<lambda>e. \<not> sets_timer e) es"
      "t = start_op q (hc_generation s) (emit ev (fold emit es (apply_timeout ?s)))"
    using complete_op_continues [OF cur] unfolding t by blast
  then have "hc_timeout t = hc_timeout s" "hc_trace t = hc_trace (apply_timeout ?s) @ es @ [ev]"
    using timer(2) by (simp_all add: start_op_def emit_def)
  with q(1-3) sid timer(1) show ?thesis by auto
qed

theorem https_operation_timeouts_witness:
  "\<exists>es. hc_trace (https_step plain_beast (https_run plain_beast new_https_client
     [In_request (get_args ''h'' ''443'' ''/'' 30 (Some (7 :: nat)))]) (In_complete 0 sample_completion)) =
   [Ev_resolve ''h'' ''443'', Ev_expires_after 0 30] @ es @ [Ev_connect 0]"
proof -
  let ?is = "[In_request (get_args ''h'' ''443'' ''/'' 30 (Some (7 :: nat)))]"
  let ?s = "https_run plain_beast new_https_client ?is"
  have s: "is_busy ?s" "hc_pending ?s = [(Op_resolve, 1)]" "hc_generation ?s = 1" "hc_stream ?s = Some 0"
      "hc_trace ?s = [Ev_resolve ''h'' ''443'']"
    by (simp_all add: is_busy_def do_request_idle new_https_client_def get_args_def)
  have "hc_timeout ?s = 30"
    by (simp add: new_https_client_def get_args_def do_request_def Let_def create_stream_def destroy_stream_def
        set_state_def start_op_def emit_def)
  moreover have "is_busy (https_step plain_beast ?s (In_complete 0 sample_completion))"
    using s by (simp add: is_busy_def handle_resolve_def is_current_request_def sample_completion_def do_request_def
        new_https_client_def get_args_def Let_def create_stream_def destroy_stream_def set_state_def)
  ultimately show ?thesis
    using https_operation_timeouts [OF refl s(1), of 0 Op_resolve _ sample_completion, OF _ _ refl] s
    by (auto simp del: https_run.simps https_step.simps)
qed

section \<open>The request message\<close>

text \<open>
  What Beast documents of the two operations that are parameters of the model: \<^verbatim>\<open>set\<close> replaces the fields
  whose name is the same (up to case) by one with the given value; \<^verbatim>\<open>prepare_payload\<close> changes no field but
  the two that describe the body. \<open>field\<close> looks a field up.
\<close>

definition beast_contract :: "beast \<Rightarrow> (string \<Rightarrow> string \<Rightarrow> bool) \<Rightarrow>
    ((string \<times> string) list \<Rightarrow> string \<Rightarrow> string option) \<Rightarrow> bool" where
  "beast_contract B same field \<longleftrightarrow>
     (\<forall>fs n v m. field (set_field B fs n v) m = (if same n m then Some v else field fs m)) \<and>
     (\<forall>r. req_method (prepare_payload B r) = req_method r \<and> target (prepare_payload B r) = target r \<and>
          version (prepare_payload B r) = version r \<and> req_body (prepare_payload B r) = req_body r) \<and>
     (\<forall>r n. \<not> same ''Content-Length'' n \<longrightarrow> \<not> same ''Transfer-Encoding'' n \<longrightarrow>
          field (req_fields (prepare_payload B r)) n = field (req_fields r) n)"

text \<open>The value of the last header with the name \<open>n\<close> in a list.\<close>

definition last_header :: "(string \<Rightarrow> string \<Rightarrow> bool) \<Rightarrow> http_header list \<Rightarrow> string \<Rightarrow> string option" where
  "last_header same hs n = map_option hdr_value (find (\<lambda>h. same (hdr_name h) n) (rev hs))"

lemma set_headers:
  assumes "beast_contract B same field"
  shows "field (foldl (\<lambda>fs h. set_field B fs (hdr_name h) (hdr_value h)) fs hs) n =
    (case last_header same hs n of None \<Rightarrow> field fs n | Some v \<Rightarrow> Some v)"
proof (induction hs rule: rev_induct)
  case (snoc h hs)
  have "field (set_field B fs m v) n = (if same m n then Some v else field fs n)" for fs m v
    using assms by (simp add: beast_contract_def)
  then show ?case using snoc by (simp add: last_header_def)
qed (simp add: last_header_def)

text \<open>
  The method names of HTTP: for the enumerators of the class, whose value outside them counts as a \<open>GET\<close>, and for
  the verbs of Beast, which are written to the request line under these names.
\<close>

fun method_name :: "http_method \<Rightarrow> string" where
  "method_name Method_get = ''GET''"
| "method_name Method_head = ''HEAD''"
| "method_name Method_post = ''POST''"
| "method_name Method_put = ''PUT''"
| "method_name Method_del = ''DELETE''"
| "method_name Method_patch = ''PATCH''"
| "method_name (Method_other _) = ''GET''"

fun verb_name :: "verb \<Rightarrow> string" where
  "verb_name Verb_get = ''GET''"
| "verb_name Verb_head = ''HEAD''"
| "verb_name Verb_post = ''POST''"
| "verb_name Verb_put = ''PUT''"
| "verb_name Verb_delete = ''DELETE''"
| "verb_name Verb_patch = ''PATCH''"

lemma to_beast_verb_name: "verb_name (to_beast_verb m) = method_name m"
  by (cases m) simp_all

text \<open>
  C36: the message of a request. It has the method, target and body of the call and version 1.1; the name of the method
  on the wire is that of the enumerator that was passed. A field
  other than those of the body has the value of the last header passed with its name; if none was
  passed, \<^verbatim>\<open>Host\<close> is the host and \<^verbatim>\<open>User-Agent\<close> is \<^verbatim>\<open>https-client\<close>.
\<close>

theorem https_request_message:
  assumes "beast_contract B same field" and "same ''Host'' ''Host''" and "same ''User-Agent'' ''User-Agent''"
    and "\<not> same ''User-Agent'' ''Host''"
    and "\<forall>n \<in> {''Host'', ''User-Agent''}. \<not> same ''Content-Length'' n \<and> \<not> same ''Transfer-Encoding'' n"
    and "m = build_request B a"
  shows "version m = 11 \<and> verb_name (req_method m) = method_name (arg_method a) \<and> target m = arg_target a \<and>
    req_body m = arg_body a \<and>
    (\<forall>n v. last_header same (arg_headers a) n = Some v \<longrightarrow> \<not> same ''Content-Length'' n \<longrightarrow>
       \<not> same ''Transfer-Encoding'' n \<longrightarrow> field (req_fields m) n = Some v) \<and>
    (last_header same (arg_headers a) ''Host'' = None \<longrightarrow> field (req_fields m) ''Host'' = Some (arg_host a)) \<and>
    (last_header same (arg_headers a) ''User-Agent'' = None \<longrightarrow>
       field (req_fields m) ''User-Agent'' = Some ''https-client'')"
proof -
  define fs where "fs = foldl (\<lambda>fs h. set_field B fs (hdr_name h) (hdr_value h))
    (set_field B (set_field B [] ''Host'' (arg_host a)) ''User-Agent'' ''https-client'') (arg_headers a)"
  define r where "r = empty_request\<lparr>version := 11, req_method := to_beast_verb (arg_method a),
    target := arg_target a, req_fields := fs, req_body := arg_body a\<rparr>"
  have m: "m = prepare_payload B r" by (simp add: assms(6) build_request_def Let_def r_def fs_def)
  have keep: "field (req_fields m) n = field fs n" if "\<not> same ''Content-Length'' n" "\<not> same ''Transfer-Encoding'' n" for n
    using assms(1) that by (simp add: m beast_contract_def r_def)
  have set: "field (set_field B fs n v) x = (if same n x then Some v else field fs x)" for fs n v x
    using assms(1) by (simp add: beast_contract_def)
  have field: "field fs n = (case last_header same (arg_headers a) n of Some v \<Rightarrow> Some v
      | None \<Rightarrow> field (set_field B (set_field B [] ''Host'' (arg_host a)) ''User-Agent'' ''https-client'') n)" for n
    unfolding fs_def set_headers [OF assms(1)] by (simp split: option.split)
  have "version m = 11" "req_method m = to_beast_verb (arg_method a)" "target m = arg_target a" "req_body m = arg_body a"
    using assms(1) by (simp_all add: m beast_contract_def r_def)
  then show ?thesis using assms(2-5) keep field set by (simp add: to_beast_verb_name)
qed

definition plain_field :: "(string \<times> string) list \<Rightarrow> string \<Rightarrow> string option" where
  "plain_field fs n = map_of fs n"

lemma plain_beast_contract: "beast_contract plain_beast (=) plain_field"
proof -
  have "map_of (filter (\<lambda>x. fst x \<noteq> n) fs @ [(n, v)]) m = (if n = m then Some v else map_of fs m)"
    for fs :: "(string \<times> string) list" and n v m
    by (induction fs) (auto simp: map_of_append map_add_def split: option.split)
  then show ?thesis by (simp add: beast_contract_def plain_beast_def plain_field_def)
qed

definition delete_args :: "nat request_args" where
  "delete_args = (get_args ''h'' ''443'' ''/'' 0 (Some 7))\<lparr>arg_method := Method_del, arg_headers :=
     [\<lparr>hdr_name = ''A'', hdr_value = ''1''\<rparr>, \<lparr>hdr_name = ''A'', hdr_value = ''2''\<rparr>]\<rparr>"

theorem https_request_message_witness:
  "plain_field (req_fields (build_request plain_beast delete_args)) ''A'' = Some ''2'' \<and>
   verb_name (req_method (build_request plain_beast delete_args)) = ''DELETE''"
  using https_request_message [OF plain_beast_contract _ _ _ _ refl, of delete_args]
  by (simp add: last_header_def delete_args_def)

end
