(* ===== verification/Secure_WebSocket_Client.thy ===== *)
theory Secure_WebSocket_Client
  imports Fixed_Ring_Buffer "HOL-Library.Multiset" "HOL-Library.While_Combinator"
begin

text \<open>
  \<^verbatim>\<open>cpp_components/secure_websocket_client/secure_websocket_client.{h,cpp}\<close>: the WebSocket client. The
  record \<open>ws_client\<close> has the data members of \<^verbatim>\<open>SecureWebSocketClient\<close>; it is extended for the derived
  class, so every operation here works on any extension of it. Streams are numbered in the order they
  are created. Three more fields stand for the surroundings: \<open>wc_posted\<close> holds the closures posted to
  the executor, \<open>wc_pending\<close> the asynchronous operations whose completion handler has not run yet, and
  \<open>wc_trace\<close> lists the calls on Asio, Beast, OpenSSL and the timers (those that set the host name with their
  results), the writes that were accepted into the queue, as they were passed in, the slots that left it, the
  calls of \<^verbatim>\<open>connect\<close>, and the calls of the user's handlers.

  A user's handler may call back into the client while it runs. It is a program over the public
  interface (\<open>prog\<close>), which may depend on its argument, on the results of its calls and on everything
  that happened before. How a handler is run, and what the virtual \<^verbatim>\<open>on_unexpected_disconnect\<close> does, is
  the argument \<open>env\<close> of the operations that reach such a call.
\<close>

section \<open>Constants and data\<close>

definition connect_timeout :: duration where
  "connect_timeout = seconds 30"

definition ping_retry_delay :: duration where
  "ping_retry_delay = milliseconds 100"

definition read_buffer_size :: nat where
  "read_buffer_size = 64 * 1024"

definition read_padding :: nat where
  "read_padding = 64"

text \<open>The capacity of the static buffer \<^verbatim>\<open>read_buffer\<close>.\<close>

definition read_buffer_capacity :: nat where
  "read_buffer_capacity = read_buffer_size + read_padding"

definition write_slot_size :: nat where
  "write_slot_size = 8 * 1024"

definition write_slot_count :: nat where
  "write_slot_count = 2048"

datatype connection_state = disconnected | connecting | connected | closing

datatype write_type = Message | Ping

record 'h write_slot =
  slot_type :: write_type
  slot_data :: string
  slot_size :: nat
  slot_handler :: "'h option"

text \<open>
  \<^verbatim>\<open>std::array<char, 8 * 1024> data\<close> has no initialiser; its first contents are the argument.
\<close>

definition new_write_slot :: "string \<Rightarrow> 'h write_slot" where
  "new_write_slot bytes = \<lparr>slot_type = Message, slot_data = bytes, slot_size = 0, slot_handler = None\<rparr>"

text \<open>
  A \<^verbatim>\<open>ConnectHandler\<close> is the user's, or the closure \<^verbatim>\<open>[self, generation]\<close> that the reconnecting client
  passes to \<^verbatim>\<open>do_connect\<close>.
\<close>

datatype 'h connect_cb = User_cb 'h | Result_cb u64

text \<open>The closures that the public operations post, by the call they contain.\<close>

datatype 'h task =
    Do_connect "'h connect_cb option"
  | Do_write string "'h option"
  | Do_close "'h option"
  | Assign_message_handler "'h option"
  | Assign_disconnect_handler "'h option"
  | Assign_ping_message_generator "'h option"
  | Assign_ping_interval duration
  | Assign_read_timeout duration

text \<open>
  Asynchronous operations; a read or write carries the number of its stream, a write the generation
  that its closure captured.
\<close>

datatype 'h async_op =
    Resolve_op "'h connect_cb option"
  | Connect_op "'h connect_cb option"
  | Ssl_handshake_op "'h connect_cb option"
  | Websocket_handshake_op "'h connect_cb option"
  | Read_op nat
  | Write_op nat u64
  | Ping_wait
  | Read_wait

datatype 'h ws_event =
    Async_resolve string string
  | Expires_after nat duration
  | Expires_never nat
  | Async_connect nat
  | Read_message_max nat nat
  | Set_no_delay nat
  | Tls_host nat string bool
  | Verify_host nat string error_code
  | Async_tls_handshake nat
  | Suggested_timeout nat
  | No_timeout nat
  | Async_websocket_handshake nat string string
  | Async_read nat
  | Async_write nat string
  | Async_ping nat
  | Cancel_resolver
  | Cancel_stream nat
  | Close_socket nat
  | Ping_timer_after duration
  | Ping_timer_cancel
  | Read_timer_at time_point
  | Read_timer_cancel
  | Push_slot "write_type \<times> string \<times> 'h option"
  | Pop_slot "write_type \<times> string \<times> 'h option"
  | Connect_requested string string string
  | Executor_post "'h task"
  | Assert_failed
  | Called_connect "'h connect_cb" error_code
  | Called_write 'h error_code
  | Called_close 'h error_code
  | Called_message 'h string
  | Called_disconnect 'h error_code
  | Called_generator 'h

record 'h ws_client =
  wc_host :: string
  wc_port :: string
  wc_resource :: string
  wc_ws :: "nat option"
  wc_read_buffer :: string
  wc_write_slots :: "'h write_slot ring"
  wc_write_generation :: u64
  wc_write_in_progress :: bool
  wc_state :: connection_state
  wc_message_handler :: "'h option"
  wc_disconnect_handler :: "'h option"
  wc_ping_message_generator :: "'h option"
  wc_ping_interval :: duration
  wc_read_timeout :: duration
  wc_last_read_time :: time_point
  wc_streams_made :: nat
  wc_posted :: "'h task list"
  wc_pending :: "'h async_op list"
  wc_trace :: "'h ws_event list"

definition new_ws_client :: "string \<Rightarrow> 'h ws_client" where
  "new_ws_client bytes =
     \<lparr>wc_host = [], wc_port = [], wc_resource = [], wc_ws = None, wc_read_buffer = [],
      wc_write_slots = new_ring write_slot_count (new_write_slot bytes),
      wc_write_generation = 0, wc_write_in_progress = False, wc_state = disconnected,
      wc_message_handler = None, wc_disconnect_handler = None, wc_ping_message_generator = None,
      wc_ping_interval = 0, wc_read_timeout = 0, wc_last_read_time = 0, wc_streams_made = 0,
      wc_posted = [], wc_pending = [], wc_trace = []\<rparr>"

definition emit :: "'h ws_event \<Rightarrow> ('h, 'a) ws_client_scheme \<Rightarrow> ('h, 'a) ws_client_scheme" where
  "emit ev s = s\<lparr>wc_trace := wc_trace s @ [ev]\<rparr>"

definition start_op :: "'h async_op \<Rightarrow> ('h, 'a) ws_client_scheme \<Rightarrow> ('h, 'a) ws_client_scheme" where
  "start_op p s = s\<lparr>wc_pending := wc_pending s @ [p]\<rparr>"

definition post :: "'h task \<Rightarrow> ('h, 'a) ws_client_scheme \<Rightarrow> ('h, 'a) ws_client_scheme" where
  "post t s = emit (Executor_post t) (s\<lparr>wc_posted := wc_posted s @ [t]\<rparr>)"

section \<open>State and streams\<close>

definition is_connected :: "('h, 'a) ws_client_scheme \<Rightarrow> bool" where
  "is_connected s \<longleftrightarrow> wc_state s = connected"

definition is_connecting :: "('h, 'a) ws_client_scheme \<Rightarrow> bool" where
  "is_connecting s \<longleftrightarrow> wc_state s = connecting"

definition set_state :: "connection_state \<Rightarrow> ('h, 'a) ws_client_scheme \<Rightarrow> ('h, 'a) ws_client_scheme" where
  "set_state st s = s\<lparr>wc_state := st\<rparr>"

definition create_stream :: "('h, 'a) ws_client_scheme \<Rightarrow> ('h, 'a) ws_client_scheme" where
  "create_stream s =
     emit (Read_message_max (wc_streams_made s) read_buffer_size)
       (s\<lparr>wc_read_buffer := [], wc_ws := Some (wc_streams_made s), wc_streams_made := Suc (wc_streams_made s)\<rparr>)"

definition close_socket :: "('h, 'a) ws_client_scheme \<Rightarrow> ('h, 'a) ws_client_scheme" where
  "close_socket s = (case wc_ws s of None \<Rightarrow> s | Some sid \<Rightarrow> emit (Close_socket sid) s)"

section \<open>Writes\<close>

definition payload :: "'h write_slot \<Rightarrow> write_type \<times> string \<times> 'h option" where
  "payload slot = (slot_type slot, take (slot_size slot) (slot_data slot), slot_handler slot)"

text \<open>\<^verbatim>\<open>std::copy\<close> of a message to the beginning of an array.\<close>

definition copy_to_front :: "string \<Rightarrow> string \<Rightarrow> string" where
  "copy_to_front message bytes = message @ drop (length message) bytes"

definition start_write :: "('h, 'a) ws_client_scheme \<Rightarrow> ('h, 'a) ws_client_scheme" where
  "start_write s =
     (if wc_write_in_progress s \<or> is_empty (wc_write_slots s) then s
      else case wc_ws s of None \<Rightarrow> s
      | Some sid \<Rightarrow>
          let s1 = s\<lparr>wc_write_in_progress := True\<rparr> in
          case get_front (wc_write_slots s1) of
            None \<Rightarrow> emit Assert_failed s1
          | Some slot \<Rightarrow>
              if slot_type slot = Ping
              then start_op (Write_op sid (wc_write_generation s1)) (emit (Async_ping sid) s1)
              else start_op (Write_op sid (wc_write_generation s1))
                     (emit (Async_write sid (take (slot_size slot) (slot_data slot))) s1))"

definition queue_write :: "write_type \<Rightarrow> string \<Rightarrow> 'h option \<Rightarrow> ('h, 'a) ws_client_scheme \<Rightarrow>
    ('h, 'a) ws_client_scheme \<times> error_code" where
  "queue_write wtype message handler s =
     (if wc_state s \<noteq> connected \<or> wc_ws s = None then (s, Some not_connected)
      else if length message > write_slot_size then (s, Some message_size)
      else if is_full (wc_write_slots s) then (s, Some no_buffer_space)
      else case get_back_slot (wc_write_slots s) of
        None \<Rightarrow> (emit Assert_failed s, None)
      | Some slot \<Rightarrow>
          let slot' = slot\<lparr>slot_type := wtype, slot_data := copy_to_front message (slot_data slot),
                           slot_size := length message, slot_handler := handler\<rparr>
          in case push_back (set_back_slot (wc_write_slots s) slot') of
               None \<Rightarrow> (emit Assert_failed s, None)
             | Some slots \<Rightarrow>
                 (start_write (emit (Push_slot (wtype, message, handler)) (s\<lparr>wc_write_slots := slots\<rparr>)), None))"

text \<open>\<^verbatim>\<open>write_now\<close>, called on the executor thread or on another one.\<close>

definition write_now :: "bool \<Rightarrow> string \<Rightarrow> ('h, 'a) ws_client_scheme \<Rightarrow>
    ('h, 'a) ws_client_scheme \<times> error_code" where
  "write_now on_executor_thread message s =
     (if \<not> on_executor_thread then (s, Some operation_not_permitted)
      else queue_write Message message None s)"

definition do_protocol_ping :: "('h, 'a) ws_client_scheme \<Rightarrow> ('h, 'a) ws_client_scheme \<times> error_code" where
  "do_protocol_ping s = queue_write Ping [] None s"

section \<open>The public interface and the user's handlers\<close>

text \<open>
  \<^verbatim>\<open>connect\<close> stores its arguments before it posts; every other operation only posts.
\<close>

datatype 'h api_call =
    Api_connect string string string "'h option"
  | Api_post "'h task"

fun api :: "'h api_call \<Rightarrow> ('h, 'a) ws_client_scheme \<Rightarrow> ('h, 'a) ws_client_scheme" where
  "api (Api_connect host port resource handler) s =
     post (Do_connect (map_option User_cb handler)) (emit (Connect_requested host port resource)
       (s\<lparr>wc_host := host, wc_port := port, wc_resource := resource\<rparr>))"
| "api (Api_post t) s = post t s"

datatype 'h prog =
    Return string
  | Call_write_now string "error_code \<Rightarrow> 'h prog"
  | Call_is_connected "bool \<Rightarrow> 'h prog"
  | Call_api "'h api_call" "'h prog"

datatype handler_arg = Arg_code error_code | Arg_data string | Arg_none

type_synonym 'h user = "'h \<Rightarrow> handler_arg \<Rightarrow> 'h ws_event list \<Rightarrow> 'h prog"

text \<open>Running a handler's program: the new state and, for a ping generator, the returned message.\<close>

primrec run_prog :: "'h prog \<Rightarrow> ('h, 'a) ws_client_scheme \<Rightarrow> ('h, 'a) ws_client_scheme \<times> string" where
  "run_prog (Return msg) s = (s, msg)"
| "run_prog (Call_write_now message k) s =
     (case write_now True message s of (s', ec) \<Rightarrow> run_prog (k ec) s')"
| "run_prog (Call_is_connected k) s = run_prog (k (is_connected s)) s"
| "run_prog (Call_api c k) s = run_prog k (api c s)"

definition run_user :: "'h user \<Rightarrow> 'h \<Rightarrow> handler_arg \<Rightarrow> ('h, 'a) ws_client_scheme \<Rightarrow>
    ('h, 'a) ws_client_scheme \<times> string" where
  "run_user u h arg s = run_prog (u h arg (wc_trace s)) s"

text \<open>How handlers are run, and the virtual member function.\<close>

record ('h, 's) env =
  run_handler :: "'h \<Rightarrow> handler_arg \<Rightarrow> 's \<Rightarrow> 's \<times> string"
  run_connect_cb :: "'h connect_cb \<Rightarrow> error_code \<Rightarrow> 's \<Rightarrow> 's"
  on_unexpected_disconnect :: "error_code \<Rightarrow> 's \<Rightarrow> 's"

type_synonym ('h, 'a) ws_env = "('h, ('h, 'a) ws_client_scheme) env"

definition call_connect :: "('h, 'a) ws_env \<Rightarrow> 'h connect_cb option \<Rightarrow> error_code \<Rightarrow>
    ('h, 'a) ws_client_scheme \<Rightarrow> ('h, 'a) ws_client_scheme" where
  "call_connect E handler ec s =
     (case handler of None \<Rightarrow> s | Some cb \<Rightarrow> run_connect_cb E cb ec (emit (Called_connect cb ec) s))"

definition call_write :: "('h, 'a) ws_env \<Rightarrow> 'h option \<Rightarrow> error_code \<Rightarrow>
    ('h, 'a) ws_client_scheme \<Rightarrow> ('h, 'a) ws_client_scheme" where
  "call_write E handler ec s =
     (case handler of None \<Rightarrow> s
      | Some h \<Rightarrow> fst (run_handler E h (Arg_code ec) (emit (Called_write h ec) s)))"

definition call_close :: "('h, 'a) ws_env \<Rightarrow> 'h option \<Rightarrow> error_code \<Rightarrow>
    ('h, 'a) ws_client_scheme \<Rightarrow> ('h, 'a) ws_client_scheme" where
  "call_close E handler ec s =
     (case handler of None \<Rightarrow> s
      | Some h \<Rightarrow> fst (run_handler E h (Arg_code ec) (emit (Called_close h ec) s)))"

definition do_write :: "('h, 'a) ws_env \<Rightarrow> string \<Rightarrow> 'h option \<Rightarrow> ('h, 'a) ws_client_scheme \<Rightarrow>
    ('h, 'a) ws_client_scheme \<times> error_code" where
  "do_write E message handler s =
     (case queue_write Message message handler s of
        (s1, None) \<Rightarrow> (s1, None)
      | (s1, Some ec) \<Rightarrow> (call_write E handler (Some ec) s1, Some ec))"

text \<open>The base class's \<^verbatim>\<open>on_unexpected_disconnect\<close>.\<close>

definition base_on_unexpected_disconnect :: "('h \<Rightarrow> handler_arg \<Rightarrow> ('h, 'a) ws_client_scheme \<Rightarrow>
    ('h, 'a) ws_client_scheme \<times> string) \<Rightarrow> error_code \<Rightarrow> ('h, 'a) ws_client_scheme \<Rightarrow>
    ('h, 'a) ws_client_scheme" where
  "base_on_unexpected_disconnect run ec s =
     (case wc_disconnect_handler s of None \<Rightarrow> s
      | Some h \<Rightarrow> fst (run h (Arg_code ec) (emit (Called_disconnect h ec) s)))"

text \<open>The environment of an object of the base class.\<close>

definition base_env :: "'h user \<Rightarrow> ('h, 'a) ws_env" where
  "base_env u =
     \<lparr>run_handler = run_user u,
      run_connect_cb = (\<lambda>cb ec s. case cb of User_cb h \<Rightarrow> fst (run_user u h (Arg_code ec) s) | Result_cb _ \<Rightarrow> s),
      on_unexpected_disconnect = base_on_unexpected_disconnect (run_user u)\<rparr>"

section \<open>Timers\<close>

definition start_ping_timer_after :: "duration \<Rightarrow> ('h, 'a) ws_client_scheme \<Rightarrow> ('h, 'a) ws_client_scheme" where
  "start_ping_timer_after delay s =
     (if wc_ping_interval s \<le> 0 \<or> \<not> is_connected s then s
      else start_op Ping_wait (emit (Ping_timer_after delay) s))"

definition start_ping_timer :: "('h, 'a) ws_client_scheme \<Rightarrow> ('h, 'a) ws_client_scheme" where
  "start_ping_timer s = start_ping_timer_after (wc_ping_interval s) s"

definition stop_ping_timer :: "('h, 'a) ws_client_scheme \<Rightarrow> ('h, 'a) ws_client_scheme" where
  "stop_ping_timer s = emit Ping_timer_cancel s"

definition start_read_timer :: "('h, 'a) ws_client_scheme \<Rightarrow> ('h, 'a) ws_client_scheme" where
  "start_read_timer s =
     (if wc_read_timeout s \<le> 0 \<or> \<not> is_connected s then s
      else start_op Read_wait (emit (Read_timer_at (wc_last_read_time s + wc_read_timeout s)) s))"

definition stop_read_timer :: "('h, 'a) ws_client_scheme \<Rightarrow> ('h, 'a) ws_client_scheme" where
  "stop_read_timer s = emit Read_timer_cancel s"

section \<open>Closing\<close>

definition cancel_pending_operations :: "('h, 'a) ws_client_scheme \<Rightarrow> ('h, 'a) ws_client_scheme" where
  "cancel_pending_operations s =
     (let s1 = emit Cancel_resolver (stop_read_timer (stop_ping_timer s))
      in case wc_ws s1 of None \<Rightarrow> s1 | Some sid \<Rightarrow> emit (Cancel_stream sid) s1)"

text \<open>
  One round of the loop of \<^verbatim>\<open>fail_pending_writes\<close>. The handler that is called may call back into the
  client, so that the loop ends needs an argument: \<open>fail_loop\<close> is given as many rounds as there are
  queued writes, and \<open>fail_pending_writes_terminates\<close> (theory \<open>WebSocket_Properties\<close>) shows that this is the
  whole loop.
\<close>

definition fail_one :: "('h, 'a) ws_env \<Rightarrow> ('h, 'a) ws_client_scheme \<Rightarrow> ('h, 'a) ws_client_scheme" where
  "fail_one E s =
     (case get_front (wc_write_slots s) of
        None \<Rightarrow> emit Assert_failed s
      | Some slot \<Rightarrow>
          (case pop_front (set_front (wc_write_slots s) (slot\<lparr>slot_handler := None\<rparr>)) of
             None \<Rightarrow> emit Assert_failed s
           | Some slots \<Rightarrow>
               call_write E (slot_handler slot) (Some operation_canceled)
                 (emit (Pop_slot (payload slot)) (s\<lparr>wc_write_slots := slots\<rparr>))))"

fun fail_loop :: "('h, 'a) ws_env \<Rightarrow> nat \<Rightarrow> ('h, 'a) ws_client_scheme \<Rightarrow> ('h, 'a) ws_client_scheme" where
  "fail_loop E 0 s = s"
| "fail_loop E (Suc n) s = (if is_empty (wc_write_slots s) then s else fail_loop E n (fail_one E s))"

definition fail_pending_writes :: "('h, 'a) ws_env \<Rightarrow> ('h, 'a) ws_client_scheme \<Rightarrow> ('h, 'a) ws_client_scheme" where
  "fail_pending_writes E s =
     (let s1 = s\<lparr>wc_write_generation := wc_write_generation s + 1, wc_write_in_progress := False\<rparr>
      in fail_loop E (get_size (wc_write_slots s1)) s1)"

definition do_close :: "('h, 'a) ws_env \<Rightarrow> 'h option \<Rightarrow> ('h, 'a) ws_client_scheme \<Rightarrow> ('h, 'a) ws_client_scheme" where
  "do_close E handler s =
     (if wc_state s = closing then call_close E handler None s
      else if wc_state s \<noteq> connected \<and> wc_state s \<noteq> connecting then call_close E handler None s
      else
        let s1 = set_state closing s;
            s2 = (case wc_ws s1 of None \<Rightarrow> s1 | Some sid \<Rightarrow> emit (No_timeout sid) s1);
            s3 = cancel_pending_operations s2;
            s4 = fail_pending_writes E s3;
            s5 = close_socket s4
        in call_close E handler None (set_state disconnected s5))"

text \<open>The destructor.\<close>

definition destroy_ws_client :: "('h, 'a) ws_env \<Rightarrow> ('h, 'a) ws_client_scheme \<Rightarrow> ('h, 'a) ws_client_scheme" where
  "destroy_ws_client E s = do_close E None s"

definition fail_connection :: "('h, 'a) ws_env \<Rightarrow> error_code \<Rightarrow> 'h connect_cb option \<Rightarrow>
    ('h, 'a) ws_client_scheme \<Rightarrow> ('h, 'a) ws_client_scheme" where
  "fail_connection E ec handler s = call_connect E handler ec (do_close E None s)"

definition handle_unexpected_disconnect :: "('h, 'a) ws_env \<Rightarrow> error_code \<Rightarrow>
    ('h, 'a) ws_client_scheme \<Rightarrow> ('h, 'a) ws_client_scheme" where
  "handle_unexpected_disconnect E ec s =
     (if wc_state s \<noteq> connected then s
      else on_unexpected_disconnect E ec (do_close E None s))"

section \<open>Completions of writes and reads\<close>

definition handle_write :: "('h, 'a) ws_env \<Rightarrow> u64 \<Rightarrow> error_code \<Rightarrow>
    ('h, 'a) ws_client_scheme \<Rightarrow> ('h, 'a) ws_client_scheme" where
  "handle_write E generation ec s =
     (if generation \<noteq> wc_write_generation s \<or> \<not> is_connected s then s
      else case get_front (wc_write_slots s) of
        None \<Rightarrow> emit Assert_failed s
      | Some slot \<Rightarrow>
          (case pop_front (set_front (wc_write_slots s) (slot\<lparr>slot_handler := None\<rparr>)) of
             None \<Rightarrow> emit Assert_failed s
           | Some slots \<Rightarrow>
               let s1 = emit (Pop_slot (payload slot))
                          (s\<lparr>wc_write_slots := slots, wc_write_in_progress := False\<rparr>);
                   s2 = call_write E (slot_handler slot) ec s1
               in if ec \<noteq> None then handle_unexpected_disconnect E ec s2 else start_write s2))"

definition start_read :: "('h, 'a) ws_client_scheme \<Rightarrow> ('h, 'a) ws_client_scheme" where
  "start_read s =
     (case wc_ws s of None \<Rightarrow> s
      | Some sid \<Rightarrow> if \<not> is_connected s then s else start_op (Read_op sid) (emit (Async_read sid) s))"

text \<open>\<open>now\<close> is what \<^verbatim>\<open>steady_clock::now()\<close> returns.\<close>

definition handle_read :: "('h, 'a) ws_env \<Rightarrow> time_point \<Rightarrow> error_code \<Rightarrow>
    ('h, 'a) ws_client_scheme \<Rightarrow> ('h, 'a) ws_client_scheme" where
  "handle_read E now ec s =
     (if \<not> is_connected s then s
      else if ec \<noteq> None then handle_unexpected_disconnect E ec s
      else
        let s1 = s\<lparr>wc_last_read_time := now\<rparr>;
            s2 = (case wc_message_handler s1 of None \<Rightarrow> s1
                  | Some h \<Rightarrow>
                      fst (run_handler E h (Arg_data (wc_read_buffer s1))
                             (emit (Called_message h (wc_read_buffer s1)) s1)))
        in start_read (s2\<lparr>wc_read_buffer := []\<rparr>))"

definition handle_ping_timer :: "('h, 'a) ws_env \<Rightarrow> error_code \<Rightarrow>
    ('h, 'a) ws_client_scheme \<Rightarrow> ('h, 'a) ws_client_scheme" where
  "handle_ping_timer E ec s =
     (if ec \<noteq> None \<or> \<not> is_connected s \<or> wc_ping_interval s \<le> 0 then s
      else
        let (s1, ping_ec) =
              (case wc_ping_message_generator s of
                 Some h \<Rightarrow>
                   (case run_handler E h Arg_none (emit (Called_generator h) s) of
                      (s', message) \<Rightarrow> do_write E message None s')
               | None \<Rightarrow> do_protocol_ping s)
        in start_ping_timer_after
             (if ping_ec = Some no_buffer_space then ping_retry_delay else wc_ping_interval s1) s1)"

definition handle_read_timeout :: "('h, 'a) ws_env \<Rightarrow> time_point \<Rightarrow> error_code \<Rightarrow>
    ('h, 'a) ws_client_scheme \<Rightarrow> ('h, 'a) ws_client_scheme" where
  "handle_read_timeout E now ec s =
     (if ec \<noteq> None \<or> \<not> is_connected s \<or> wc_read_timeout s \<le> 0 then s
      else if now < wc_last_read_time s + wc_read_timeout s then start_read_timer s
      else handle_unexpected_disconnect E (Some timed_out) s)"

section \<open>Connecting\<close>

definition do_connect :: "('h, 'a) ws_env \<Rightarrow> 'h connect_cb option \<Rightarrow>
    ('h, 'a) ws_client_scheme \<Rightarrow> ('h, 'a) ws_client_scheme" where
  "do_connect E handler s =
     (if wc_state s \<noteq> disconnected then call_connect E handler (Some already_connected) s
      else
        let s1 = create_stream (set_state connecting s)
        in start_op (Resolve_op handler) (emit (Async_resolve (wc_host s1) (wc_port s1)) s1))"

definition handle_resolve :: "('h, 'a) ws_env \<Rightarrow> 'h connect_cb option \<Rightarrow> error_code \<Rightarrow>
    ('h, 'a) ws_client_scheme \<Rightarrow> ('h, 'a) ws_client_scheme" where
  "handle_resolve E handler ec s =
     (case wc_ws s of None \<Rightarrow> s | Some sid \<Rightarrow>
        if \<not> is_connecting s then s
        else if ec \<noteq> None then fail_connection E ec handler s
        else start_op (Connect_op handler)
               (emit (Async_connect sid) (emit (Expires_after sid connect_timeout) s)))"

text \<open>
  What a completion brings: its error code, the result of setting the socket option, what OpenSSL
  answers, the received bytes, and the time at which the handler runs.
\<close>

record completion =
  comp_ec :: error_code
  comp_option_ec :: error_code
  comp_tls_host_ok :: bool
  comp_ssl_error :: int
  comp_verify_ec :: error_code
  comp_bytes :: string
  comp_now :: time_point

definition handle_connect :: "('h, 'a) ws_env \<Rightarrow> 'h connect_cb option \<Rightarrow> completion \<Rightarrow>
    ('h, 'a) ws_client_scheme \<Rightarrow> ('h, 'a) ws_client_scheme" where
  "handle_connect E handler c s =
     (case wc_ws s of None \<Rightarrow> s | Some sid \<Rightarrow>
        if \<not> is_connecting s then s
        else if comp_ec c \<noteq> None then fail_connection E (comp_ec c) handler s
        else
          let s1 = emit (Set_no_delay sid) s in
          if comp_option_ec c \<noteq> None then fail_connection E (comp_option_ec c) handler s1
          else
            let s2 = emit (Expires_after sid connect_timeout) s1;
                s3 = emit (Tls_host sid (wc_host s2) (comp_tls_host_ok c)) s2
            in if \<not> comp_tls_host_ok c
               then fail_connection E (make_code (comp_ssl_error c)) handler s3
               else
                 let s4 = emit (Verify_host sid (wc_host s3) (comp_verify_ec c)) s3 in
                 if comp_verify_ec c \<noteq> None then fail_connection E (comp_verify_ec c) handler s4
                 else start_op (Ssl_handshake_op handler) (emit (Async_tls_handshake sid) s4))"

definition handle_ssl_handshake :: "('h, 'a) ws_env \<Rightarrow> 'h connect_cb option \<Rightarrow> error_code \<Rightarrow>
    ('h, 'a) ws_client_scheme \<Rightarrow> ('h, 'a) ws_client_scheme" where
  "handle_ssl_handshake E handler ec s =
     (case wc_ws s of None \<Rightarrow> s | Some sid \<Rightarrow>
        if \<not> is_connecting s then s
        else if ec \<noteq> None then fail_connection E ec handler s
        else
          let s1 = emit (Suggested_timeout sid) (emit (Expires_never sid) s)
          in start_op (Websocket_handshake_op handler)
               (emit (Async_websocket_handshake sid (wc_host s1) (wc_resource s1)) s1))"

definition handle_websocket_handshake :: "('h, 'a) ws_env \<Rightarrow> time_point \<Rightarrow> 'h connect_cb option \<Rightarrow>
    error_code \<Rightarrow> ('h, 'a) ws_client_scheme \<Rightarrow> ('h, 'a) ws_client_scheme" where
  "handle_websocket_handshake E now handler ec s =
     (case wc_ws s of None \<Rightarrow> s | Some sid \<Rightarrow>
        if \<not> is_connecting s then s
        else if ec \<noteq> None then fail_connection E ec handler s
        else
          let s1 = call_connect E handler None (set_state connected s);
              s2 = s1\<lparr>wc_last_read_time := now\<rparr>
          in start_ping_timer (start_read (start_read_timer s2)))"

section \<open>Running the client\<close>

text \<open>A posted closure is run.\<close>

fun run_task :: "('h, 'a) ws_env \<Rightarrow> time_point \<Rightarrow> 'h task \<Rightarrow>
    ('h, 'a) ws_client_scheme \<Rightarrow> ('h, 'a) ws_client_scheme" where
  "run_task E now (Do_connect handler) s = do_connect E handler s"
| "run_task E now (Do_write message handler) s = fst (do_write E message handler s)"
| "run_task E now (Do_close handler) s = do_close E handler s"
| "run_task E now (Assign_message_handler handler) s = s\<lparr>wc_message_handler := handler\<rparr>"
| "run_task E now (Assign_disconnect_handler handler) s = s\<lparr>wc_disconnect_handler := handler\<rparr>"
| "run_task E now (Assign_ping_message_generator handler) s = s\<lparr>wc_ping_message_generator := handler\<rparr>"
| "run_task E now (Assign_ping_interval interval) s =
     (let s1 = s\<lparr>wc_ping_interval := interval\<rparr>
      in if \<not> is_connected s1 then s1 else start_ping_timer (stop_ping_timer s1))"
| "run_task E now (Assign_read_timeout timeout) s =
     (let s1 = s\<lparr>wc_read_timeout := timeout\<rparr>
      in if \<not> is_connected s1 then s1
         else start_read_timer (stop_read_timer (s1\<lparr>wc_last_read_time := now\<rparr>)))"

text \<open>
  A pending operation completes. A read has appended what it received to the read buffer when its
  handler runs.
\<close>

fun complete_op :: "('h, 'a) ws_env \<Rightarrow> 'h async_op \<Rightarrow> completion \<Rightarrow>
    ('h, 'a) ws_client_scheme \<Rightarrow> ('h, 'a) ws_client_scheme" where
  "complete_op E (Resolve_op handler) c s = handle_resolve E handler (comp_ec c) s"
| "complete_op E (Connect_op handler) c s = handle_connect E handler c s"
| "complete_op E (Ssl_handshake_op handler) c s = handle_ssl_handshake E handler (comp_ec c) s"
| "complete_op E (Websocket_handshake_op handler) c s =
     handle_websocket_handshake E (comp_now c) handler (comp_ec c) s"
| "complete_op E (Read_op sid) c s =
     handle_read E (comp_now c) (comp_ec c) (s\<lparr>wc_read_buffer := wc_read_buffer s @ comp_bytes c\<rparr>)"
| "complete_op E (Write_op sid generation) c s = handle_write E generation (comp_ec c) s"
| "complete_op E Ping_wait c s = handle_ping_timer E (comp_ec c) s"
| "complete_op E Read_wait c s = handle_read_timeout E (comp_now c) (comp_ec c) s"

text \<open>
  Inputs: a call of the public interface on some thread; a call of \<^verbatim>\<open>write_now\<close> by other code on the
  executor thread or on another thread; the executor runs the \<open>i\<close>-th posted closure, or the handler
  of the \<open>i\<close>-th pending operation. No order is assumed between them.
\<close>

datatype 'h ws_input =
    In_api "'h api_call"
  | In_write_now bool string
  | In_task nat time_point
  | In_complete nat completion

fun ws_step :: "('h, 'a) ws_env \<Rightarrow> ('h, 'a) ws_client_scheme \<Rightarrow> 'h ws_input \<Rightarrow> ('h, 'a) ws_client_scheme" where
  "ws_step E s (In_api call) = api call s"
| "ws_step E s (In_write_now on_executor_thread message) = fst (write_now on_executor_thread message s)"
| "ws_step E s (In_task i now) =
     (if i < length (wc_posted s)
      then run_task E now (wc_posted s ! i)
             (s\<lparr>wc_posted := take i (wc_posted s) @ drop (Suc i) (wc_posted s)\<rparr>)
      else s)"
| "ws_step E s (In_complete i c) =
     (if i < length (wc_pending s)
      then complete_op E (wc_pending s ! i) c
             (s\<lparr>wc_pending := take i (wc_pending s) @ drop (Suc i) (wc_pending s)\<rparr>)
      else s)"

fun ws_run :: "('h, 'a) ws_env \<Rightarrow> ('h, 'a) ws_client_scheme \<Rightarrow> 'h ws_input list \<Rightarrow> ('h, 'a) ws_client_scheme" where
  "ws_run E s [] = s"
| "ws_run E s (i # is) = ws_run E (ws_step E s i) is"

end
