(* ===== verification/WebSocket_Writes.thy ===== *)
theory WebSocket_Writes
  imports Secure_WebSocket_Client
begin

text \<open>
  The write queue of \<^verbatim>\<open>SecureWebSocketClient\<close> under every interleaving of public calls, posted closures
  and completions, with handlers that call back into the client. What the proofs need of a client's
  state is its \<open>core\<close>; \<open>core_inv\<close> is the invariant on it, and \<open>quiet\<close> what holds in addition
  whenever no function of the client is running. The locale \<open>ws_handlers\<close> states what a client object
  may rely on of the handlers it calls; it is interpreted for the objects of the base class with
  arbitrary user programs.
\<close>

section \<open>The state that the writes depend on\<close>

record 'h wcore =
  k_slots :: "'h write_slot ring"
  k_gen :: u64
  k_busy :: bool
  k_state :: connection_state
  k_ws :: "nat option"
  k_made :: nat
  k_ops :: "(nat \<times> u64) list"
  k_pushed :: "(write_type \<times> string \<times> 'h option) list"
  k_popped :: "(write_type \<times> string \<times> 'h option) list"
  k_started :: "string option list"
  k_failed :: bool

fun pushed_by :: "'h ws_event \<Rightarrow> (write_type \<times> string \<times> 'h option) list" where
  "pushed_by (Push_slot x) = [x]"
| "pushed_by _ = []"

fun popped_by :: "'h ws_event \<Rightarrow> (write_type \<times> string \<times> 'h option) list" where
  "popped_by (Pop_slot x) = [x]"
| "popped_by _ = []"

text \<open>
  What is handed to Beast for a slot: nothing but the request for a ping, or the bytes of a message.
\<close>

definition wire :: "write_type \<times> string \<times> 'h option \<Rightarrow> string option" where
  "wire x = (if fst x = Ping then None else Some (fst (snd x)))"

fun started_by :: "'h ws_event \<Rightarrow> string option list" where
  "started_by (Async_ping sid) = [None]"
| "started_by (Async_write sid msg) = [Some msg]"
| "started_by _ = []"

fun write_op :: "'h async_op \<Rightarrow> (nat \<times> u64) list" where
  "write_op (Write_op sid g) = [(sid, g)]"
| "write_op _ = []"

definition core :: "('h, 'a) ws_client_scheme \<Rightarrow> 'h wcore" where
  "core s =
     \<lparr>k_slots = wc_write_slots s, k_gen = wc_write_generation s, k_busy = wc_write_in_progress s,
      k_state = wc_state s, k_ws = wc_ws s, k_made = wc_streams_made s,
      k_ops = concat (map write_op (wc_pending s)),
      k_pushed = concat (map pushed_by (wc_trace s)), k_popped = concat (map popped_by (wc_trace s)),
      k_started = concat (map started_by (wc_trace s)),
      k_failed = (Assert_failed \<in> set (wc_trace s))\<rparr>"

lemma core_sel [simp]:
  "k_slots (core s) = wc_write_slots s" "k_gen (core s) = wc_write_generation s"
  "k_busy (core s) = wc_write_in_progress s" "k_state (core s) = wc_state s" "k_ws (core s) = wc_ws s"
  "k_made (core s) = wc_streams_made s" "k_ops (core s) = concat (map write_op (wc_pending s))"
  by (simp_all add: core_def)

lemma core_eqD:
  assumes "core s = core t"
  shows "wc_write_slots s = wc_write_slots t" "wc_write_generation s = wc_write_generation t"
    "wc_write_in_progress s = wc_write_in_progress t" "wc_state s = wc_state t" "wc_ws s = wc_ws t"
    "wc_streams_made s = wc_streams_made t"
  using assms by (simp_all add: core_def)

text \<open>Updates that leave the core alone, and those that do not.\<close>

fun silent :: "'h ws_event \<Rightarrow> bool" where
  "silent (Push_slot x) = False"
| "silent (Pop_slot x) = False"
| "silent Assert_failed = False"
| "silent (Async_write sid msg) = False"
| "silent (Async_ping sid) = False"
| "silent _ = True"

lemma core_emit [simp]: "silent ev \<Longrightarrow> core (emit ev s) = core s"
  by (cases ev) (simp_all add: core_def emit_def)

lemma core_start_op [simp]: "write_op p = [] \<Longrightarrow> core (start_op p s) = core s"
  by (simp add: core_def start_op_def)

lemma core_post [simp]: "core (post t s) = core s"
  by (simp add: core_def post_def emit_def)

lemma core_other_fields [simp]:
  "core (s\<lparr>wc_host := x1\<rparr>) = core s" "core (s\<lparr>wc_port := x1\<rparr>) = core s"
  "core (s\<lparr>wc_resource := x1\<rparr>) = core s" "core (s\<lparr>wc_read_buffer := x1\<rparr>) = core s"
  "core (s\<lparr>wc_message_handler := x2\<rparr>) = core s" "core (s\<lparr>wc_disconnect_handler := x2\<rparr>) = core s"
  "core (s\<lparr>wc_ping_message_generator := x2\<rparr>) = core s" "core (s\<lparr>wc_ping_interval := x3\<rparr>) = core s"
  "core (s\<lparr>wc_read_timeout := x3\<rparr>) = core s" "core (s\<lparr>wc_last_read_time := x3\<rparr>) = core s"
  "core (s\<lparr>wc_posted := x4\<rparr>) = core s" "core (ws_client.more_update f s) = core s"
  by (simp_all add: core_def)

lemma core_api [simp]: "core (api c s) = core s"
  by (cases c) simp_all

lemma core_timers [simp]:
  "core (start_ping_timer_after d s) = core s" "core (start_ping_timer s) = core s"
  "core (stop_ping_timer s) = core s" "core (start_read_timer s) = core s"
  "core (stop_read_timer s) = core s" "core (start_read s) = core s"
  "core (close_socket s) = core s" "core (cancel_pending_operations s) = core s"
  by (simp_all add: start_ping_timer_def start_ping_timer_after_def stop_ping_timer_def
      start_read_timer_def stop_read_timer_def start_read_def close_socket_def
      cancel_pending_operations_def Let_def split: option.split)

section \<open>The invariant\<close>

definition slots_ok :: "'h write_slot ring \<Rightarrow> bool" where
  "slots_ok r \<longleftrightarrow> ring_inv r \<and> get_capacity r = write_slot_count \<and>
     (\<forall>x \<in> set (buffer r). length (slot_data x) = write_slot_size \<and> slot_size x \<le> write_slot_size)"

definition live :: "connection_state \<Rightarrow> bool" where
  "live st \<longleftrightarrow> st = connecting \<or> st = connected"

text \<open>
  What was handed to Beast is in the order of the queue and ends, at most, with its front.
\<close>

definition sent_in_order :: "'h wcore \<Rightarrow> bool" where
  "sent_in_order k \<longleftrightarrow> subseq (k_started k) (map wire (if k_state k = closing then k_pushed k else
     k_popped k @ (if k_busy k then [payload (hd (queued (k_slots k)))] else [])))"

text \<open>
  The queue is well-formed and holds what was pushed and not yet popped, in order; what was handed to
  Beast is in that order; a write is in
  progress only on a connection with a queued write; at most one write of the current generation is
  outstanding, exactly when one is in progress, and it is on the current stream; no other write is
  outstanding on the stream of a live connection; no assertion has failed. The generation is at most
  \<open>n\<close>.
\<close>

definition core_inv :: "nat \<Rightarrow> 'h wcore \<Rightarrow> bool" where
  "core_inv n k \<longleftrightarrow>
     slots_ok (k_slots k) \<and>
     k_pushed k = k_popped k @ map payload (queued (k_slots k)) \<and>
     sent_in_order k \<and>
     \<not> k_failed k \<and>
     (live (k_state k) \<longrightarrow> k_ws k \<noteq> None) \<and>
     (\<forall>sid. k_ws k = Some sid \<longrightarrow> sid < k_made k) \<and>
     (k_busy k \<longrightarrow> k_state k = connected \<and> queued (k_slots k) \<noteq> []) \<and>
     length (filter (\<lambda>x. snd x = k_gen k) (k_ops k)) = (if k_busy k then 1 else 0) \<and>
     (\<forall>(sid, g) \<in> set (k_ops k). g \<le> k_gen k \<and> sid < k_made k \<and>
        (g = k_gen k \<longrightarrow> k_ws k = Some sid) \<and>
        (k_ws k = Some sid \<and> live (k_state k) \<longrightarrow> g = k_gen k)) \<and>
     unat (k_gen k) \<le> n"

text \<open>No queued write is left waiting without a write in progress.\<close>

definition flowing :: "'h wcore \<Rightarrow> bool" where
  "flowing k \<longleftrightarrow> (queued (k_slots k) \<noteq> [] \<longrightarrow> k_busy k)"

definition quiet :: "'h wcore \<Rightarrow> bool" where
  "quiet k \<longleftrightarrow> k_state k \<noteq> closing \<and> flowing k"

lemma sent_in_order_frame [simp]:
  "sent_in_order (k\<lparr>k_ops := x1\<rparr>) = sent_in_order k" "sent_in_order (k\<lparr>k_gen := x2\<rparr>) = sent_in_order k"
  "sent_in_order (k\<lparr>k_ws := x3\<rparr>) = sent_in_order k" "sent_in_order (k\<lparr>k_made := x4\<rparr>) = sent_in_order k"
  by (simp_all add: sent_in_order_def)

lemma sent_in_order_state:
  "k_state k \<noteq> closing \<Longrightarrow> st \<noteq> closing \<Longrightarrow> sent_in_order (k\<lparr>k_state := st\<rparr>) = sent_in_order k"
  by (simp add: sent_in_order_def)

lemma sent_in_order_start:
  "\<not> k_busy k \<Longrightarrow> k_state k \<noteq> closing \<Longrightarrow> sent_in_order k \<Longrightarrow>
   sent_in_order (k\<lparr>k_busy := True, k_ops := x,
     k_started := k_started k @ [wire (payload (hd (queued (k_slots k))))]\<rparr>)"
  by (simp add: sent_in_order_def)

lemma sent_in_order_push:
  assumes "sent_in_order k" and "queued r = queued (k_slots k) @ [x]" and "k_busy k \<Longrightarrow> queued (k_slots k) \<noteq> []"
  shows "sent_in_order (k\<lparr>k_slots := r, k_pushed := k_pushed k @ [p]\<rparr>)"
  using assms by (auto simp: sent_in_order_def intro: subseq_appendI)

lemma sent_in_order_pop:
  assumes "sent_in_order k" and "queued (k_slots k) = x # queued r" and "\<not> k_busy k"
  shows "sent_in_order (k\<lparr>k_slots := r, k_popped := k_popped k @ [payload x]\<rparr>)"
  using assms by (auto simp: sent_in_order_def intro: subseq_appendI)

lemma sent_in_order_completed:
  assumes "sent_in_order k" and "queued (k_slots k) = x # queued r" and "k_busy k" and "k_state k \<noteq> closing"
  shows "sent_in_order (k\<lparr>k_ops := y, k_busy := False, k_slots := r, k_popped := k_popped k @ [payload x]\<rparr>)"
  using assms by (simp add: sent_in_order_def)

lemma sent_in_order_closing:
  assumes "sent_in_order k" and "k_pushed k = k_popped k @ map payload (queued (k_slots k))"
    and "k_busy k \<Longrightarrow> queued (k_slots k) \<noteq> []"
  shows "sent_in_order (k\<lparr>k_state := closing, k_gen := g, k_busy := False\<rparr>)"
proof (cases "k_busy k \<and> k_state k \<noteq> closing")
  case True
  with assms(3) obtain x xs where q: "queued (k_slots k) = x # xs" by (cases "queued (k_slots k)") auto
  have "subseq (k_started k) ((map wire (k_popped k) @ [wire (payload x)]) @ map wire (map payload xs))"
    using assms(1) True q by (intro subseq_appendI [of _ "map wire (k_popped k) @ [wire (payload x)]"])
      (simp add: sent_in_order_def)
  then show ?thesis using assms(2) q by (simp add: sent_in_order_def)
next
  case False
  with assms(1,2) show ?thesis by (auto simp: sent_in_order_def intro: subseq_appendI split: if_splits)
qed

lemma sent_in_order_disconnected:
  assumes "sent_in_order k" and "k_pushed k = k_popped k @ map payload (queued (k_slots k))"
    and "queued (k_slots k) = []" and "k_state k = closing" and "\<not> k_busy k"
  shows "sent_in_order (k\<lparr>k_state := disconnected\<rparr>)"
  using assms by (simp add: sent_in_order_def)

lemma core_invD:
  assumes "core_inv n k"
  shows "slots_ok (k_slots k)" and "ring_inv (k_slots k)"
    and "k_pushed k = k_popped k @ map payload (queued (k_slots k))" and "\<not> k_failed k"
    and "k_busy k \<Longrightarrow> k_state k = connected" and "k_busy k \<Longrightarrow> queued (k_slots k) \<noteq> []"
    and "live (k_state k) \<Longrightarrow> k_ws k \<noteq> None" and "sent_in_order k"
  using assms by (simp_all add: core_inv_def slots_ok_def)

lemma core_inv_mono: "core_inv n k \<Longrightarrow> n \<le> m \<Longrightarrow> core_inv m k"
  by (auto simp: core_inv_def)


section \<open>Queueing and starting writes\<close>

lemma get_front_queued: "ring_inv r \<Longrightarrow> queued r = x # xs \<Longrightarrow> get_front r = Some x"
  by (simp add: get_front_eq)

lemma core_start_write:
  assumes "ring_inv (wc_write_slots s)"
  shows "core (start_write s) =
    (case wc_ws s of None \<Rightarrow> core s
     | Some sid \<Rightarrow>
         if wc_write_in_progress s \<or> queued (wc_write_slots s) = [] then core s
         else (core s)\<lparr>k_busy := True, k_ops := k_ops (core s) @ [(sid, wc_write_generation s)],
                k_started := k_started (core s) @ [wire (payload (hd (queued (wc_write_slots s))))]\<rparr>)"
proof (cases "queued (wc_write_slots s)")
  case Nil
  then show ?thesis by (simp add: start_write_def is_empty_iff split: option.split)
next
  case (Cons x xs)
  with assms show ?thesis
    by (auto simp: start_write_def is_empty_iff get_front_queued Let_def core_def start_op_def
        emit_def wire_def payload_def split: option.split intro: write_type.exhaust)
qed

lemma core_inv_start:
  assumes "core_inv n k" and "k_state k = connected" and "k_ws k = Some sid" and "\<not> k_busy k"
    and "queued (k_slots k) \<noteq> []"
  shows "core_inv n (k\<lparr>k_busy := True, k_ops := k_ops k @ [(sid, k_gen k)],
           k_started := k_started k @ [wire (payload (hd (queued (k_slots k))))]\<rparr>)"
  using assms sent_in_order_start [of k "k_ops k @ [(sid, k_gen k)]"] by (simp add: core_inv_def live_def)

lemma start_write_inv:
  assumes "core_inv n (core s)" and "wc_state s = connected"
  shows "core_inv n (core (start_write s))" and "flowing (core (start_write s))"
proof -
  from assms core_invD(7) [OF assms(1)] obtain sid where sid: "wc_ws s = Some sid"
    by (auto simp: live_def)
  have r: "ring_inv (wc_write_slots s)" using core_invD(2) [OF assms(1)] by simp
  show "core_inv n (core (start_write s))"
    using assms core_inv_start [OF assms(1), of sid] sid by (simp add: core_start_write [OF r])
  show "flowing (core (start_write s))"
    using sid by (simp add: core_start_write [OF r] flowing_def)
qed

text \<open>What \<^verbatim>\<open>queue_write\<close> does to the queue when it accepts a message.\<close>

lemma fill_slot:
  assumes "slots_ok r" and "\<not> is_full r" and "length msg \<le> write_slot_size"
    and "slot = buffer r ! get_index r (tail r)"
    and "slot' = slot\<lparr>slot_type := ty, slot_data := copy_to_front msg (slot_data slot),
                     slot_size := length msg, slot_handler := h\<rparr>"
  obtains r' where "push_back (set_back_slot r slot') = Some r'" and "slots_ok r'"
    and "queued r' = queued r @ [slot']" and "payload slot' = (ty, msg, h)"
proof -
  have ri: "ring_inv r" using assms(1) by (simp add: slots_ok_def)
  have "slot \<in> set (buffer r)"
    using back_slot_index_less [OF ri] by (simp add: assms(4))
  then have len: "length (slot_data slot) = write_slot_size" using assms(1) by (simp add: slots_ok_def)
  have pl: "payload slot' = (ty, msg, h)" by (simp add: assms(5) payload_def copy_to_front_def)
  obtain r' where r': "push_back (set_back_slot r slot') = Some r'"
    using assms(2) by (auto simp: push_back_def)
  then have v: "push_back_value r slot' = Some r'" by (simp add: push_back_value_eq)
  note d = push_back_value_SomeD [OF ri v]
  have "buffer r' = (buffer r)[get_index r (tail r) := slot']"
    using v by (auto simp: push_back_value_def split: if_splits)
  then have "set (buffer r') \<subseteq> insert slot' (set (buffer r))" by (simp add: set_update_subset_insert)
  moreover have "length (slot_data slot') = write_slot_size" "slot_size slot' \<le> write_slot_size"
    using len assms(3) by (simp_all add: assms(5) copy_to_front_def)
  ultimately have "slots_ok r'"
    using assms(1) d(1) get_capacity_moves(2) [OF v] by (auto simp: slots_ok_def)
  with r' d(2) pl show thesis by (intro that)
qed

definition queue_write_code :: "string \<Rightarrow> ('h, 'a) ws_client_scheme \<Rightarrow> error_code" where
  "queue_write_code msg s =
     (if wc_state s \<noteq> connected \<or> wc_ws s = None then Some not_connected
      else if length msg > write_slot_size then Some message_size
      else if is_full (wc_write_slots s) then Some no_buffer_space else None)"

lemma queue_write_rejects:
  "queue_write_code msg s = Some e \<Longrightarrow> queue_write ty msg h s = (s, Some e)"
  by (auto simp: queue_write_def queue_write_code_def split: if_splits)

lemma queue_write_accepts:
  assumes "queue_write_code msg s = None" and "slots_ok (wc_write_slots s)"
  obtains r x where "slots_ok r" and "queued r = queued (wc_write_slots s) @ [x]"
    and "payload x = (ty, msg, h)"
    and "queue_write ty msg h s =
           (start_write (emit (Push_slot (ty, msg, h)) (s\<lparr>wc_write_slots := r\<rparr>)), None)"
proof -
  let ?r = "wc_write_slots s" and ?slot = "buffer (wc_write_slots s) ! get_index (wc_write_slots s) (tail (wc_write_slots s))"
  define x where "x = ?slot\<lparr>slot_type := ty, slot_data := copy_to_front msg (slot_data ?slot),
    slot_size := length msg, slot_handler := h\<rparr>"
  have c: "wc_state s = connected" "wc_ws s \<noteq> None" "length msg \<le> write_slot_size" "\<not> is_full ?r"
    using assms(1) by (auto simp: queue_write_code_def split: if_splits)
  obtain r where r: "push_back (set_back_slot ?r x) = Some r" "slots_ok r" "queued r = queued ?r @ [x]"
      "payload x = (ty, msg, h)"
    using fill_slot [OF assms(2) c(4) c(3) refl x_def] by metis
  have "get_back_slot ?r = Some ?slot" using c(4) by (simp add: get_back_slot_def)
  with c r(1,4) have "queue_write ty msg h s =
      (start_write (emit (Push_slot (ty, msg, h)) (s\<lparr>wc_write_slots := r\<rparr>)), None)"
    by (simp add: queue_write_def x_def)
  with r show thesis by (intro that)
qed

lemma core_inv_push:
  assumes "core_inv n k" and "slots_ok r" and "queued r = queued (k_slots k) @ [x]"
  shows "core_inv n (k\<lparr>k_slots := r, k_pushed := k_pushed k @ [payload x]\<rparr>)"
  using assms sent_in_order_push [of k r x "payload x"] by (simp add: core_inv_def)

lemma core_push: "core (emit (Push_slot p) (s\<lparr>wc_write_slots := r\<rparr>)) =
    (core s)\<lparr>k_slots := r, k_pushed := k_pushed (core s) @ [p]\<rparr>"
  by (simp add: core_def emit_def)


section \<open>Handlers that are owed a call\<close>

text \<open>
  A handler passed to \<^verbatim>\<open>write\<close>, \<^verbatim>\<open>close\<close> or \<^verbatim>\<open>connect\<close> is carried by the posted closure, then by a write
  slot or a pending operation, until it is called. \<open>balanced M s\<close>: the handlers given to the client
  are the ones it still holds, the ones it has called and those in \<open>M\<close>.
\<close>

datatype 'h owed = Write_handler 'h | Close_handler 'h | Connect_handler 'h

fun cb_owes :: "'h connect_cb option \<Rightarrow> 'h owed multiset" where
  "cb_owes (Some (User_cb h)) = {#Connect_handler h#}"
| "cb_owes _ = {#}"

fun task_owes :: "'h task \<Rightarrow> 'h owed multiset" where
  "task_owes (Do_write msg (Some h)) = {#Write_handler h#}"
| "task_owes (Do_close (Some h)) = {#Close_handler h#}"
| "task_owes (Do_connect cb) = cb_owes cb"
| "task_owes _ = {#}"

fun op_owes :: "'h async_op \<Rightarrow> 'h owed multiset" where
  "op_owes (Resolve_op cb) = cb_owes cb"
| "op_owes (Connect_op cb) = cb_owes cb"
| "op_owes (Ssl_handshake_op cb) = cb_owes cb"
| "op_owes (Websocket_handshake_op cb) = cb_owes cb"
| "op_owes _ = {#}"

definition handler_owes :: "'h option \<Rightarrow> 'h owed multiset" where
  "handler_owes h = (case h of None \<Rightarrow> {#} | Some h \<Rightarrow> {#Write_handler h#})"

lemma handler_owes_simps [simp]:
  "handler_owes None = {#}" "handler_owes (Some h) = {#Write_handler h#}"
  by (simp_all add: handler_owes_def)

fun given_by :: "'h ws_event \<Rightarrow> 'h owed multiset" where
  "given_by (Executor_post t) = task_owes t"
| "given_by _ = {#}"

fun called_by :: "'h ws_event \<Rightarrow> 'h owed multiset" where
  "called_by (Called_write h ec) = {#Write_handler h#}"
| "called_by (Called_close h ec) = {#Close_handler h#}"
| "called_by (Called_connect cb ec) = cb_owes (Some cb)"
| "called_by _ = {#}"

definition given :: "('h, 'a) ws_client_scheme \<Rightarrow> 'h owed multiset" where
  "given s = sum_list (map given_by (wc_trace s))"

definition called :: "('h, 'a) ws_client_scheme \<Rightarrow> 'h owed multiset" where
  "called s = sum_list (map called_by (wc_trace s))"

definition held :: "('h, 'a) ws_client_scheme \<Rightarrow> 'h owed multiset" where
  "held s = sum_list (map task_owes (wc_posted s)) + sum_list (map op_owes (wc_pending s)) +
     sum_list (map (\<lambda>x. handler_owes (slot_handler x)) (queued (wc_write_slots s)))"

definition balanced :: "'h owed multiset \<Rightarrow> ('h, 'a) ws_client_scheme \<Rightarrow> bool" where
  "balanced M s \<longleftrightarrow> given s = held s + called s + M"

lemmas balance_defs = balanced_def given_def called_def held_def

lemma balanced_emit:
  "balanced M (emit ev s) \<longleftrightarrow> given s + given_by ev = held s + called s + called_by ev + M"
  by (simp add: balance_defs emit_def add_ac)

lemma balanced_emit_other [simp]:
  "given_by ev = {#} \<Longrightarrow> called_by ev = {#} \<Longrightarrow> balanced M (emit ev s) = balanced M s"
  by (simp add: balanced_emit) (simp add: balanced_def)

lemma balanced_start_op: "balanced M (start_op p s) \<longleftrightarrow> balanced (M + op_owes p) s"
  by (simp add: balance_defs start_op_def add_ac)

lemma balanced_start_other_op [simp]: "op_owes p = {#} \<Longrightarrow> balanced M (start_op p s) = balanced M s"
  by (simp add: balanced_start_op)

lemma balanced_post [simp]: "balanced M (post t s) = balanced M s"
  by (simp add: post_def balanced_emit) (simp add: balance_defs add_ac)

lemma balanced_other_fields [simp]:
  "balanced M (s\<lparr>wc_host := x1\<rparr>) = balanced M s" "balanced M (s\<lparr>wc_port := x1\<rparr>) = balanced M s"
  "balanced M (s\<lparr>wc_resource := x1\<rparr>) = balanced M s" "balanced M (s\<lparr>wc_read_buffer := x1\<rparr>) = balanced M s"
  "balanced M (s\<lparr>wc_message_handler := x2\<rparr>) = balanced M s"
  "balanced M (s\<lparr>wc_disconnect_handler := x2\<rparr>) = balanced M s"
  "balanced M (s\<lparr>wc_ping_message_generator := x2\<rparr>) = balanced M s"
  "balanced M (s\<lparr>wc_ping_interval := x3\<rparr>) = balanced M s" "balanced M (s\<lparr>wc_read_timeout := x3\<rparr>) = balanced M s"
  "balanced M (s\<lparr>wc_last_read_time := x3\<rparr>) = balanced M s" "balanced M (s\<lparr>wc_ws := x5\<rparr>) = balanced M s"
  "balanced M (s\<lparr>wc_streams_made := x6\<rparr>) = balanced M s" "balanced M (s\<lparr>wc_state := x7\<rparr>) = balanced M s"
  "balanced M (s\<lparr>wc_write_generation := x8\<rparr>) = balanced M s"
  "balanced M (s\<lparr>wc_write_in_progress := x9\<rparr>) = balanced M s"
  "balanced M (ws_client.more_update f s) = balanced M s"
  by (simp_all add: balance_defs)

lemma balanced_api [simp]: "balanced M (api c s) = balanced M s"
  by (cases c) simp_all

lemma balanced_silent_ops [simp]:
  "balanced M (start_ping_timer_after d s) = balanced M s" "balanced M (start_ping_timer s) = balanced M s"
  "balanced M (stop_ping_timer s) = balanced M s" "balanced M (start_read_timer s) = balanced M s"
  "balanced M (stop_read_timer s) = balanced M s" "balanced M (start_read s) = balanced M s"
  "balanced M (close_socket s) = balanced M s" "balanced M (cancel_pending_operations s) = balanced M s"
  "balanced M (start_write s) = balanced M s" "balanced M (set_state st s) = balanced M s"
  "balanced M (create_stream s) = balanced M s"
  by (simp_all add: start_ping_timer_def start_ping_timer_after_def stop_ping_timer_def
      start_read_timer_def stop_read_timer_def start_read_def close_socket_def start_write_def
      set_state_def create_stream_def cancel_pending_operations_def Let_def split: option.split)

text \<open>Pushing a slot moves its handler into the queue, popping it takes the handler out.\<close>

lemma balanced_push:
  assumes "queued r = queued (wc_write_slots s) @ [x]" and "payload x = (ty, msg, h)"
  shows "balanced M (emit (Push_slot p) (s\<lparr>wc_write_slots := r\<rparr>)) \<longleftrightarrow> balanced (M + handler_owes h) s"
  using assms by (simp add: balance_defs emit_def payload_def add_ac)

lemma balanced_pop:
  assumes "queued (wc_write_slots s) = x # queued r" and "balanced M s"
  shows "balanced (M + handler_owes (slot_handler x)) (emit (Pop_slot p) (s\<lparr>wc_write_slots := r\<rparr>))"
  using assms by (simp add: balance_defs emit_def add_ac)

lemma balanced_called_write:
  "balanced M (emit (Called_write h ec) s) \<longleftrightarrow> balanced (M + handler_owes (Some h)) s"
  by (simp add: balance_defs emit_def add_ac)

section \<open>What handlers may do\<close>

text \<open>
  A handler runs on the executor thread and reaches the client only through the public interface:
  it can queue writes, and whatever else it requests is posted. So it keeps every property that
  \<^verbatim>\<open>write_now\<close>, the posting operations and changes of a derived class's own members keep.
\<close>

definition api_closed :: "(('h, 'a) ws_client_scheme \<Rightarrow> bool) \<Rightarrow> bool" where
  "api_closed P \<longleftrightarrow>
     (\<forall>s msg. P s \<longrightarrow> P (fst (write_now True msg s))) \<and> (\<forall>s c. P s \<longrightarrow> P (api c s)) \<and>
     (\<forall>s f. P s \<longrightarrow> P (ws_client.more_update f s))"

text \<open>
  The effect of a handler on the core: from a state with the invariant it stays on the same
  connection, keeps the invariant and the flow of writes, changes nothing while the client is not
  connected, and holds on to every handler that is owed a call.
\<close>

definition handler_ok :: "nat \<Rightarrow> ('h, 'a) ws_client_scheme \<Rightarrow> ('h, 'a) ws_client_scheme \<Rightarrow> bool" where
  "handler_ok n s t \<longleftrightarrow>
     wc_state t = wc_state s \<and> wc_ws t = wc_ws s \<and> wc_write_generation t = wc_write_generation s \<and>
     wc_streams_made t = wc_streams_made s \<and> core_inv n (core t) \<and>
     (flowing (core s) \<longrightarrow> flowing (core t)) \<and>
     (wc_state s \<noteq> connected \<longrightarrow> core t = core s) \<and>
     (\<forall>M. balanced M s \<longrightarrow> balanced M t)"

lemma handler_ok_refl: "core_inv n (core s) \<Longrightarrow> handler_ok n s s"
  by (simp add: handler_ok_def)

lemma handler_ok_same_core:
  assumes "handler_ok n s t" and "core t' = core t" and "\<And>M. balanced M t \<Longrightarrow> balanced M t'"
  shows "handler_ok n s t'"
proof -
  have "wc_state t' = wc_state t" "wc_ws t' = wc_ws t" "wc_write_generation t' = wc_write_generation t"
      "wc_streams_made t' = wc_streams_made t"
    using core_eqD [OF assms(2)] by simp_all
  with assms show ?thesis by (simp add: handler_ok_def)
qed

lemma start_write_frame [simp]:
  "wc_state (start_write s) = wc_state s" "wc_ws (start_write s) = wc_ws s"
  "wc_write_generation (start_write s) = wc_write_generation s"
  "wc_streams_made (start_write s) = wc_streams_made s" "wc_write_slots (start_write s) = wc_write_slots s"
  by (simp_all add: start_write_def start_op_def emit_def Let_def split: option.split)

lemma emit_frame [simp]:
  "wc_state (emit ev s) = wc_state s" "wc_ws (emit ev s) = wc_ws s"
  "wc_write_generation (emit ev s) = wc_write_generation s"
  "wc_streams_made (emit ev s) = wc_streams_made s" "wc_write_slots (emit ev s) = wc_write_slots s"
  "wc_write_in_progress (emit ev s) = wc_write_in_progress s" "wc_pending (emit ev s) = wc_pending s"
  "wc_posted (emit ev s) = wc_posted s" "wc_host (emit ev s) = wc_host s"
  "wc_port (emit ev s) = wc_port s" "wc_resource (emit ev s) = wc_resource s"
  by (simp_all add: emit_def)

lemma queue_write_ok:
  assumes "core_inv n (core s)"
  shows "handler_ok n s (fst (queue_write ty msg None s))"
    and "wc_state s = connected \<Longrightarrow> queue_write_code msg s = None \<Longrightarrow>
      core_inv n (core (fst (queue_write ty msg h s))) \<and> flowing (core (fst (queue_write ty msg h s)))"
    and "queue_write_code msg s = None \<Longrightarrow> balanced (M + handler_owes h) s \<Longrightarrow>
      balanced M (fst (queue_write ty msg h s))"
proof -
  have so: "slots_ok (wc_write_slots s)" using core_invD(1) [OF assms] by simp
  have acc: "core_inv n (core t) \<and> flowing (core t) \<and> wc_state t = wc_state s \<and> wc_ws t = wc_ws s \<and>
      wc_write_generation t = wc_write_generation s \<and> wc_streams_made t = wc_streams_made s \<and>
      (\<forall>M. balanced (M + handler_owes h) s \<longrightarrow> balanced M t)"
    if none: "queue_write_code msg s = None" and t: "t = fst (queue_write ty msg h s)" for h t
  proof -
    have con: "wc_state s = connected" using none by (auto simp: queue_write_code_def split: if_splits)
    obtain r x where rx: "slots_ok r" "queued r = queued (wc_write_slots s) @ [x]"
        "payload x = (ty, msg, h)" "queue_write ty msg h s =
           (start_write (emit (Push_slot (ty, msg, h)) (s\<lparr>wc_write_slots := r\<rparr>)), None)"
      using queue_write_accepts [OF none so] by metis
    have ci: "core_inv n (core (emit (Push_slot (ty, msg, h)) (s\<lparr>wc_write_slots := r\<rparr>)))"
      using core_inv_push [OF assms rx(1), of x] rx(2,3) by (simp add: core_push)
    from start_write_inv [OF ci] con show ?thesis
      by (simp add: t rx(4) balanced_push [OF rx(2,3)])
  qed
  show "handler_ok n s (fst (queue_write ty msg None s))"
  proof (cases "queue_write_code msg s")
    case None
    moreover from this have "wc_state s = connected"
      by (auto simp: queue_write_code_def split: if_splits)
    ultimately show ?thesis using acc [OF None refl, of None]
      by (simp add: handler_ok_def handler_owes_def)
  next
    case (Some e)
    then show ?thesis using assms by (simp add: queue_write_rejects handler_ok_refl)
  qed
  show "core_inv n (core (fst (queue_write ty msg h s))) \<and> flowing (core (fst (queue_write ty msg h s)))"
    if "queue_write_code msg s = None"
    using acc [OF that refl, of h] by simp
  show "balanced M (fst (queue_write ty msg h s))"
    if "queue_write_code msg s = None" "balanced (M + handler_owes h) s"
    using acc [OF that(1) refl, of h] that(2) by simp
qed

lemma handler_ok_trans:
  assumes "handler_ok n s t" and "handler_ok n t u"
  shows "handler_ok n s u"
  using assms by (auto simp: handler_ok_def)

lemma handler_ok_closed: "api_closed (handler_ok n s)"
proof -
  have "handler_ok n s (fst (write_now True msg t))" if "handler_ok n s t" for t msg
    using that queue_write_ok(1) [of n t Message msg]
    by (auto simp: write_now_def intro: handler_ok_trans) (simp add: handler_ok_def)
  moreover have "handler_ok n s (api c t)" "handler_ok n s (ws_client.more_update f t)"
    if "handler_ok n s t" for t c f
    using that by (auto intro: handler_ok_same_core)
  ultimately show ?thesis by (simp add: api_closed_def)
qed

lemma handler_ok_emit_disconnect: "handler_ok n s t \<Longrightarrow> handler_ok n s (emit (Called_disconnect h ec) t)"
  by (auto intro: handler_ok_same_core)

text \<open>What no handler can change while it runs, and that events and operations only accumulate.\<close>

lemma queue_write_frame [simp]:
  "wc_state (fst (queue_write ty msg h s)) = wc_state s" "wc_ws (fst (queue_write ty msg h s)) = wc_ws s"
  "wc_disconnect_handler (fst (queue_write ty msg h s)) = wc_disconnect_handler s"
  "wc_ping_interval (fst (queue_write ty msg h s)) = wc_ping_interval s"
  "wc_host (fst (queue_write ty msg h s)) = wc_host s"
  by (auto simp: queue_write_def start_write_def start_op_def emit_def Let_def split: option.split)

definition extends :: "('h, 'a) ws_client_scheme \<Rightarrow> ('h, 'a) ws_client_scheme \<Rightarrow> bool" where
  "extends s t \<longleftrightarrow> wc_state t = wc_state s \<and> wc_ws t = wc_ws s \<and>
     wc_disconnect_handler t = wc_disconnect_handler s \<and> wc_ping_interval t = wc_ping_interval s \<and>
     wc_read_timeout t = wc_read_timeout s \<and>
     (\<exists>es. wc_trace t = wc_trace s @ es) \<and> (\<exists>ps. wc_pending t = wc_pending s @ ps)"

lemma extends_refl [simp]: "extends s s"
  by (simp add: extends_def)

lemma extends_trans: "extends s t \<Longrightarrow> extends t u \<Longrightarrow> extends s u"
  by (auto simp: extends_def)

lemma extends_start_write: "extends s (start_write s)"
  by (auto simp: extends_def start_write_def start_op_def emit_def Let_def split: option.split)

lemma extends_queue_write: "extends s (fst (queue_write ty msg h s))"
proof -
  have "extends s (emit ev (s\<lparr>wc_write_slots := r\<rparr>))" "extends s (emit ev s)" for ev r
    by (simp_all add: extends_def emit_def)
  then show ?thesis
    by (auto simp: queue_write_def Let_def split: option.split intro: extends_trans [OF _ extends_start_write])
qed

lemma extends_api: "extends s (api c s)"
  by (cases c) (simp_all add: extends_def post_def emit_def)

lemma extends_closed: "api_closed (extends s)"
proof -
  have "extends s (fst (write_now True msg t))" "extends s (api c t)" "extends s (ws_client.more_update f t)"
    if "extends s t" for t msg c f
  proof -
    show "extends s (fst (write_now True msg t))"
      using extends_trans [OF that extends_queue_write] by (simp add: write_now_def)
    show "extends s (api c t)" using that extends_api by (rule extends_trans)
    show "extends s (ws_client.more_update f t)" using that by (simp add: extends_def)
  qed
  then show ?thesis by (simp add: api_closed_def)
qed

locale ws_handlers =
  fixes E :: "('h, 'a) ws_env"
  assumes handler_closed: "api_closed P \<Longrightarrow> P s \<Longrightarrow> P (fst (run_handler E h arg s))"
    and connect_cb_closed: "api_closed P \<Longrightarrow> P s \<Longrightarrow> P (run_connect_cb E cb ec s)"
    and disconnect_closed: "api_closed P \<Longrightarrow> (\<And>s h. P s \<Longrightarrow> P (emit (Called_disconnect h ec) s)) \<Longrightarrow>
      P s \<Longrightarrow> P (on_unexpected_disconnect E ec s)"
begin

lemma call_write_ok:
  assumes "core_inv n (core s)"
  shows "handler_ok n (case h of None \<Rightarrow> s | Some h \<Rightarrow> emit (Called_write h ec) s) (call_write E h ec s)"
  using assms handler_closed [OF handler_ok_closed handler_ok_refl]
  by (auto simp: call_write_def handler_ok_refl split: option.split)

lemma call_close_ok:
  assumes "core_inv n (core s)"
  shows "handler_ok n (case h of None \<Rightarrow> s | Some h \<Rightarrow> emit (Called_close h ec) s) (call_close E h ec s)"
  using assms handler_closed [OF handler_ok_closed handler_ok_refl]
  by (auto simp: call_close_def handler_ok_refl split: option.split)

lemma call_connect_ok:
  assumes "core_inv n (core s)"
  shows "handler_ok n (case cb of None \<Rightarrow> s | Some cb \<Rightarrow> emit (Called_connect cb ec) s) (call_connect E cb ec s)"
  using assms connect_cb_closed [OF handler_ok_closed handler_ok_refl]
  by (auto simp: call_connect_def handler_ok_refl split: option.split)

end

lemma run_prog_closed:
  assumes "api_closed P"
  shows "P s \<Longrightarrow> P (fst (run_prog p s))"
proof (induction p arbitrary: s)
  case (Call_write_now msg k)
  have "P (fst (write_now True msg s))" using assms Call_write_now.prems by (simp add: api_closed_def)
  then show ?case using Call_write_now.IH by (simp add: case_prod_beta)
next
  case (Call_api c k)
  have "P (api c s)" using assms Call_api.prems by (simp add: api_closed_def)
  then show ?case using Call_api.IH by simp
qed simp_all

interpretation base: ws_handlers "base_env u"
proof unfold_locales
  fix P :: "('a, 'b) ws_client_scheme \<Rightarrow> bool" and s h arg cb ec
  assume P: "api_closed P" "P s"
  show "P (fst (run_handler (base_env u) h arg s))"
    using P by (simp add: base_env_def run_user_def run_prog_closed)
  show "P (run_connect_cb (base_env u) cb ec s)"
    using P by (simp add: base_env_def run_user_def run_prog_closed split: connect_cb.split)
  assume "\<And>s h. P s \<Longrightarrow> P (emit (Called_disconnect h ec) s)"
  with P show "P (on_unexpected_disconnect (base_env u) ec s)"
    by (simp add: base_env_def base_on_unexpected_disconnect_def run_user_def run_prog_closed
        split: option.split)
qed

section \<open>Releasing queued writes\<close>

lemma release_front:
  assumes "slots_ok r" and "queued r = x # xs"
  obtains r' where "pop_front (set_front r (x\<lparr>slot_handler := None\<rparr>)) = Some r'" and "slots_ok r'"
    and "queued r' = xs"
proof -
  let ?r = "set_front r (x\<lparr>slot_handler := None\<rparr>)"
  have ri: "ring_inv r" and ne: "\<not> is_empty r" using assms by (simp_all add: slots_ok_def is_empty_iff)
  note f = set_front_simps [OF ri ne, of "x\<lparr>slot_handler := None\<rparr>"]
  have "\<not> is_empty ?r" using f(2) by (simp add: is_empty_iff)
  then obtain r' where r': "pop_front ?r = Some r'" by (auto simp: pop_front_def)
  note d = pop_front_SomeD [OF f(1) r']
  have "length xs < get_size r" using arg_cong [OF assms(2), of length] by simp
  have "x \<in> set (buffer r)"
  proof -
    have "get_index r (head r) < length (buffer r)"
      using ring_inv_bounds [OF ri] by (simp add: get_index_mod flip: get_capacity_def)
    moreover have "x = buffer r ! get_index r (head r)"
      using get_front_queued [OF ri assms(2)] ne by (simp add: get_front_def)
    ultimately show ?thesis by simp
  qed
  then have "length (slot_data x) = write_slot_size" "slot_size x \<le> write_slot_size"
    using assms(1) by (auto simp: slots_ok_def)
  moreover have "buffer r' = (buffer r)[get_index r (head r) := x\<lparr>slot_handler := None\<rparr>]"
    using r' by (auto simp: pop_front_def set_front_def split: if_splits)
  then have "set (buffer r') \<subseteq> insert (x\<lparr>slot_handler := None\<rparr>) (set (buffer r))"
    by (simp add: set_update_subset_insert)
  ultimately have "slots_ok r'"
    using assms(1) d(1) get_capacity_moves(3) [OF r'] by (auto simp: slots_ok_def)
  moreover have "queued r' = xs" using d(2) f(2) assms(2) by simp
  ultimately show thesis using r' by (intro that)
qed

lemma core_pop: "core (emit (Pop_slot p) (s\<lparr>wc_write_slots := r\<rparr>)) =
    (core s)\<lparr>k_slots := r, k_popped := k_popped (core s) @ [p]\<rparr>"
  by (simp add: core_def emit_def)

lemma core_inv_pop:
  assumes "core_inv n k" and "\<not> k_busy k" and "queued (k_slots k) = x # queued r" and "slots_ok r"
  shows "core_inv n (k\<lparr>k_slots := r, k_popped := k_popped k @ [payload x]\<rparr>)"
  using assms sent_in_order_pop [of k x r] by (simp add: core_inv_def)

text \<open>
  Effect of the loop in \<^verbatim>\<open>fail_pending_writes\<close>, and of closing: everything but the queue is as before.
\<close>

definition drained :: "nat \<Rightarrow> ('h, 'a) ws_client_scheme \<Rightarrow> ('h, 'a) ws_client_scheme \<Rightarrow> bool" where
  "drained n s t \<longleftrightarrow>
     wc_state t = wc_state s \<and> wc_ws t = wc_ws s \<and> wc_write_generation t = wc_write_generation s \<and>
     wc_streams_made t = wc_streams_made s \<and> core_inv n (core t) \<and>
     (\<forall>M. balanced M s \<longrightarrow> balanced M t)"

lemma drained_trans: "drained n s t \<Longrightarrow> drained n t u \<Longrightarrow> drained n s u"
  by (simp add: drained_def)

context ws_handlers
begin

lemma fail_one_ok:
  assumes "core_inv n (core s)" and "wc_state s \<noteq> connected" and "queued (wc_write_slots s) = x # xs"
  shows "drained n s (fail_one E s)" and "queued (wc_write_slots (fail_one E s)) = xs"
proof -
  have so: "slots_ok (wc_write_slots s)" and nb: "\<not> wc_write_in_progress s"
    using core_invD(1,5) [OF assms(1)] assms(2) by auto
  obtain r where r: "pop_front (set_front (wc_write_slots s) (x\<lparr>slot_handler := None\<rparr>)) = Some r"
      "slots_ok r" "queued r = xs"
    using release_front [OF so assms(3)] .
  define t where "t = emit (Pop_slot (payload x)) (s\<lparr>wc_write_slots := r\<rparr>)"
  have "get_front (wc_write_slots s) = Some x"
    using so assms(3) by (intro get_front_queued) (simp_all add: slots_ok_def)
  with r(1) have eq: "fail_one E s = call_write E (slot_handler x) (Some operation_canceled) t"
    by (simp add: fail_one_def t_def)
  have ci: "core_inv n (core t)"
    using core_inv_pop [OF assms(1), of x r] nb assms(3) r by (simp add: t_def core_pop)
  note ok = call_write_ok [OF ci, of "Some operation_canceled" "slot_handler x", folded eq]
  have "wc_state t \<noteq> connected" using assms(2) by (simp add: t_def)
  with ok have same: "core (fail_one E s) = core t"
    by (auto simp: handler_ok_def split: option.splits)
  then have sel: "wc_write_slots (fail_one E s) = r" "wc_state (fail_one E s) = wc_state s"
      "wc_ws (fail_one E s) = wc_ws s" "wc_write_generation (fail_one E s) = wc_write_generation s"
      "wc_streams_made (fail_one E s) = wc_streams_made s"
    using core_eqD [OF same] by (simp_all add: t_def)
  show "queued (wc_write_slots (fail_one E s)) = xs" using sel r(3) by simp
  have "balanced M (fail_one E s)" if "balanced M s" for M
  proof -
    have "balanced (M + handler_owes (slot_handler x)) t"
      unfolding t_def using that assms(3) r(3) by (intro balanced_pop) simp
    then have "balanced M (case slot_handler x of None \<Rightarrow> t | Some h \<Rightarrow> emit (Called_write h (Some operation_canceled)) t)"
      by (cases "slot_handler x") (simp_all add: balanced_called_write)
    with ok show ?thesis by (simp add: handler_ok_def)
  qed
  with sel ci same show "drained n s (fail_one E s)" by (simp add: drained_def)
qed

lemma fail_loop_ok:
  assumes "core_inv n (core s)" and "wc_state s \<noteq> connected"
    and "k = length (queued (wc_write_slots s))"
  shows "drained n s (fail_loop E k s) \<and> queued (wc_write_slots (fail_loop E k s)) = []"
  using assms
proof (induction k arbitrary: s)
  case 0
  then have "queued (wc_write_slots s) = []" by (metis length_0_conv)
  with 0 show ?case by (simp add: drained_def)
next
  case (Suc k)
  from Suc.prems(3) obtain x xs where q: "queued (wc_write_slots s) = x # xs"
    by (cases "queued (wc_write_slots s)") auto
  note f = fail_one_ok [OF Suc.prems(1,2) q]
  have "drained n (fail_one E s) (fail_loop E k (fail_one E s)) \<and>
      queued (wc_write_slots (fail_loop E k (fail_one E s))) = []"
    using f Suc.prems(2,3) q by (intro Suc.IH) (simp_all add: drained_def)
  moreover have "\<not> is_empty (wc_write_slots s)" using q by (simp add: is_empty_iff)
  ultimately show ?case using f(1) by (auto intro: drained_trans)
qed

text \<open>The loop as written, without a bound on its rounds, ends with the same result.\<close>

lemma fail_loop_while:
  assumes "core_inv n (core s)" and "wc_state s \<noteq> connected"
    and "k = length (queued (wc_write_slots s))"
  shows "while_option (\<lambda>s. \<not> is_empty (wc_write_slots s)) (fail_one E) s = Some (fail_loop E k s)"
  using assms
proof (induction k arbitrary: s)
  case 0
  then show ?case by (subst while_option_unfold) (simp add: is_empty_iff_size)
next
  case (Suc k)
  from Suc.prems(3) obtain x xs where q: "queued (wc_write_slots s) = x # xs"
    by (cases "queued (wc_write_slots s)") auto
  note f = fail_one_ok [OF Suc.prems(1,2) q]
  have "while_option (\<lambda>s. \<not> is_empty (wc_write_slots s)) (fail_one E) (fail_one E s) =
      Some (fail_loop E k (fail_one E s))"
    using f Suc.prems(2,3) q by (intro Suc.IH) (simp_all add: drained_def)
  moreover have "\<not> is_empty (wc_write_slots s)" using q by (simp add: is_empty_iff)
  ultimately show ?case by (subst while_option_unfold) simp
qed

end


section \<open>Every input keeps the invariant\<close>

text \<open>
  \<open>settles owed n s t\<close>: the client has come to rest in \<open>t\<close>. Of the handlers \<open>owed\<close> a call that are
  not held in \<open>s\<close>, and of those that are, only handlers of \<^verbatim>\<open>connect\<close> may have been dropped: those
  that belong to a connection attempt which was closed in the meantime.
\<close>

fun dropped :: "'h owed \<Rightarrow> bool" where
  "dropped (Connect_handler h) = True"
| "dropped _ = False"

definition settles :: "'h owed multiset \<Rightarrow> nat \<Rightarrow> ('h, 'a) ws_client_scheme \<Rightarrow>
    ('h, 'a) ws_client_scheme \<Rightarrow> bool" where
  "settles owed n s t \<longleftrightarrow> core_inv n (core t) \<and> quiet (core t) \<and>
     (\<forall>M. balanced (M + owed) s \<longrightarrow> (\<exists>L. (\<forall>x \<in># L. dropped x) \<and> balanced (M + L) t))"

lemma settlesI:
  assumes "core_inv n (core t)" and "quiet (core t)" and "\<And>M. balanced (M + owed) s \<Longrightarrow> balanced M t"
  shows "settles owed n s t"
proof -
  have "\<exists>L. (\<forall>x \<in># L. dropped x) \<and> balanced (M + L) t" if "balanced (M + owed) s" for M
    by (rule exI [of _ "{#}"]) (use assms(3) [OF that] in simp)
  with assms show ?thesis by (simp add: settles_def)
qed

lemma settles_refl: "core_inv n (core s) \<Longrightarrow> quiet (core s) \<Longrightarrow> settles {#} n s s"
  by (rule settlesI) simp_all

lemma settles_mono: "settles owed n s t \<Longrightarrow> n \<le> m \<Longrightarrow> settles owed m s t"
  by (auto simp: settles_def intro: core_inv_mono)

lemma settles_same_core:
  assumes "settles owed n s t" and "core u = core t" and "\<And>M. balanced M t \<Longrightarrow> balanced M u"
  shows "settles owed n s u"
  using assms unfolding settles_def by (metis (no_types, lifting))

lemma settles_handler:
  assumes "settles owed n s t" and "handler_ok n t u"
  shows "settles owed n s u"
  using assms unfolding settles_def handler_ok_def quiet_def core_sel by (metis (no_types, lifting))

lemma settles_start:
  assumes "settles owed n s' t" and "\<And>M. balanced M s \<Longrightarrow> balanced M s'"
  shows "settles owed n s t"
  using assms unfolding settles_def by (metis (no_types, lifting))

lemma cb_owes_dropped: "x \<in># cb_owes cb \<Longrightarrow> dropped x"
  by (cases cb rule: cb_owes.cases) auto

lemma settles_drop:
  assumes "core_inv n (core s)" and "quiet (core s)"
  shows "settles (cb_owes cb) n s s"
  unfolding settles_def using assms cb_owes_dropped by blast

lemma settles_called_connect:
  assumes "settles owed n s t"
  shows "settles (owed + cb_owes cb) n s (case cb of None \<Rightarrow> t | Some cb \<Rightarrow> emit (Called_connect cb ec) t)"
    (is "settles _ n s ?u")
proof -
  have c: "core ?u = core t" by (simp split: option.split)
  have b: "balanced (M + cb_owes cb) t \<Longrightarrow> balanced M ?u" for M
    by (cases cb) (simp_all add: balance_defs emit_def add_ac)
  have "\<exists>L. (\<forall>x \<in># L. dropped x) \<and> balanced (M + L) ?u" if "balanced (M + (owed + cb_owes cb)) s" for M
  proof -
    have "balanced ((M + cb_owes cb) + owed) s" using that by (simp add: add_ac)
    then obtain L where L: "\<forall>x \<in># L. dropped x" "balanced (M + cb_owes cb + L) t"
      using assms unfolding settles_def by blast
    have "balanced (M + L) ?u" by (rule b) (use L(2) in \<open>simp add: add_ac\<close>)
    with L(1) show ?thesis by blast
  qed
  with assms c show ?thesis by (simp add: settles_def)
qed

lemma core_inv_closing:
  assumes "core_inv n k" and "Suc n < 2 ^ 64"
  shows "core_inv (Suc n) (k\<lparr>k_state := closing, k_gen := k_gen k + 1, k_busy := False\<rparr>)"
proof -
  have u: "unat (k_gen k) \<le> n" using assms(1) by (simp add: core_inv_def)
  then have w: "unat (k_gen k) < 2 ^ 64 - 1" using assms(2) by simp
  have "\<forall>x \<in> set (k_ops k). snd x < k_gen k + 1"
    using assms(1) less_Suc_generation [OF w] by (auto simp: core_inv_def)
  then have "filter (\<lambda>x. snd x = k_gen k + 1) (k_ops k) = []"
    "\<forall>x \<in> set (k_ops k). snd x \<le> k_gen k + 1 \<and> snd x \<noteq> k_gen k + 1"
    by (auto simp: filter_empty_conv)
  moreover have "sent_in_order (k\<lparr>k_state := closing, k_gen := k_gen k + 1, k_busy := False\<rparr>)"
    using assms(1) by (intro sent_in_order_closing core_invD)
  ultimately show ?thesis
    using assms(1) u by (auto simp: core_inv_def live_def unat_Suc_generation [OF w])
qed

lemma core_inv_disconnected:
  "core_inv n k \<Longrightarrow> k_state k = closing \<Longrightarrow> queued (k_slots k) = [] \<Longrightarrow>
   core_inv n (k\<lparr>k_state := disconnected\<rparr>)"
  using sent_in_order_disconnected [of k] by (auto simp: core_inv_def live_def)

lemma set_state_frame [simp]: "wc_ws (set_state st s) = wc_ws s" "wc_state (set_state st s) = st"
  by (simp_all add: set_state_def)

lemma core_set_state: "core (set_state st s) = (core s)\<lparr>k_state := st\<rparr>"
  by (simp add: core_def set_state_def)

lemma balanced_called_close:
  "balanced (M + (case h of None \<Rightarrow> {#} | Some h \<Rightarrow> {#Close_handler h#})) s \<Longrightarrow>
   balanced M (case h of None \<Rightarrow> s | Some h \<Rightarrow> emit (Called_close h ec) s)"
  by (cases h) (simp_all add: balance_defs emit_def)

context ws_handlers
begin

lemma call_close_settles:
  assumes "core_inv n (core s)" and "quiet (core s)"
  shows "settles (task_owes (Do_close h)) n s (call_close E h ec s)"
proof (rule settles_handler)
  let ?t = "case h of None \<Rightarrow> s | Some h \<Rightarrow> emit (Called_close h ec) s"
  show "settles (task_owes (Do_close h)) n s ?t"
    using assms balanced_called_close [of _ h s ec] by (intro settlesI) (cases h, simp_all)+
  show "handler_ok n ?t (call_close E h ec s)" using assms(1) by (rule call_close_ok)
qed

lemma do_close_live:
  assumes "core_inv n (core s)" and "live (wc_state s)" and "Suc n < 2 ^ 64"
  shows "settles (task_owes (Do_close h)) (Suc n) s (do_close E h s)"
    and "wc_state (do_close E h s) = disconnected"
proof -
  define s2 where "s2 = (case wc_ws s of None \<Rightarrow> set_state closing s
    | Some sid \<Rightarrow> emit (No_timeout sid) (set_state closing s))"
  define s3 where "s3 = cancel_pending_operations s2"
  define s3' where "s3' = s3\<lparr>wc_write_generation := wc_write_generation s3 + 1, wc_write_in_progress := False\<rparr>"
  define s4 where "s4 = fail_loop E (get_size (wc_write_slots s3')) s3'"
  define s5 where "s5 = set_state disconnected (close_socket s4)"
  have eq: "do_close E h s = call_close E h None s5"
    using assms(2) by (auto simp: do_close_def live_def Let_def s2_def s3_def s3'_def s4_def s5_def
        fail_pending_writes_def)
  have "core s3 = (core s)\<lparr>k_state := closing\<rparr>"
    by (simp add: s3_def s2_def core_set_state split: option.split)
  then have "core s3' = (core s)\<lparr>k_state := closing, k_gen := k_gen (core s) + 1, k_busy := False\<rparr>"
    by (simp add: s3'_def core_def)
  then have ci: "core_inv (Suc n) (core s3')" and st: "wc_state s3' = closing"
    using core_inv_closing [OF assms(1,3)] core_sel(4) [of s3'] by simp_all
  have d: "drained (Suc n) s3' s4" "queued (wc_write_slots s4) = []"
    using fail_loop_ok [OF ci] st by (simp_all add: s4_def)
  have s5: "core s5 = (core s4)\<lparr>k_state := disconnected\<rparr>" by (simp add: s5_def core_set_state)
  have ci5: "core_inv (Suc n) (core s5)"
    using d st by (simp add: s5 drained_def core_inv_disconnected)
  have q5: "quiet (core s5)" using d(2) by (simp add: s5 quiet_def flowing_def)
  have "balanced M s5" if "balanced M s" for M
  proof -
    have "balanced M s3'" using that by (simp add: s3'_def s3_def s2_def split: option.split)
    then show ?thesis using d(1) by (simp add: drained_def s5_def)
  qed
  then show "settles (task_owes (Do_close h)) (Suc n) s (do_close E h s)"
    unfolding eq by (rule settles_start [OF call_close_settles [OF ci5 q5]])
  have "handler_ok (Suc n) (case h of None \<Rightarrow> s5 | Some h \<Rightarrow> emit (Called_close h None) s5) (do_close E h s)"
    unfolding eq using ci5 by (rule call_close_ok)
  then show "wc_state (do_close E h s) = disconnected"
    by (cases h) (simp_all add: handler_ok_def s5_def set_state_def)
qed

lemma do_close_settles:
  assumes "core_inv n (core s)" and "quiet (core s)" and "Suc n < 2 ^ 64"
  shows "settles (task_owes (Do_close h)) (Suc n) s (do_close E h s)"
proof (cases "live (wc_state s)")
  case True
  then show ?thesis using assms by (intro do_close_live)
next
  case False
  then have "do_close E h s = call_close E h None s" by (auto simp: do_close_def live_def)
  then show ?thesis
    using settles_mono [OF call_close_settles [OF assms(1,2), of h None], of "Suc n"] by simp
qed

lemma fail_connection_settles:
  assumes "core_inv n (core s)" and "live (wc_state s)" and "Suc n < 2 ^ 64"
  shows "settles (cb_owes cb) (Suc n) s (fail_connection E ec cb s)"
proof -
  let ?t = "do_close E None s"
  have t: "settles {#} (Suc n) s ?t" using do_close_live(1) [OF assms, of None] by simp
  then have "core_inv (Suc n) (core ?t)" by (simp add: settles_def)
  from settles_handler [OF settles_called_connect [OF t, of cb ec] call_connect_ok [OF this]]
  show ?thesis by (simp add: fail_connection_def)
qed

lemma handle_unexpected_disconnect_settles:
  assumes "core_inv n (core s)" and "wc_state s = connected" and "Suc n < 2 ^ 64"
  shows "settles {#} (Suc n) s (handle_unexpected_disconnect E ec s)"
proof -
  let ?t = "do_close E None s"
  have t: "settles {#} (Suc n) s ?t" using do_close_live(1) [OF assms(1) _ assms(3), of None] assms(2)
    by (simp add: live_def)
  then have "core_inv (Suc n) (core ?t)" by (simp add: settles_def)
  from settles_handler [OF t disconnect_closed [OF handler_ok_closed handler_ok_emit_disconnect
        handler_ok_refl [OF this]]]
  show ?thesis using assms(2) by (simp add: handle_unexpected_disconnect_def)
qed

end


lemma core_inv_new_stream:
  assumes "core_inv n k" and "quiet k" and "k_state k = disconnected"
  shows "core_inv n (k\<lparr>k_state := connecting, k_ws := Some (k_made k), k_made := Suc (k_made k)\<rparr>)"
proof -
  have nb: "\<not> k_busy k" using core_invD(5) [OF assms(1)] assms(3) by auto
  then have "filter (\<lambda>x. snd x = k_gen k) (k_ops k) = []" using assms(1) by (simp add: core_inv_def)
  then have "\<forall>x \<in> set (k_ops k). snd x \<noteq> k_gen k" by (simp add: filter_empty_conv)
  moreover have "sent_in_order (k\<lparr>k_state := connecting, k_ws := Some (k_made k), k_made := Suc (k_made k)\<rparr>)"
    using core_invD(8) [OF assms(1)] assms(3) nb by (simp add: sent_in_order_def)
  ultimately show ?thesis using assms nb by (fastforce simp: core_inv_def)
qed

lemma core_inv_connected:
  "core_inv n k \<Longrightarrow> k_state k = connecting \<Longrightarrow> core_inv n (k\<lparr>k_state := connected\<rparr>)"
  by (auto simp: core_inv_def live_def sent_in_order_state)

lemma core_inv_stale_op:
  assumes "core_inv n k" and "k_ops k = xs @ x # ys" and "snd x \<noteq> k_gen k"
  shows "core_inv n (k\<lparr>k_ops := xs @ ys\<rparr>)"
  using assms by (auto simp: core_inv_def)

lemma core_inv_completed:
  assumes "core_inv n k" and "k_ops k = xs @ x # ys" and "snd x = k_gen k"
    and "queued (k_slots k) = z # queued r" and "slots_ok r"
  shows "core_inv n (k\<lparr>k_ops := xs @ ys, k_busy := False, k_slots := r,
           k_popped := k_popped k @ [payload z]\<rparr>)" and "k_busy k"
proof -
  have "length (filter (\<lambda>x. snd x = k_gen k) (k_ops k)) = (if k_busy k then 1 else 0)"
    using assms(1) by (simp add: core_inv_def)
  with assms(2,3) show b: "k_busy k" by (auto split: if_splits)
  have "k_state k \<noteq> closing" using core_invD(5) [OF assms(1) b] by simp
  from sent_in_order_completed [OF core_invD(8) [OF assms(1)] assms(4) b this, of "xs @ ys"] b assms
  show "core_inv n (k\<lparr>k_ops := xs @ ys, k_busy := False, k_slots := r,
           k_popped := k_popped k @ [payload z]\<rparr>)"
    by (auto simp: core_inv_def)
qed

context ws_handlers
begin

lemma call_connect_settles:
  assumes "settles owed n s t"
  shows "settles (owed + cb_owes cb) n s (call_connect E cb ec t)"
proof -
  have "core_inv n (core t)" using assms by (simp add: settles_def)
  from settles_handler [OF settles_called_connect [OF assms] call_connect_ok [OF this]] show ?thesis .
qed

lemma do_connect_settles:
  assumes "core_inv n (core s)" and "quiet (core s)"
  shows "settles (cb_owes cb) n s (do_connect E cb s)"
proof (cases "wc_state s = disconnected")
  case True
  let ?t = "create_stream (set_state connecting s)"
  have c: "core ?t = (core s)\<lparr>k_state := connecting, k_ws := Some (k_made (core s)), k_made := Suc (k_made (core s))\<rparr>"
    by (simp add: core_def create_stream_def set_state_def emit_def)
  have "core_inv n (core ?t)" using core_inv_new_stream [OF assms] True by (simp add: c)
  moreover have "quiet (core ?t)" using assms(2) by (simp add: c quiet_def flowing_def)
  ultimately have "settles (cb_owes cb) n s (start_op (Resolve_op cb) (emit (Async_resolve a b) ?t))" for a b
    by (intro settlesI) (simp_all add: balanced_start_op)
  with True show ?thesis by (simp add: do_connect_def Let_def)
next
  case False
  then show ?thesis
    using call_connect_settles [OF settles_refl [OF assms], of cb "Some already_connected"]
    by (simp add: do_connect_def)
qed

lemma handle_resolve_settles:
  assumes "core_inv n (core s)" and "quiet (core s)" and "Suc n < 2 ^ 64"
  shows "settles (cb_owes cb) (Suc n) s (handle_resolve E cb ec s)"
proof -
  have nxt: "settles (cb_owes cb) (Suc n) s (start_op (Connect_op cb)
      (emit (Async_connect sid) (emit (Expires_after sid connect_timeout) s)))" for sid
    using assms by (intro settlesI) (simp_all add: balanced_start_op core_inv_mono)
  show ?thesis
    using nxt settles_mono [OF settles_drop [OF assms(1,2)], of "Suc n" cb]
      fail_connection_settles [OF assms(1) _ assms(3)]
    by (auto simp: handle_resolve_def is_connecting_def live_def split: option.split)
qed

lemma handle_connect_settles:
  assumes "core_inv n (core s)" and "quiet (core s)" and "Suc n < 2 ^ 64"
  shows "settles (cb_owes cb) (Suc n) s (handle_connect E cb c s)"
proof -
  have nxt: "settles (cb_owes cb) (Suc n) s (start_op (Ssl_handshake_op cb) t)"
    if "core t = core s" "\<And>M. balanced M s \<Longrightarrow> balanced M t" for t
    using assms that by (intro settlesI) (simp_all add: balanced_start_op core_inv_mono)
  have fail: "settles (cb_owes cb) (Suc n) s (fail_connection E ec cb t)"
    if "wc_state s = connecting" "core t = core s" "\<And>M. balanced M s \<Longrightarrow> balanced M t" for t ec
    using settles_start [OF fail_connection_settles [OF _ _ assms(3)], of t s cb ec] that assms(1)
      core_eqD(4) [OF that(2)] by (simp add: live_def)
  show ?thesis
    using nxt fail settles_mono [OF settles_drop [OF assms(1,2)], of "Suc n" cb]
    by (auto simp: handle_connect_def is_connecting_def Let_def split: option.split)
qed

lemma handle_ssl_handshake_settles:
  assumes "core_inv n (core s)" and "quiet (core s)" and "Suc n < 2 ^ 64"
  shows "settles (cb_owes cb) (Suc n) s (handle_ssl_handshake E cb ec s)"
proof -
  have nxt: "settles (cb_owes cb) (Suc n) s (start_op (Websocket_handshake_op cb) t)"
    if "core t = core s" "\<And>M. balanced M s \<Longrightarrow> balanced M t" for t
    using assms that by (intro settlesI) (simp_all add: balanced_start_op core_inv_mono)
  show ?thesis
    using nxt settles_mono [OF settles_drop [OF assms(1,2)], of "Suc n" cb]
      fail_connection_settles [OF assms(1) _ assms(3)]
    by (auto simp: handle_ssl_handshake_def is_connecting_def live_def Let_def split: option.split)
qed

lemma handle_websocket_handshake_settles:
  assumes "core_inv n (core s)" and "quiet (core s)" and "Suc n < 2 ^ 64"
  shows "settles (cb_owes cb) (Suc n) s (handle_websocket_handshake E now cb ec s)"
proof -
  have ok: "settles (cb_owes cb) (Suc n) s (call_connect E cb None (set_state connected s))"
    if "wc_state s = connecting"
  proof -
    have "settles {#} n s (set_state connected s)"
      using assms that by (intro settlesI)
        (simp_all add: core_set_state core_inv_connected quiet_def flowing_def)
    from settles_mono [OF call_connect_settles [OF this], of "Suc n" cb None] show ?thesis by simp
  qed
  have "settles (cb_owes cb) (Suc n) s (start_ping_timer (start_read (start_read_timer
      ((call_connect E cb None (set_state connected s))\<lparr>wc_last_read_time := now\<rparr>))))"
    if "wc_state s = connecting"
    by (rule settles_same_core [OF ok [OF that]]) simp_all
  then show ?thesis
    using settles_mono [OF settles_drop [OF assms(1,2)], of "Suc n" cb]
      fail_connection_settles [OF assms(1) _ assms(3)]
    by (auto simp: handle_websocket_handshake_def is_connecting_def live_def Let_def split: option.split)
qed

lemma handle_read_settles:
  assumes "core_inv n (core s)" and "quiet (core s)" and "Suc n < 2 ^ 64"
  shows "settles {#} (Suc n) s (handle_read E now ec s)"
proof -
  define s1 where "s1 = s\<lparr>wc_last_read_time := now\<rparr>"
  define s2 where "s2 = (case wc_message_handler s1 of None \<Rightarrow> s1
    | Some h \<Rightarrow> fst (run_handler E h (Arg_data (wc_read_buffer s1)) (emit (Called_message h (wc_read_buffer s1)) s1)))"
  have s1: "settles {#} n s (emit (Called_message h d) s1)" "settles {#} n s s1" for h d
    using settles_refl [OF assms(1,2)] by (auto simp: s1_def intro: settles_same_core)
  have "settles {#} n s s2"
    using s1 settles_handler [OF s1(1) handler_closed [OF handler_ok_closed handler_ok_refl]]
    by (auto simp: s2_def settles_def split: option.split)
  then have "settles {#} n s (start_read (s2\<lparr>wc_read_buffer := []\<rparr>))"
    by (rule settles_same_core) simp_all
  from settles_mono [OF this, of "Suc n"]
  have ok: "settles {#} (Suc n) s (start_read (s2\<lparr>wc_read_buffer := []\<rparr>))" by simp
  have "handle_read E now ec s = (if \<not> is_connected s then s
      else if ec \<noteq> None then handle_unexpected_disconnect E ec s
      else start_read (s2\<lparr>wc_read_buffer := []\<rparr>))"
    by (simp only: handle_read_def Let_def s2_def s1_def)
  then show ?thesis
    using ok settles_mono [OF settles_refl [OF assms(1,2)], of "Suc n"]
      handle_unexpected_disconnect_settles [OF assms(1) _ assms(3)]
    by (simp add: is_connected_def)
qed

end


definition remove_op :: "nat \<Rightarrow> ('h, 'a) ws_client_scheme \<Rightarrow> ('h, 'a) ws_client_scheme" where
  "remove_op i s = s\<lparr>wc_pending := take i (wc_pending s) @ drop (Suc i) (wc_pending s)\<rparr>"

definition remove_task :: "nat \<Rightarrow> ('h, 'a) ws_client_scheme \<Rightarrow> ('h, 'a) ws_client_scheme" where
  "remove_task i s = s\<lparr>wc_posted := take i (wc_posted s) @ drop (Suc i) (wc_posted s)\<rparr>"

lemma sum_list_remove_nth:
  fixes f :: "'a \<Rightarrow> 'b :: comm_monoid_add"
  assumes "i < length xs"
  shows "sum_list (map f xs) = sum_list (map f (take i xs)) + sum_list (map f (drop (Suc i) xs)) + f (xs ! i)"
proof -
  have "map f xs = map f (take i xs @ xs ! i # drop (Suc i) xs)"
    using assms by (simp add: id_take_nth_drop [symmetric])
  then have "sum_list (map f xs) = sum_list (map f (take i xs @ xs ! i # drop (Suc i) xs))" by simp
  then show ?thesis by (simp add: add_ac)
qed

lemma balanced_remove_op:
  assumes "i < length (wc_pending s)" and "M = M' + op_owes (wc_pending s ! i)"
  shows "balanced M (remove_op i s) \<longleftrightarrow> balanced M' s"
  using sum_list_remove_nth [OF assms(1), of op_owes] assms(2)
  by (simp add: balance_defs remove_op_def add_ac)

lemma balanced_remove_task:
  assumes "i < length (wc_posted s)" and "M = M' + task_owes (wc_posted s ! i)"
  shows "balanced M (remove_task i s) \<longleftrightarrow> balanced M' s"
  using sum_list_remove_nth [OF assms(1), of task_owes] assms(2)
  by (simp add: balance_defs remove_task_def add_ac)

lemma core_remove_op:
  assumes "i < length (wc_pending s)"
  shows "k_ops (core s) = concat (map write_op (take i (wc_pending s))) @ write_op (wc_pending s ! i) @
      concat (map write_op (drop (Suc i) (wc_pending s)))"
    and "core (remove_op i s) = (core s)\<lparr>k_ops := concat (map write_op (take i (wc_pending s))) @
      concat (map write_op (drop (Suc i) (wc_pending s)))\<rparr>"
proof -
  have "map write_op (wc_pending s) = map write_op (take i (wc_pending s) @ wc_pending s ! i # drop (Suc i) (wc_pending s))"
    using assms by (simp add: id_take_nth_drop [symmetric])
  then show "k_ops (core s) = concat (map write_op (take i (wc_pending s))) @ write_op (wc_pending s ! i) @
      concat (map write_op (drop (Suc i) (wc_pending s)))"
    by simp
  show "core (remove_op i s) = (core s)\<lparr>k_ops := concat (map write_op (take i (wc_pending s))) @
      concat (map write_op (drop (Suc i) (wc_pending s)))\<rparr>"
    by (simp add: core_def remove_op_def)
qed

lemma core_remove_task [simp]: "core (remove_task i s) = core s"
  by (simp add: remove_task_def)

context ws_handlers
begin

lemma handle_write_settles:
  assumes ci: "core_inv n (core s)" and q: "quiet (core s)" and n: "Suc n < 2 ^ 64"
    and i: "i < length (wc_pending s)" and p: "wc_pending s ! i = Write_op sid g"
  shows "settles {#} (Suc n) s (handle_write E g ec (remove_op i s))"
proof -
  define xs ys where "xs = concat (map write_op (take i (wc_pending s)))"
    and "ys = concat (map write_op (drop (Suc i) (wc_pending s)))"
  have ops: "k_ops (core s) = xs @ (sid, g) # ys" and
    rm: "core (remove_op i s) = (core s)\<lparr>k_ops := xs @ ys\<rparr>"
    using core_remove_op [OF i] p by (simp_all add: xs_def ys_def)
  have bal: "balanced M (remove_op i s) \<longleftrightarrow> balanced M s" for M
    using balanced_remove_op [OF i, of M M] p by simp
  have gen: "wc_write_generation (remove_op i s) = wc_write_generation s"
    and st: "wc_state (remove_op i s) = wc_state s" and sl: "wc_write_slots (remove_op i s) = wc_write_slots s"
    by (simp_all add: remove_op_def)
  show ?thesis
  proof (cases "g = wc_write_generation s")
    case False
    then have "core_inv n (core (remove_op i s))"
      using core_inv_stale_op [OF ci ops] by (simp add: rm)
    moreover have "quiet (core (remove_op i s))" using q by (simp add: rm quiet_def flowing_def)
    ultimately have "settles {#} (Suc n) s (remove_op i s)"
      using bal by (intro settlesI) (simp_all add: core_inv_mono)
    with False show ?thesis by (simp add: handle_write_def gen)
  next
    case True
    have busy: "wc_write_in_progress s"
      using ci ops True by (auto simp: core_inv_def split: if_splits)
    then have con: "wc_state s = connected" and "queued (wc_write_slots s) \<noteq> []"
      using core_invD(5,6) [OF ci] by simp_all
    then obtain z zs where z: "queued (wc_write_slots s) = z # zs"
      by (cases "queued (wc_write_slots s)") auto
    have so: "slots_ok (wc_write_slots s)" using core_invD(1) [OF ci] by simp
    obtain r where r: "pop_front (set_front (wc_write_slots s) (z\<lparr>slot_handler := None\<rparr>)) = Some r"
        "slots_ok r" "queued r = zs"
      using release_front [OF so z] .
    define s1 where "s1 = emit (Pop_slot (payload z)) ((remove_op i s)\<lparr>wc_write_slots := r, wc_write_in_progress := False\<rparr>)"
    define s2 where "s2 = call_write E (slot_handler z) ec s1"
    have "get_front (wc_write_slots s) = Some z"
      using so z by (intro get_front_queued) (simp_all add: slots_ok_def)
    with r(1) con True have eq: "handle_write E g ec (remove_op i s) =
        (if ec \<noteq> None then handle_unexpected_disconnect E ec s2 else start_write s2)"
      by (simp add: handle_write_def gen st sl is_connected_def s1_def s2_def Let_def)
    have "core s1 = (core s)\<lparr>k_ops := xs @ ys, k_busy := False, k_slots := r,
        k_popped := k_popped (core s) @ [payload z]\<rparr>"
      using rm by (simp add: s1_def core_def emit_def)
    then have ci1: "core_inv n (core s1)"
      using core_inv_completed(1) [OF ci ops] True z r by simp
    note ok = call_write_ok [OF ci1, of ec "slot_handler z", folded s2_def]
    have st2: "wc_state s2 = connected"
      using ok con by (cases "slot_handler z") (simp_all add: handler_ok_def s1_def st)
    have ci2: "core_inv n (core s2)" using ok by (simp add: handler_ok_def)
    have bal2: "balanced M s2" if "balanced M s" for M
    proof -
      have "balanced (M + handler_owes (slot_handler z)) s1"
        using balanced_pop [of "remove_op i s" z r M] that z r(3)
        by (simp add: s1_def bal sl)
      then have "balanced M (case slot_handler z of None \<Rightarrow> s1 | Some h \<Rightarrow> emit (Called_write h ec) s1)"
        by (cases "slot_handler z") (simp_all add: balanced_called_write)
      with ok show ?thesis by (simp add: handler_ok_def)
    qed
    have "settles {#} (Suc n) s2 (handle_unexpected_disconnect E ec s2)"
      using ci2 st2 n by (rule handle_unexpected_disconnect_settles)
    moreover have "settles {#} (Suc n) s2 (start_write s2)"
      using start_write_inv [OF ci2 st2] st2 by (intro settlesI) (simp_all add: quiet_def core_inv_mono)
    ultimately show ?thesis using bal2 by (simp add: eq settles_start)
  qed
qed


lemma do_write_settles:
  assumes "core_inv n (core s)" and "quiet (core s)"
  shows "settles (handler_owes h) n s (fst (do_write E msg h s))"
proof (cases "queue_write_code msg s")
  case None
  then have con: "wc_state s = connected" by (auto simp: queue_write_code_def split: if_splits)
  obtain r x where "queue_write Message msg h s =
      (start_write (emit (Push_slot (Message, msg, h)) (s\<lparr>wc_write_slots := r\<rparr>)), None)"
    using queue_write_accepts [OF None] core_invD(1) [OF assms(1)] by (metis core_sel(1))
  then have eq: "fst (do_write E msg h s) = fst (queue_write Message msg h s)"
    and st: "wc_state (fst (queue_write Message msg h s)) = connected"
    using con by (simp_all add: do_write_def)
  show ?thesis
    using queue_write_ok(2) [OF assms(1) con None, of Message h]
      queue_write_ok(3) [OF assms(1) None, of _ h Message] st
    by (intro settlesI) (simp_all add: eq quiet_def)
next
  case (Some e)
  then have eq: "fst (do_write E msg h s) = call_write E h (Some e) s"
    by (simp add: do_write_def queue_write_rejects)
  have "settles (handler_owes h) n s (case h of None \<Rightarrow> s | Some h \<Rightarrow> emit (Called_write h (Some e)) s)"
    using assms by (intro settlesI) (cases h, simp_all add: balanced_called_write)+
  from settles_handler [OF this call_write_ok [OF assms(1)]] show ?thesis by (simp add: eq)
qed

lemma handle_ping_timer_settles:
  assumes "core_inv n (core s)" and "quiet (core s)"
  shows "settles {#} n s (handle_ping_timer E ec s)"
proof -
  have pp: "settles {#} n s (fst (do_protocol_ping s))"
    using settles_handler [OF settles_refl [OF assms] queue_write_ok(1) [OF assms(1)]]
    by (simp add: do_protocol_ping_def)
  have gp: "settles {#} n s (fst (do_write E (snd u) None (fst u)))"
    if "u = run_handler E h Arg_none (emit (Called_generator h) s)" for h u
  proof -
    have e: "settles {#} n s (emit (Called_generator h) s)"
      using settles_refl [OF assms] by (rule settles_same_core) simp_all
    have "handler_ok n (emit (Called_generator h) s) (fst u)"
      unfolding that using assms(1) by (intro handler_closed [OF handler_ok_closed] handler_ok_refl) simp
    with e have u: "settles {#} n s (fst u)" by (rule settles_handler)
    then have "settles {#} n (fst u) (fst (do_write E (snd u) None (fst u)))"
      using do_write_settles [of n "fst u" None] by (simp add: settles_def)
    with u show ?thesis
      unfolding settles_def by simp (metis (no_types, lifting) add.assoc union_iff)
  qed
  have arm: "settles {#} n s (start_ping_timer_after d u)" if "settles {#} n s u" for d u
    using that by (rule settles_same_core) simp_all
  show ?thesis
    using assms pp gp [OF refl]
    by (simp add: handle_ping_timer_def settles_refl case_prod_beta Let_def arm split: option.split)
qed

lemma handle_read_timeout_settles:
  assumes "core_inv n (core s)" and "quiet (core s)" and "Suc n < 2 ^ 64"
  shows "settles {#} (Suc n) s (handle_read_timeout E now ec s)"
proof -
  have "settles {#} (Suc n) s s" using settles_refl [OF assms(1,2)] by (rule settles_mono) simp
  moreover from this have "settles {#} (Suc n) s (start_read_timer s)"
    by (rule settles_same_core) simp_all
  ultimately show ?thesis
    using handle_unexpected_disconnect_settles [OF assms(1) _ assms(3)]
    by (auto simp: handle_read_timeout_def is_connected_def)
qed

lemma run_task_settles:
  assumes "core_inv n (core s)" and "quiet (core s)" and "Suc n < 2 ^ 64"
  shows "settles (task_owes tk) (Suc n) s (run_task E now tk s)"
proof -
  have same: "settles {#} (Suc n) s u" if "core u = core s" "\<And>M. balanced M s \<Longrightarrow> balanced M u" for u
    using settles_same_core [OF settles_mono [OF settles_refl [OF assms(1,2)], of "Suc n"], of u] that by simp
  show ?thesis
  proof (cases tk)
    case (Do_write msg h)
    then show ?thesis using settles_mono [OF do_write_settles [OF assms(1,2)], of "Suc n" h msg]
      by (cases h) simp_all
  qed (use same settles_mono [OF do_connect_settles [OF assms(1,2)], of "Suc n"]
      do_close_settles [OF assms] in \<open>simp_all add: Let_def\<close>)
qed

text \<open>An operation other than a write that completes leaves the core for its handler to change.\<close>

lemma complete_other_settles:
  assumes "core_inv n (core s)" and "quiet (core s)" and "Suc n < 2 ^ 64" and "write_op p = []"
  shows "settles (op_owes p) (Suc n) s (complete_op E p c s)"
proof (cases p)
  case (Read_op sid)
  let ?t = "s\<lparr>wc_read_buffer := wc_read_buffer s @ comp_bytes c\<rparr>"
  have "settles {#} (Suc n) ?t (handle_read E (comp_now c) (comp_ec c) ?t)"
    using assms by (intro handle_read_settles) simp_all
  then have "settles {#} (Suc n) s (handle_read E (comp_now c) (comp_ec c) ?t)"
    by (rule settles_start) simp
  with Read_op show ?thesis by simp
qed (use assms handle_resolve_settles handle_connect_settles handle_ssl_handshake_settles
    handle_websocket_handshake_settles handle_read_timeout_settles
    settles_mono [OF handle_ping_timer_settles [OF assms(1,2)], of "Suc n"] in simp_all)

lemma ws_step_settles:
  assumes "core_inv n (core s)" and "quiet (core s)" and "Suc n < 2 ^ 64"
  shows "settles {#} (Suc n) s (ws_step E s inp)"
proof -
  have refl: "settles {#} (Suc n) s s" using settles_refl [OF assms(1,2)] by (rule settles_mono) simp
  have owed: "settles {#} (Suc n) s u"
    if "settles w (Suc n) t u" "\<And>M. balanced (M + w) t \<longleftrightarrow> balanced M s" for w t u
    using that unfolding settles_def by simp
  show ?thesis
  proof (cases inp)
    case (In_api c)
    show ?thesis unfolding In_api ws_step.simps by (rule settles_same_core [OF refl]) simp_all
  next
    case (In_write_now b msg)
    show ?thesis
      using refl settles_mono [OF settles_handler [OF settles_refl [OF assms(1,2)]
          queue_write_ok(1) [OF assms(1)]], of "Suc n"]
      by (simp add: In_write_now write_now_def)
  next
    case (In_task i now)
    show ?thesis
    proof (cases "i < length (wc_posted s)")
      case True
      have "settles (task_owes (wc_posted s ! i)) (Suc n) (remove_task i s)
          (run_task E now (wc_posted s ! i) (remove_task i s))"
        using assms by (intro run_task_settles) simp_all
      from owed [OF this] balanced_remove_task [OF True] True show ?thesis
        by (simp add: In_task remove_task_def)
    qed (simp add: In_task refl)
  next
    case (In_complete i c)
    show ?thesis
    proof (cases "i < length (wc_pending s)")
      case i: True
      have eq: "ws_step E s inp = complete_op E (wc_pending s ! i) c (remove_op i s)"
        using i by (simp add: In_complete remove_op_def)
      show ?thesis
      proof (cases "write_op (wc_pending s ! i) = []")
        case True
        then have c: "core (remove_op i s) = core s"
          using core_remove_op [OF i] by (simp add: core_def)
        have "settles (op_owes (wc_pending s ! i)) (Suc n) (remove_op i s)
            (complete_op E (wc_pending s ! i) c (remove_op i s))"
          using assms True by (intro complete_other_settles) (simp_all add: c)
        from owed [OF this] balanced_remove_op [OF i] show ?thesis by (simp add: eq)
      next
        case False
        then obtain sid g where p: "wc_pending s ! i = Write_op sid g"
          by (cases "wc_pending s ! i") simp_all
        show ?thesis unfolding eq p complete_op.simps using assms i p by (rule handle_write_settles)
      qed
    qed (simp add: In_complete refl)
  qed
qed

end

end
