(* ===== verification/WebSocket_Properties.thy ===== *)
theory WebSocket_Properties
  imports WebSocket_Writes
begin

text \<open>
  The properties of \<^verbatim>\<open>SecureWebSocketClient\<close> itself: runs of an object of the base class from its
  construction, with arbitrary user programs as handlers, under any sequence of inputs.
\<close>

section \<open>Runs\<close>

lemma core_inv_current_ops:
  assumes "core_inv n k" and "k_ws k = Some sid" and "live (k_state k)"
  shows "\<forall>x \<in> set (k_ops k). fst x = sid \<longleftrightarrow> snd x = k_gen k"
proof
  fix x assume "x \<in> set (k_ops k)"
  with assms show "fst x = sid \<longleftrightarrow> snd x = k_gen k" by (cases x) (fastforce simp: core_inv_def)
qed

definition settled :: "nat \<Rightarrow> ('h, 'a) ws_client_scheme \<Rightarrow> bool" where
  "settled n s \<longleftrightarrow> core_inv n (core s) \<and> quiet (core s) \<and> (\<exists>L. (\<forall>x \<in># L. dropped x) \<and> balanced L s)"

lemma settled_step:
  assumes "settles {#} m s t" and "settled n s"
  shows "settled m t"
proof -
  from assms(2) obtain L where L: "\<forall>x \<in># L. dropped x" "balanced L s" by (auto simp: settled_def)
  with assms(1) obtain L' where "\<forall>x \<in># L'. dropped x" "balanced (L + L') t"
    by (auto simp: settles_def)
  with L(1) have "\<exists>L. (\<forall>x \<in># L. dropped x) \<and> balanced L t" by (intro exI [of _ "L + L'"]) auto
  with assms(1) show ?thesis by (simp add: settled_def settles_def)
qed

context ws_handlers
begin

lemma ws_run_settled:
  "settled n s \<Longrightarrow> n + length is < 2 ^ 64 \<Longrightarrow> settled (n + length is) (ws_run E s is)"
proof (induction "is" arbitrary: n s)
  case (Cons i "is")
  have "settles {#} (Suc n) s (ws_step E s i)"
    using Cons.prems by (intro ws_step_settles) (simp_all add: settled_def)
  from settled_step [OF this Cons.prems(1)] Cons.IH [of "Suc n" "ws_step E s i"] Cons.prems(2)
  show ?case by simp
qed simp

end

lemma new_ws_client_settled:
  assumes "length bytes = write_slot_size"
  shows "settled 0 (new_ws_client bytes :: 'h ws_client)"
proof -
  have pow: "has_single_bit write_slot_count" unfolding write_slot_count_def by code_simp
  have "slots_ok (new_ring write_slot_count (new_write_slot bytes) :: 'h write_slot ring)"
    using new_ring_inv [OF pow] assms by (auto simp: slots_ok_def new_write_slot_def new_ring_def get_capacity_def)
  moreover have "balanced {#} (new_ws_client bytes :: 'h ws_client)"
    by (simp add: balance_defs new_ws_client_def)
  then have "\<exists>L. (\<forall>x \<in># L. dropped x) \<and> balanced L (new_ws_client bytes :: 'h ws_client)"
    by (intro exI [of _ "{#}"]) simp
  ultimately show ?thesis
    by (simp add: settled_def core_inv_def core_def quiet_def flowing_def)
      (simp add: new_ws_client_def live_def sent_in_order_def)
qed

text \<open>A client object of the base class after a sequence of inputs.\<close>

definition client_run :: "'h user \<Rightarrow> string \<Rightarrow> 'h ws_input list \<Rightarrow> 'h ws_client" where
  "client_run u bytes is = ws_run (base_env u) (new_ws_client bytes) is"

lemma client_run_settled:
  assumes "length bytes = write_slot_size" and "length is < 2 ^ 64"
  shows "settled (length is) (client_run u bytes is)"
  unfolding client_run_def
  using base.ws_run_settled [OF new_ws_client_settled [OF assms(1)], of "is" u] assms(2) by simp

lemma client_run_inv:
  assumes "length bytes = write_slot_size" and "length is < 2 ^ 64"
  shows "core_inv (length is) (core (client_run u bytes is))" and "quiet (core (client_run u bytes is))"
  using client_run_settled [OF assms, of u] by (simp_all add: settled_def)

text \<open>Concrete data for the witnesses: handlers that do nothing, or that write a message.\<close>

definition zero_bytes :: string where
  "zero_bytes = replicate write_slot_size (CHR 0x00)"

lemma length_zero_bytes [simp]: "length zero_bytes = write_slot_size"
  by (simp add: zero_bytes_def)

definition idle_user :: "nat user" where
  "idle_user h arg tr = Return []"

definition chatty_user :: "nat user" where
  "chatty_user h arg tr = Call_write_now ''again'' (\<lambda>_. Return [])"

definition ok_completion :: completion where
  "ok_completion =
     \<lparr>comp_ec = None, comp_option_ec = None, comp_tls_host_ok = True, comp_ssl_error = 0,
      comp_verify_ec = None, comp_bytes = [], comp_now = 5\<rparr>"

definition connect_inputs :: "nat ws_input list" where
  "connect_inputs = [In_api (Api_connect ''host'' ''443'' ''/'' (Some 3)), In_task 0 0,
     In_complete 0 ok_completion, In_complete 0 ok_completion, In_complete 0 ok_completion,
     In_complete 0 ok_completion]"

section \<open>The write queue\<close>

definition writes_outstanding :: "nat \<Rightarrow> ('h, 'a) ws_client_scheme \<Rightarrow> nat" where
  "writes_outstanding sid s = length (filter (\<lambda>x. fst x = sid) (concat (map write_op (wc_pending s))))"

lemma outstanding_writes:
  assumes ci: "core_inv n (core s)" and q: "quiet (core s)"
  shows "wc_state s = connected \<Longrightarrow> wc_ws s = Some sid \<Longrightarrow>
      writes_outstanding sid s = (if queued (wc_write_slots s) = [] then 0 else 1)"
    and "wc_state s \<noteq> connected \<Longrightarrow> queued (wc_write_slots s) = []"
proof -
  have busy: "wc_write_in_progress s \<longleftrightarrow> queued (wc_write_slots s) \<noteq> []"
    using core_invD(6) [OF ci] q by (auto simp: quiet_def flowing_def)
  show "writes_outstanding sid s = (if queued (wc_write_slots s) = [] then 0 else 1)"
    if "wc_state s = connected" "wc_ws s = Some sid"
  proof -
    have "\<forall>x \<in> set (k_ops (core s)). fst x = sid \<longleftrightarrow> snd x = wc_write_generation s"
      using core_inv_current_ops [OF ci] that by (simp add: live_def)
    then have "filter (\<lambda>x. fst x = sid) (k_ops (core s)) = filter (\<lambda>x. snd x = wc_write_generation s) (k_ops (core s))"
      by (intro filter_cong) (auto simp del: core_sel)
    then have "writes_outstanding sid s = length (filter (\<lambda>x. snd x = k_gen (core s)) (k_ops (core s)))"
      by (simp add: writes_outstanding_def)
    also have "\<dots> = (if k_busy (core s) then 1 else 0)" using ci by (simp only: core_inv_def)
    finally show ?thesis using busy by simp
  qed
  show "queued (wc_write_slots s) = []" if "wc_state s \<noteq> connected"
    using core_invD(5) [OF ci] that busy by auto
qed

text \<open>
  C1: one write at a time, and none is forgotten. While the client is connected, exactly one write is
  outstanding on its stream if writes are queued, and none otherwise, as Beast requires (at most one)
  and as the flow of the queue requires (at least one); while it is not connected, nothing is queued.
  This holds between any two inputs, with write handlers and message handlers that write themselves,
  and with completions left over from earlier connections. (Fewer than \<open>2 ^ 64\<close> inputs: the generation
  counter has not wrapped around.)
\<close>

theorem ws_one_write_at_a_time:
  assumes "length bytes = write_slot_size" and "length is < 2 ^ 64" and "s = client_run u bytes is"
  shows "(wc_state s = connected \<longrightarrow> (\<exists>sid. wc_ws s = Some sid \<and>
            writes_outstanding sid s = (if queued (wc_write_slots s) = [] then 0 else 1))) \<and>
         (wc_state s \<noteq> connected \<longrightarrow> queued (wc_write_slots s) = [])"
proof -
  have ci: "core_inv (length is) (core s)" and q: "quiet (core s)"
    using client_run_inv [OF assms(1,2), of u] by (simp_all add: assms(3))
  have "\<exists>sid. wc_ws s = Some sid" if "wc_state s = connected"
    using core_invD(7) [OF ci] that by (auto simp: live_def)
  with outstanding_writes [OF ci q] show ?thesis by blast
qed

theorem ws_one_write_at_a_time_witness:
  "let s = client_run chatty_user zero_bytes connect_inputs in
     (wc_state s = connected \<longrightarrow> (\<exists>sid. wc_ws s = Some sid \<and>
        writes_outstanding sid s = (if queued (wc_write_slots s) = [] then 0 else 1))) \<and>
     (wc_state s \<noteq> connected \<longrightarrow> queued (wc_write_slots s) = [])"
  unfolding Let_def
  by (rule ws_one_write_at_a_time [OF length_zero_bytes _ refl]) (simp add: connect_inputs_def)

text \<open>
  C2: writes keep their order and their bytes, and no assertion of the ring buffer fails. The accepted writes are
  recorded as the caller passed them. The writes that have left the queue followed by the queued ones, as the slots
  hold them, are the accepted writes in the order of their acceptance; what was
  handed to Beast is a subsequence of that, byte for byte as it was passed in; and no \<^verbatim>\<open>assert\<close> of
  the ring is ever violated.
\<close>

theorem ws_writes_in_order:
  assumes "length bytes = write_slot_size" and "length is < 2 ^ 64" and "s = client_run u bytes is"
  shows "concat (map pushed_by (wc_trace s)) =
           concat (map popped_by (wc_trace s)) @ map payload (queued (wc_write_slots s)) \<and>
         subseq (concat (map started_by (wc_trace s))) (map wire (concat (map pushed_by (wc_trace s)))) \<and>
         Assert_failed \<notin> set (wc_trace s)"
proof -
  have ci: "core_inv (length is) (core s)"
    using client_run_inv [OF assms(1,2), of u] by (simp add: assms(3))
  have p: "k_pushed (core s) = k_popped (core s) @ map payload (queued (k_slots (core s)))"
    using ci by (rule core_invD)
  have "sent_in_order ((core s)\<lparr>k_state := closing, k_gen := 0, k_busy := False\<rparr>)"
    using ci by (intro sent_in_order_closing core_invD)
  then have "subseq (k_started (core s)) (map wire (k_pushed (core s)))"
    by (simp add: sent_in_order_def)
  with p core_invD(4) [OF ci] show ?thesis by (simp add: core_def)
qed

text \<open>
  C3: every handler passed to \<^verbatim>\<open>write\<close> or \<^verbatim>\<open>close\<close> is called exactly once, and every handler passed
  to \<^verbatim>\<open>connect\<close> at most once. As multisets, the write and close handlers that were passed to the
  client are the ones already called and the ones still held in a posted closure or a queued write;
  a connect handler is called, held, or has been dropped with an attempt that was closed.
\<close>

theorem ws_handlers_called_once:
  assumes "length bytes = write_slot_size" and "length is < 2 ^ 64" and "s = client_run u bytes is"
  shows "filter_mset (\<lambda>x. \<not> dropped x) (given s) = filter_mset (\<lambda>x. \<not> dropped x) (held s + called s) \<and>
         held s + called s \<subseteq># given s"
proof -
  obtain L where L: "\<forall>x \<in># L. dropped x" "balanced L s"
    using client_run_settled [OF assms(1,2), of u] by (auto simp: settled_def assms(3))
  then have "filter_mset (\<lambda>x. \<not> dropped x) L = {#}"
    by (intro multiset_eqI) (auto simp: count_eq_zero_iff)
  with L(2) show ?thesis by (simp add: balanced_def)
qed

theorem ws_handlers_called_once_witness:
  "let s = client_run chatty_user zero_bytes connect_inputs in held s + called s \<subseteq># given s"
  using ws_handlers_called_once [OF length_zero_bytes _ refl, of connect_inputs chatty_user]
  by (simp add: connect_inputs_def)


section \<open>Closing\<close>

fun write_call :: "'h ws_event \<Rightarrow> ('h \<times> error_code) list" where
  "write_call (Called_write h ec) = [(h, ec)]"
| "write_call _ = []"

definition write_calls :: "('h, 'a) ws_client_scheme \<Rightarrow> ('h \<times> error_code) list" where
  "write_calls s = concat (map write_call (wc_trace s))"

definition cancelled :: "'h write_slot \<Rightarrow> ('h \<times> error_code) list" where
  "cancelled x = (case slot_handler x of None \<Rightarrow> [] | Some h \<Rightarrow> [(h, Some operation_canceled)])"

lemma write_calls_emit [simp]: "write_calls (emit ev s) = write_calls s @ write_call ev"
  by (simp add: write_calls_def emit_def)

lemma write_calls_other_fields [simp]:
  "write_calls (s\<lparr>wc_write_slots := x1\<rparr>) = write_calls s" "write_calls (s\<lparr>wc_state := x2\<rparr>) = write_calls s"
  "write_calls (s\<lparr>wc_write_generation := x3\<rparr>) = write_calls s"
  "write_calls (s\<lparr>wc_write_in_progress := x4\<rparr>) = write_calls s"
  "write_calls (ws_client.more_update f s) = write_calls s" "write_calls (api c s) = write_calls s"
  by (simp_all add: write_calls_def) (cases c; simp add: post_def emit_def)

lemma not_connected_closed: "api_closed (\<lambda>t. wc_state t \<noteq> connected \<and> write_calls t = X)"
proof -
  have "wc_state (api c s) = wc_state s" for c and s :: "('a, 'b) ws_client_scheme"
    using extends_api [of s c] by (simp add: extends_def)
  then show ?thesis by (simp add: api_closed_def write_now_def queue_write_def)
qed

context ws_handlers
begin

lemma fail_one_calls:
  assumes "core_inv n (core s)" and "wc_state s \<noteq> connected" and "queued (wc_write_slots s) = x # xs"
  shows "write_calls (fail_one E s) = write_calls s @ cancelled x"
proof -
  have so: "slots_ok (wc_write_slots s)" using core_invD(1) [OF assms(1)] by simp
  obtain r where r: "pop_front (set_front (wc_write_slots s) (x\<lparr>slot_handler := None\<rparr>)) = Some r"
    using release_front [OF so assms(3)] .
  let ?t = "emit (Pop_slot (payload x)) (s\<lparr>wc_write_slots := r\<rparr>)"
  have "get_front (wc_write_slots s) = Some x"
    using so assms(3) by (intro get_front_queued) (simp_all add: slots_ok_def)
  with r(1) have eq: "fail_one E s = call_write E (slot_handler x) (Some operation_canceled) ?t"
    by (simp add: fail_one_def)
  have "write_calls (fst (run_handler E h a t)) = write_calls t"
    if "wc_state t \<noteq> connected" for h a t
    using handler_closed [OF not_connected_closed, of t "write_calls t" h a] that by simp
  then show ?thesis using assms(2) by (simp add: eq call_write_def cancelled_def split: option.split)
qed

lemma fail_loop_calls:
  assumes "core_inv n (core s)" and "wc_state s \<noteq> connected"
    and "k = length (queued (wc_write_slots s))"
  shows "write_calls (fail_loop E k s) = write_calls s @ concat (map cancelled (queued (wc_write_slots s)))"
  using assms
proof (induction k arbitrary: s)
  case 0
  then have "queued (wc_write_slots s) = []" by (metis length_0_conv)
  then show ?case by simp
next
  case (Suc k)
  from Suc.prems(3) obtain x xs where q: "queued (wc_write_slots s) = x # xs"
    by (cases "queued (wc_write_slots s)") auto
  note f = fail_one_ok [OF Suc.prems(1,2) q] fail_one_calls [OF Suc.prems(1,2) q]
  have "write_calls (fail_loop E k (fail_one E s)) =
      write_calls (fail_one E s) @ concat (map cancelled (queued (wc_write_slots (fail_one E s))))"
    using f Suc.prems(2,3) q by (intro Suc.IH) (simp_all add: drained_def)
  moreover have "\<not> is_empty (wc_write_slots s)" using q by (simp add: is_empty_iff)
  ultimately show ?case using f q by simp
qed

end

text \<open>The state in which the loop of \<^verbatim>\<open>fail_pending_writes\<close> starts when \<^verbatim>\<open>do_close\<close> reaches it.\<close>

definition closing_state :: "('h, 'a) ws_client_scheme \<Rightarrow> ('h, 'a) ws_client_scheme" where
  "closing_state s =
     (let s1 = set_state closing s;
          s2 = (case wc_ws s1 of None \<Rightarrow> s1 | Some sid \<Rightarrow> emit (No_timeout sid) s1);
          s3 = cancel_pending_operations s2
      in s3\<lparr>wc_write_generation := wc_write_generation s3 + 1, wc_write_in_progress := False\<rparr>)"

lemma core_closing_state:
  "core (closing_state s) = (core s)\<lparr>k_state := closing, k_gen := k_gen (core s) + 1, k_busy := False\<rparr>"
proof -
  have c: "core (s3\<lparr>wc_write_generation := g, wc_write_in_progress := b\<rparr>) = (core s3)\<lparr>k_gen := g, k_busy := b\<rparr>"
    for s3 :: "('a, 'b) ws_client_scheme" and g b
    by (simp add: core_def)
  let ?s2 = "case wc_ws s of None \<Rightarrow> set_state closing s | Some sid \<Rightarrow> emit (No_timeout sid) (set_state closing s)"
  have s2: "core ?s2 = (core s)\<lparr>k_state := closing\<rparr>" by (simp add: core_set_state split: option.split)
  then have "wc_write_generation (cancel_pending_operations ?s2) = wc_write_generation s"
    using core_sel(2) [of "cancel_pending_operations ?s2"] by simp
  with s2 show ?thesis by (simp add: closing_state_def Let_def c)
qed

lemma closing_state_sel [simp]:
  "wc_state (closing_state s) = closing" "wc_write_slots (closing_state s) = wc_write_slots s"
  "wc_write_generation (closing_state s) = wc_write_generation s + 1"
  using core_sel(1,2,4) [of "closing_state s"] by (simp_all add: core_closing_state)

lemma core_inv_closing_state:
  "core_inv n (core s) \<Longrightarrow> Suc n < 2 ^ 64 \<Longrightarrow> core_inv (Suc n) (core (closing_state s))"
  unfolding core_closing_state by (rule core_inv_closing)

lemma write_calls_closing_state [simp]: "write_calls (closing_state s) = write_calls s"
  by (simp add: closing_state_def Let_def cancel_pending_operations_def stop_ping_timer_def
      stop_read_timer_def set_state_def split: option.split)

lemma do_close_eq:
  assumes "live (wc_state s)"
  shows "do_close E h s = call_close E h None (set_state disconnected (close_socket
    (fail_loop E (get_size (wc_write_slots (closing_state s))) (closing_state s))))"
  using assms by (auto simp: do_close_def live_def closing_state_def Let_def fail_pending_writes_def)

text \<open>
  C23: the loop of \<^verbatim>\<open>fail_pending_writes\<close> ends, whatever the write handlers do. When \<^verbatim>\<open>do_close\<close> reaches
  it, the loop \<^verbatim>\<open>while (!write_slots.is_empty())\<close> terminates after one round per queued write with an
  empty queue, although every round calls a handler that may try to write again.
\<close>

theorem fail_pending_writes_terminates:
  assumes "length bytes = write_slot_size" and "Suc (length is) < 2 ^ 64"
    and "s = closing_state (client_run u bytes is)"
  shows "while_option (\<lambda>s. \<not> is_empty (wc_write_slots s)) (fail_one (base_env u)) s =
           Some (fail_loop (base_env u) (get_size (wc_write_slots s)) s) \<and>
         is_empty (wc_write_slots (fail_loop (base_env u) (get_size (wc_write_slots s)) s))"
proof -
  have "core_inv (length is) (core (client_run u bytes is))"
    using assms(1,2) by (intro client_run_inv) simp_all
  then have ci: "core_inv (Suc (length is)) (core s)"
    unfolding assms(3) using assms(2) by (rule core_inv_closing_state)
  have st: "wc_state s = closing" by (simp add: assms(3))
  from base.fail_loop_while [OF ci] base.fail_loop_ok [OF ci] st show ?thesis
    by (simp add: is_empty_iff)
qed

theorem fail_pending_writes_terminates_witness:
  "is_empty (wc_write_slots (fail_loop (base_env chatty_user)
     (get_size (wc_write_slots (closing_state (client_run chatty_user zero_bytes connect_inputs))))
     (closing_state (client_run chatty_user zero_bytes connect_inputs))))"
  using fail_pending_writes_terminates [OF length_zero_bytes _ refl, of connect_inputs chatty_user]
  by (simp add: connect_inputs_def)

text \<open>
  C20: closing a connection. From a connected or connecting client, \<^verbatim>\<open>do_close\<close> leaves a disconnected
  client with an empty queue in a new write generation; the handlers of the writes that were queued are
  called exactly once each, in the order of the queue, with \<^verbatim>\<open>operation_canceled\<close>, and no other write
  handler is called.
\<close>

theorem ws_close_cancels_writes:
  assumes "length bytes = write_slot_size" and "Suc (length is) < 2 ^ 64" and "s = client_run u bytes is"
    and "live (wc_state s)" and "t = do_close (base_env u) None s"
  shows "wc_state t = disconnected \<and> queued (wc_write_slots t) = [] \<and>
    wc_write_generation t = wc_write_generation s + 1 \<and> \<not> wc_write_in_progress t \<and>
    write_calls t = write_calls s @ concat (map cancelled (queued (wc_write_slots s)))"
proof -
  let ?c = "closing_state s"
  let ?f = "fail_loop (base_env u) (get_size (wc_write_slots ?c)) ?c"
  have "core_inv (length is) (core s)"
    unfolding assms(3) using assms(1,2) by (intro client_run_inv) simp_all
  then have ci: "core_inv (Suc (length is)) (core ?c)" using assms(2) by (rule core_inv_closing_state)
  have t: "t = set_state disconnected (close_socket ?f)"
    using assms(4) by (simp add: assms(5) do_close_eq call_close_def)
  have c: "core t = (core ?f)\<lparr>k_state := disconnected\<rparr>" by (simp add: t core_set_state)
  have d: "drained (Suc (length is)) ?c ?f \<and> queued (wc_write_slots ?f) = []"
    by (intro base.fail_loop_ok [OF ci]) simp_all
  then have ci2: "core_inv (Suc (length is)) (core ?f)" and st: "wc_state ?f = closing"
    by (simp_all add: drained_def)
  have "\<not> wc_write_in_progress ?f" using core_invD(5) [OF ci2] st by auto
  moreover have "write_calls t = write_calls ?f"
    by (simp add: t close_socket_def set_state_def split: option.split)
  moreover have "write_calls ?f = write_calls s @ concat (map cancelled (queued (wc_write_slots s)))"
    using base.fail_loop_calls [OF ci] by simp
  ultimately show ?thesis
    using d core_sel(1-4) [of t, unfolded c] by (simp add: drained_def)
qed


section \<open>Connecting\<close>

definition succeeds :: "completion \<Rightarrow> bool" where
  "succeeds c \<longleftrightarrow> comp_ec c = None \<and> comp_option_ec c = None \<and> comp_tls_host_ok c \<and> comp_verify_ec c = None"

text \<open>The client in an attempt to connect, with the given events and one operation added.\<close>

definition attempt :: "string \<Rightarrow> string \<Rightarrow> string \<Rightarrow> ('h, 'a) ws_client_scheme \<Rightarrow> 'h ws_event list \<Rightarrow>
    'h async_op list \<Rightarrow> ('h, 'a) ws_client_scheme" where
  "attempt host port resource s es ps =
     s\<lparr>wc_host := host, wc_port := port, wc_resource := resource, wc_state := connecting,
       wc_read_buffer := [], wc_ws := Some (wc_streams_made s), wc_streams_made := Suc (wc_streams_made s),
       wc_trace := wc_trace s @ es, wc_pending := wc_pending s @ ps\<rparr>"

lemma ws_step_last_task:
  "wc_posted s = xs @ [tk] \<Longrightarrow> ws_step E s (In_task (length xs) now) = run_task E now tk (s\<lparr>wc_posted := xs\<rparr>)"
  by simp

lemma ws_step_last_op:
  "wc_pending s = xs @ [p] \<Longrightarrow>
   ws_step E s (In_complete (length xs) c) = complete_op E p c (s\<lparr>wc_pending := xs\<rparr>)"
  by simp

lemma attempt_start:
  assumes "wc_state s = disconnected"
  shows "ws_step E (ws_step E s (In_api (Api_connect host port resource (Some h))))
      (In_task (length (wc_posted s)) now) =
    attempt host port resource s [Connect_requested host port resource, Executor_post (Do_connect (Some (User_cb h))),
      Read_message_max (wc_streams_made s) read_buffer_size, Async_resolve host port]
      [Resolve_op (Some (User_cb h))]"
  using assms by (simp add: attempt_def post_def emit_def do_connect_def create_stream_def set_state_def start_op_def)

lemma attempt_step:
  assumes "succeeds c" and "n = length (wc_pending s)" and "sid = wc_streams_made s"
  shows "ws_step E (attempt host port resource s es [Resolve_op cb]) (In_complete n c) =
      attempt host port resource s (es @ [Expires_after sid connect_timeout, Async_connect sid]) [Connect_op cb]"
    and "ws_step E (attempt host port resource s es [Connect_op cb]) (In_complete n c) =
      attempt host port resource s (es @ [Set_no_delay sid, Expires_after sid connect_timeout, Tls_host sid host True,
        Verify_host sid host None, Async_tls_handshake sid]) [Ssl_handshake_op cb]"
    and "ws_step E (attempt host port resource s es [Ssl_handshake_op cb]) (In_complete n c) =
      attempt host port resource s (es @ [Expires_never sid, Suggested_timeout sid,
        Async_websocket_handshake sid host resource]) [Websocket_handshake_op cb]"
    and "ws_step E (attempt host port resource s es [Websocket_handshake_op cb]) (In_complete n c) =
      (let t = call_connect E cb None ((attempt host port resource s es [])\<lparr>wc_state := connected\<rparr>)
       in start_ping_timer (start_read (start_read_timer (t\<lparr>wc_last_read_time := comp_now c\<rparr>))))"
  using assms
  by (simp_all add: attempt_def succeeds_def handle_resolve_def handle_connect_def handle_ssl_handshake_def
      handle_websocket_handshake_def is_connecting_def emit_def start_op_def set_state_def Let_def)

lemma extends_timers:
  "extends s (start_ping_timer s)" "extends s (start_read_timer s)" "extends s (start_read s)"
  by (auto simp: extends_def start_ping_timer_def start_ping_timer_after_def start_read_timer_def
      start_read_def start_op_def emit_def split: option.split)

context ws_handlers
begin

lemma connected_extends:
  assumes "t = start_ping_timer (start_read (start_read_timer ((call_connect E cb None s)\<lparr>wc_last_read_time := now\<rparr>)))"
    and "wc_state s = connected" and "wc_ws s = Some sid"
  shows "extends (case cb of None \<Rightarrow> s | Some cb \<Rightarrow> emit (Called_connect cb None) s) t"
    and "Read_op sid \<in> set (wc_pending t)"
proof -
  let ?s = "case cb of None \<Rightarrow> s | Some cb \<Rightarrow> emit (Called_connect cb None) s"
  let ?u = "start_read_timer ((call_connect E cb None s)\<lparr>wc_last_read_time := now\<rparr>)"
  have "extends ?s (call_connect E cb None s)"
    using connect_cb_closed [OF extends_closed extends_refl]
    by (simp add: call_connect_def split: option.split)
  then have "extends ?s ((call_connect E cb None s)\<lparr>wc_last_read_time := now\<rparr>)" by (simp add: extends_def)
  then have u: "extends ?s ?u" using extends_timers(2) by (rule extends_trans)
  then have "extends ?s (start_read ?u)" using extends_timers(3) by (rule extends_trans)
  then show "extends ?s t" unfolding assms(1) using extends_timers(1) by (rule extends_trans)
  have "wc_state ?u = connected" "wc_ws ?u = Some sid"
    using u assms(2,3) by (cases cb; simp add: extends_def)+
  then have "Read_op sid \<in> set (wc_pending (start_read ?u))"
    by (simp add: start_read_def is_connected_def start_op_def)
  moreover have "set (wc_pending (start_read ?u)) \<subseteq> set (wc_pending t)"
    using extends_timers(1) [of "start_read ?u"] by (auto simp: assms(1) extends_def)
  ultimately show "Read_op sid \<in> set (wc_pending t)" by blast
qed

end

text \<open>
  C29: the successful connection. When a disconnected client is told to connect and the resolution, the
  TCP connection, the TLS handshake and the WebSocket handshake succeed, the client is connected on a
  fresh stream with a read outstanding. It called, in this order: the limit for incoming messages; the resolver; the TCP connect under
  the connect timeout; \<^verbatim>\<open>TCP_NODELAY\<close>; SNI and host name verification for the host that was asked for,
  before the TLS handshake; the WebSocket handshake for the host and resource; and the connect handler
  without an error.
\<close>

theorem ws_connect_succeeds:
  assumes "wc_state s = disconnected" and "succeeds c1" and "succeeds c2" and "succeeds c3" and "succeeds c4"
    and "n = length (wc_pending s)" and "sid = wc_streams_made s"
    and "s' = ws_run (base_env u) s [In_api (Api_connect host port resource (Some h)),
           In_task (length (wc_posted s)) now, In_complete n c1, In_complete n c2, In_complete n c3, In_complete n c4]"
  shows "wc_state s' = connected \<and> wc_ws s' = Some sid \<and> Read_op sid \<in> set (wc_pending s') \<and>
    (\<exists>es. wc_trace s' = wc_trace s @
      [Connect_requested host port resource, Executor_post (Do_connect (Some (User_cb h))), Read_message_max sid read_buffer_size, Async_resolve host port,
       Expires_after sid connect_timeout, Async_connect sid,
       Set_no_delay sid, Expires_after sid connect_timeout, Tls_host sid host True, Verify_host sid host None,
       Async_tls_handshake sid, Expires_never sid, Suggested_timeout sid,
       Async_websocket_handshake sid host resource, Called_connect (User_cb h) None] @ es)"
proof -
  let ?cb = "Some (User_cb h)"
  let ?es = "[Connect_requested host port resource, Executor_post (Do_connect ?cb), Read_message_max sid read_buffer_size, Async_resolve host port,
       Expires_after sid connect_timeout, Async_connect sid,
       Set_no_delay sid, Expires_after sid connect_timeout, Tls_host sid host True, Verify_host sid host None,
       Async_tls_handshake sid, Expires_never sid, Suggested_timeout sid,
       Async_websocket_handshake sid host resource]"
  define a where "a = (attempt host port resource s ?es [])\<lparr>wc_state := connected\<rparr>"
  have s': "s' = start_ping_timer (start_read (start_read_timer
      ((call_connect (base_env u) ?cb None a)\<lparr>wc_last_read_time := comp_now c4\<rparr>)))"
    by (simp add: assms(8) attempt_start [OF assms(1)] attempt_step [OF assms(2) assms(6,7)]
        attempt_step [OF assms(3) assms(6,7)] attempt_step [OF assms(4) assms(6,7)]
        attempt_step [OF assms(5) assms(6,7)] Let_def a_def flip: assms(7) del: ws_step.simps)
  have a: "wc_state a = connected" "wc_ws a = Some sid" "wc_trace a = wc_trace s @ ?es"
    by (simp_all add: a_def attempt_def assms(7))
  from base.connected_extends [OF s' a(1,2)] a show ?thesis
    by (auto simp: extends_def emit_def)
qed


lemma ws_run_append: "ws_run E s (xs @ ys) = ws_run E (ws_run E s xs) ys"
  by (induction xs arbitrary: s) simp_all

lemma ok_succeeds: "succeeds ok_completion"
  by (simp add: succeeds_def ok_completion_def)

lemma new_ws_client_sel [simp]:
  "wc_state (new_ws_client bytes) = disconnected" "wc_pending (new_ws_client bytes) = []"
  "wc_posted (new_ws_client bytes) = []" "wc_streams_made (new_ws_client bytes) = 0"
  "wc_trace (new_ws_client bytes) = []"
  by (simp_all add: new_ws_client_def)

theorem ws_connect_succeeds_witness:
  "wc_state (client_run chatty_user zero_bytes connect_inputs) = connected \<and>
   Verify_host 0 ''host'' None \<in> set (wc_trace (client_run chatty_user zero_bytes connect_inputs))"
proof -
  let ?s = "new_ws_client zero_bytes :: nat ws_client"
  have n: "0 = length (wc_pending ?s)" "0 = wc_streams_made ?s" by simp_all
  from ws_connect_succeeds [OF _ ok_succeeds ok_succeeds ok_succeeds ok_succeeds n refl,
      of chatty_user "''host''" "''443''" "''/''" 3 0]
  show ?thesis
    by (auto simp: client_run_def connect_inputs_def simp del: ws_run.simps(2) ws_step.simps)
qed

fun disconnect_call :: "'h ws_event \<Rightarrow> ('h \<times> error_code) list" where
  "disconnect_call (Called_disconnect h ec) = [(h, ec)]"
| "disconnect_call _ = []"

text \<open>The client that the witnesses below start from.\<close>

lemma idle_connected:
  fixes s defines "s \<equiv> client_run idle_user zero_bytes connect_inputs"
  shows "wc_state s = connected" and "wc_ws s = Some 0" and "wc_write_in_progress s = False"
    and "wc_write_slots s = new_ring write_slot_count (new_write_slot zero_bytes)"
    and "wc_posted s = []" and "wc_disconnect_handler s = None" and "write_calls s = []"
    and "wc_pending s = [Read_op 0]" and "wc_ping_message_generator s = None"
    and "concat (map disconnect_call (wc_trace s)) = []"
proof -
  let ?s = "new_ws_client zero_bytes :: nat ws_client"
  have n: "0 = length (wc_pending ?s)" "0 = wc_streams_made ?s" by simp_all
  have st: "ws_step E (ws_step E ?s (In_api (Api_connect host port resource (Some h)))) (In_task 0 0) =
      attempt host port resource ?s [Connect_requested host port resource, Executor_post (Do_connect (Some (User_cb h))),
        Read_message_max 0 read_buffer_size, Async_resolve host port]
        [Resolve_op (Some (User_cb h))]" for E host port resource h
    using attempt_start [of ?s E host port resource h 0] by (simp del: ws_step.simps)
  have now: "comp_now ok_completion = 5" by (simp add: ok_completion_def)
  define a where "a = attempt ''host'' ''443'' ''/'' ?s
    [Connect_requested ''host'' ''443'' ''/'', Executor_post (Do_connect (Some (User_cb 3))), Read_message_max 0 read_buffer_size, Async_resolve ''host'' ''443'',
     Expires_after 0 connect_timeout, Async_connect 0,
     Set_no_delay 0, Expires_after 0 connect_timeout, Tls_host 0 ''host'' True, Verify_host 0 ''host'' None,
     Async_tls_handshake 0, Expires_never 0, Suggested_timeout 0, Async_websocket_handshake 0 ''host'' ''/''] []"
  have "s = (let t = call_connect (base_env idle_user) (Some (User_cb 3)) None (a\<lparr>wc_state := connected\<rparr>)
       in start_ping_timer (start_read (start_read_timer (t\<lparr>wc_last_read_time := 5\<rparr>))))"
    by (simp add: s_def a_def client_run_def connect_inputs_def st attempt_step [OF ok_succeeds n] now
        del: ws_step.simps)
  then have "s = start_read (emit (Called_connect (User_cb 3) None) (a\<lparr>wc_state := connected, wc_last_read_time := 5\<rparr>))"
    by (simp add: call_connect_def base_env_def run_user_def idle_user_def start_ping_timer_def
        start_ping_timer_after_def start_read_timer_def start_read_def a_def attempt_def emit_def
        start_op_def new_ws_client_def is_connected_def)
  then show "wc_state s = connected" "wc_ws s = Some 0" "wc_write_in_progress s = False"
    "wc_write_slots s = new_ring write_slot_count (new_write_slot zero_bytes)"
    "wc_posted s = []" "wc_disconnect_handler s = None" "write_calls s = []"
    "wc_pending s = [Read_op 0]" "wc_ping_message_generator s = None"
    "concat (map disconnect_call (wc_trace s)) = []"
    by (simp_all add: start_read_def is_connected_def a_def attempt_def new_ws_client_def start_op_def
        emit_def write_calls_def)
qed


definition write_inputs :: "nat ws_input list" where
  "write_inputs = connect_inputs @ [In_api (Api_post (Do_write ''hi'' (Some 7))), In_task 0 0]"

lemma write_inputs_queued:
  fixes s defines "s \<equiv> client_run idle_user zero_bytes write_inputs"
  shows "wc_state s = connected \<and> write_calls s = [] \<and>
    (\<exists>x. queued (wc_write_slots s) = [x] \<and> slot_handler x = Some 7)"
proof -
  define s0 where "s0 = client_run idle_user zero_bytes connect_inputs"
  note s0 = idle_connected [folded s0_def]
  define s1 where "s1 = (post (Do_write ''hi'' (Some 7)) s0)\<lparr>wc_posted := []\<rparr>"
  have s: "s = fst (do_write (base_env idle_user) ''hi'' (Some 7) s1)"
    using s0(5) by (simp add: s_def write_inputs_def client_run_def ws_run_append)
      (simp add: s0_def [symmetric] s1_def post_def client_run_def [symmetric])
  have s1: "wc_state s1 = connected" "wc_ws s1 = Some 0" "write_calls s1 = []"
      "wc_write_slots s1 = new_ring write_slot_count (new_write_slot zero_bytes)"
    using s0 by (simp_all add: s1_def post_def emit_def write_calls_def)
  have ci: "core_inv (length connect_inputs) (core s0)"
    unfolding s0_def by (rule client_run_inv) (simp_all add: connect_inputs_def)
  have ok: "slots_ok (wc_write_slots s1)"
    using core_invD(1) [OF ci] s0(4) s1(4) by simp
  have "queue_write_code ''hi'' s1 = None"
    using s1 by (simp add: queue_write_code_def is_full_iff write_slot_size_def write_slot_count_def)
  then obtain r x where rx: "queued r = queued (wc_write_slots s1) @ [x]" "payload x = (Message, ''hi'', Some 7)"
      "queue_write Message ''hi'' (Some 7) s1 =
         (start_write (emit (Push_slot (Message, ''hi'', Some 7)) (s1\<lparr>wc_write_slots := r\<rparr>)), None)"
    using queue_write_accepts [OF _ ok] by metis
  have w: "write_calls (start_write t) = write_calls t" for t :: "nat ws_client"
    by (simp add: start_write_def start_op_def emit_def write_calls_def Let_def split: option.split)
  show ?thesis
    using rx s1 by (simp add: s do_write_def w payload_def)
qed

theorem ws_writes_in_order_witness:
  "let s = client_run idle_user zero_bytes write_inputs in
     concat (map pushed_by (wc_trace s)) = concat (map popped_by (wc_trace s)) @ map payload (queued (wc_write_slots s)) \<and>
     queued (wc_write_slots s) \<noteq> []"
  using ws_writes_in_order [OF length_zero_bytes _ refl, of write_inputs idle_user] write_inputs_queued
  by (auto simp: Let_def write_inputs_def connect_inputs_def simp del: ws_run.simps)


theorem ws_close_cancels_writes_witness:
  "write_calls (do_close (base_env idle_user) None (client_run idle_user zero_bytes write_inputs)) =
     [(7, Some operation_canceled)]"
proof -
  let ?s = "client_run idle_user zero_bytes write_inputs"
  obtain x where x: "queued (wc_write_slots ?s) = [x]" "slot_handler x = Some 7" "wc_state ?s = connected"
      "write_calls ?s = []"
    using write_inputs_queued by auto
  have n: "Suc (length write_inputs) < 2 ^ 64" by (simp add: write_inputs_def connect_inputs_def)
  have "live (wc_state ?s)" using x by (simp add: live_def)
  from ws_close_cancels_writes [OF length_zero_bytes n refl this refl] x show ?thesis
    by (simp add: cancelled_def)
qed

section \<open>Writing\<close>

text \<open>
  The answers of \<^verbatim>\<open>write_now\<close>. Off the executor thread, while not connected, for a message larger
  than a slot, and with all \<open>2048\<close> slots in use it returns the respective error and changes nothing; in
  every other case it succeeds and appends the message to the queue.
\<close>

theorem ws_write_now:
  assumes "length bytes = write_slot_size" and "length is < 2 ^ 64" and "s = client_run u bytes is"
    and "write_now on_executor_thread msg s = (t, ec)"
  shows "ec = (if \<not> on_executor_thread then Some operation_not_permitted
               else if wc_state s \<noteq> connected then Some not_connected
               else if length msg > 8192 then Some message_size
               else if length (queued (wc_write_slots s)) = 2048 then Some no_buffer_space else None) \<and>
    (if ec = None then map payload (queued (wc_write_slots t)) =
                         map payload (queued (wc_write_slots s)) @ [(Message, msg, None)]
     else t = s)"
proof -
  have ci: "core_inv (length is) (core s)"
    using client_run_inv [OF assms(1,2), of u] by (simp add: assms(3))
  have so: "slots_ok (wc_write_slots s)" using core_invD(1) [OF ci] by simp
  have "wc_state s = connected \<Longrightarrow> wc_ws s \<noteq> None" using core_invD(7) [OF ci] by (simp add: live_def)
  then have code: "queue_write_code msg s = (if wc_state s \<noteq> connected then Some not_connected
      else if length msg > 8192 then Some message_size
      else if length (queued (wc_write_slots s)) = 2048 then Some no_buffer_space else None)"
    using so by (auto simp: queue_write_code_def is_full_iff slots_ok_def write_slot_size_def write_slot_count_def)
  show ?thesis
  proof (cases "on_executor_thread \<and> queue_write_code msg s = None")
    case True
    then obtain r x where "queued r = queued (wc_write_slots s) @ [x]" "payload x = (Message, msg, None)"
        "queue_write Message msg None s =
           (start_write (emit (Push_slot (Message, msg, None)) (s\<lparr>wc_write_slots := r\<rparr>)), None)"
      using queue_write_accepts [OF _ so] by metis
    with True assms(4) code show ?thesis by (auto simp: write_now_def)
  next
    case False
    with assms(4) code show ?thesis
      using queue_write_rejects [of msg s] by (cases "queue_write_code msg s") (auto simp: write_now_def)
  qed
qed

theorem ws_write_now_witness:
  "snd (write_now True ''hi'' (client_run idle_user zero_bytes connect_inputs)) = None \<and>
   snd (write_now False ''hi'' (client_run idle_user zero_bytes connect_inputs)) = Some operation_not_permitted"
proof -
  have n: "length connect_inputs < 2 ^ 64" by (simp add: connect_inputs_def)
  note w = ws_write_now [OF length_zero_bytes n refl surjective_pairing, of _ "''hi''" idle_user]
  from w [of True] w [of False] idle_connected(1,4) show ?thesis by simp
qed

section \<open>Losing the connection\<close>

definition disconnect_calls :: "('h, 'a) ws_client_scheme \<Rightarrow> ('h \<times> error_code) list" where
  "disconnect_calls s = concat (map disconnect_call (wc_trace s))"

text \<open>Properties that closing keeps: those that neither handlers nor the queue nor the state can affect.\<close>

definition close_closed :: "(('h, 'a) ws_client_scheme \<Rightarrow> bool) \<Rightarrow> bool" where
  "close_closed P \<longleftrightarrow> api_closed P \<and> (\<forall>s ev. P s \<longrightarrow> disconnect_call ev = [] \<longrightarrow> P (emit ev s)) \<and>
     (\<forall>s r. P s \<longrightarrow> P (s\<lparr>wc_write_slots := r\<rparr>)) \<and> (\<forall>s st. P s \<longrightarrow> P (s\<lparr>wc_state := st\<rparr>)) \<and>
     (\<forall>s g. P s \<longrightarrow> P (s\<lparr>wc_write_generation := g\<rparr>)) \<and> (\<forall>s b. P s \<longrightarrow> P (s\<lparr>wc_write_in_progress := b\<rparr>))"

context ws_handlers
begin

lemma fail_one_closed: "close_closed P \<Longrightarrow> P s \<Longrightarrow> P (fail_one E s)"
  by (auto simp: close_closed_def fail_one_def call_write_def handler_closed split: option.split)

lemma fail_loop_closed: "close_closed P \<Longrightarrow> P s \<Longrightarrow> P (fail_loop E k s)"
  by (induction k arbitrary: s) (auto simp: fail_one_closed)

lemma closing_state_closed: "close_closed P \<Longrightarrow> P s \<Longrightarrow> P (closing_state s)"
  by (auto simp: close_closed_def closing_state_def Let_def set_state_def cancel_pending_operations_def
      stop_ping_timer_def stop_read_timer_def split: option.split)

lemma do_close_closed:
  assumes "close_closed P" and "P s"
  shows "P (do_close E h s)"
proof -
  have c: "P t \<Longrightarrow> P (call_close E h None t)" "P t \<Longrightarrow> P (set_state st (close_socket t))" for t st
    using assms(1) by (auto simp: close_closed_def call_close_def close_socket_def set_state_def
        handler_closed split: option.split)
  show ?thesis
  proof (cases "live (wc_state s)")
    case True
    then show ?thesis using assms by (simp add: do_close_eq c fail_loop_closed closing_state_closed)
  next
    case False
    then have "do_close E h s = call_close E h None s" by (auto simp: do_close_def live_def)
    then show ?thesis using c(1) assms(2) by simp
  qed
qed

end


definition reports :: "'h option \<Rightarrow> ('h \<times> error_code) list \<Rightarrow> ('h, 'a) ws_client_scheme \<Rightarrow> bool" where
  "reports h calls s \<longleftrightarrow> wc_disconnect_handler s = h \<and> disconnect_calls s = calls"

lemma disconnect_calls_emit [simp]: "disconnect_calls (emit ev s) = disconnect_calls s @ disconnect_call ev"
  by (simp add: disconnect_calls_def emit_def)

lemma disconnect_calls_start_write [simp]: "disconnect_calls (start_write s) = disconnect_calls s"
  by (simp add: start_write_def start_op_def emit_def disconnect_calls_def Let_def split: option.split)

lemma disconnect_calls_queue_write [simp]:
  "disconnect_calls (fst (queue_write ty msg h s)) = disconnect_calls s"
  by (auto simp: queue_write_def Let_def split: option.split) (simp add: disconnect_calls_def)

lemma reports_api_closed: "api_closed (reports h calls)"
proof -
  have "reports h calls (api c s)" if "reports h calls s" for c and s :: "('a, 'b) ws_client_scheme"
    using that by (cases c) (simp_all add: reports_def post_def emit_def disconnect_calls_def)
  moreover have "reports h calls (ws_client.more_update f s)" if "reports h calls s"
    for f and s :: "('a, 'b) ws_client_scheme"
    using that by (simp add: reports_def disconnect_calls_def)
  ultimately show ?thesis by (simp add: api_closed_def write_now_def) (simp add: reports_def)
qed

lemma reports_close_closed: "close_closed (reports h calls)"
  using reports_api_closed
  by (auto simp: close_closed_def) (simp_all add: reports_def emit_def disconnect_calls_def)

lemma base_disconnect:
  assumes "core_inv n (core s)" and "wc_state s = connected" and "Suc n < 2 ^ 64"
    and "t = handle_unexpected_disconnect (base_env u) ec s"
  shows "wc_state t = disconnected \<and> disconnect_calls t = disconnect_calls s @
    (case wc_disconnect_handler s of None \<Rightarrow> [] | Some h \<Rightarrow> [(h, ec)])"
proof -
  let ?c = "do_close (base_env u) None s"
  have "reports (wc_disconnect_handler s) (disconnect_calls s) s" by (simp add: reports_def)
  then have c: "wc_disconnect_handler ?c = wc_disconnect_handler s" "disconnect_calls ?c = disconnect_calls s"
    using base.do_close_closed [OF reports_close_closed, of "wc_disconnect_handler s" "disconnect_calls s" s u]
    by (simp_all add: reports_def)
  have st: "wc_state ?c = disconnected"
    using assms(1-3) by (intro base.do_close_live(2)) (simp_all add: live_def)
  have t: "t = base_on_unexpected_disconnect (run_user u) ec ?c"
    using assms(2,4) by (simp add: handle_unexpected_disconnect_def base_env_def)
  have run: "wc_state (fst (run_user u h a v)) = wc_state v"
    "disconnect_calls (fst (run_user u h a v)) = disconnect_calls v" for h a and v :: "('a, 'b) ws_client_scheme"
    using run_prog_closed [OF extends_closed extends_refl, of v "u h a (wc_trace v)"]
      run_prog_closed [OF reports_api_closed, of "wc_disconnect_handler v" "disconnect_calls v" v "u h a (wc_trace v)"]
    by (simp_all add: run_user_def extends_def reports_def)
  show ?thesis
    using c st by (simp add: t base_on_unexpected_disconnect_def run split: option.split)
qed

text \<open>
  C35: a lost connection is reported once. When the read of a connected client fails, the client is
  disconnected and the disconnect handler, if there is one, is called exactly once, with that error.
\<close>

theorem ws_read_error_reported:
  assumes "length bytes = write_slot_size" and "Suc (length is) < 2 ^ 64" and "s = client_run u bytes is"
    and "wc_state s = connected" and "i < length (wc_pending s)" and "wc_pending s ! i = Read_op sid"
    and "comp_ec c = Some e" and "t = ws_step (base_env u) s (In_complete i c)"
  shows "wc_state t = disconnected \<and> disconnect_calls t = disconnect_calls s @
    (case wc_disconnect_handler s of None \<Rightarrow> [] | Some h \<Rightarrow> [(h, Some e)])"
proof -
  define s1 where "s1 = (remove_op i s)\<lparr>wc_read_buffer := wc_read_buffer s @ comp_bytes c\<rparr>"
  have "core_inv (length is) (core s)"
    unfolding assms(3) using assms(1,2) by (intro client_run_inv) simp_all
  moreover have c1: "core s1 = core s"
    using core_remove_op [OF assms(5)] assms(6) by (simp add: s1_def core_def)
  ultimately have ci: "core_inv (length is) (core s1)" by simp
  have s1: "wc_state s1 = connected" "wc_disconnect_handler s1 = wc_disconnect_handler s"
      "disconnect_calls s1 = disconnect_calls s"
    using assms(4) by (simp_all add: s1_def remove_op_def disconnect_calls_def)
  have "t = handle_unexpected_disconnect (base_env u) (Some e) s1"
    using assms(5-8) s1(1) by (simp add: handle_read_def is_connected_def s1_def remove_op_def)
  from base_disconnect [OF ci s1(1) assms(2) this] s1 show ?thesis by simp
qed

text \<open>
  The read timeout. When the read timer of a connected client fires, the connection is given up
  with \<^verbatim>\<open>timed_out\<close>, reported to the disconnect handler, exactly when no message arrived for the whole
  timeout; otherwise the client stays connected and the timer is armed for the rest of the timeout.
\<close>

theorem ws_read_timeout:
  assumes "length bytes = write_slot_size" and "Suc (length is) < 2 ^ 64" and "s = client_run u bytes is"
    and "wc_state s = connected" and "wc_read_timeout s > 0" and "i < length (wc_pending s)"
    and "wc_pending s ! i = Read_wait" and "comp_ec c = None"
    and "t = ws_step (base_env u) s (In_complete i c)"
  shows "if comp_now c < wc_last_read_time s + wc_read_timeout s
    then wc_state t = connected \<and> last (wc_pending t) = Read_wait \<and>
         wc_trace t = wc_trace s @ [Read_timer_at (wc_last_read_time s + wc_read_timeout s)]
    else wc_state t = disconnected \<and> disconnect_calls t = disconnect_calls s @
         (case wc_disconnect_handler s of None \<Rightarrow> [] | Some h \<Rightarrow> [(h, Some timed_out)])"
proof -
  have "core_inv (length is) (core s)"
    unfolding assms(3) using assms(1,2) by (intro client_run_inv) simp_all
  moreover have "core (remove_op i s) = core s"
    using core_remove_op [OF assms(6)] assms(7) by (simp add: core_def)
  ultimately have ci: "core_inv (length is) (core (remove_op i s))" by simp
  have r: "wc_state (remove_op i s) = connected" "wc_disconnect_handler (remove_op i s) = wc_disconnect_handler s"
      "disconnect_calls (remove_op i s) = disconnect_calls s"
    using assms(4) by (simp_all add: remove_op_def disconnect_calls_def)
  have t: "t = handle_read_timeout (base_env u) (comp_now c) None (remove_op i s)"
    using assms(6-9) by (simp add: remove_op_def)
  show ?thesis
  proof (cases "comp_now c < wc_last_read_time s + wc_read_timeout s")
    case True
    with t assms(4,5) show ?thesis
      by (simp add: handle_read_timeout_def is_connected_def remove_op_def start_read_timer_def
          start_op_def emit_def)
  next
    case False
    then have "t = handle_unexpected_disconnect (base_env u) (Some timed_out) (remove_op i s)"
      using t assms(4,5) by (simp add: handle_read_timeout_def is_connected_def remove_op_def)
    from base_disconnect [OF ci r(1) assms(2) this] r False show ?thesis by simp
  qed
qed

text \<open>
  Keep-alive pings. When the ping timer of a connected client fires and no generator is set, a
  protocol ping is queued and the timer is armed for the ping interval; only if every slot is in use,
  no ping is queued and the timer is armed for the short retry delay of 100 ms.
\<close>

theorem ws_ping:
  assumes "length bytes = write_slot_size" and "length is < 2 ^ 64" and "s = client_run u bytes is"
    and "wc_state s = connected" and "wc_ping_interval s > 0" and "wc_ping_message_generator s = None"
    and "t = handle_ping_timer (base_env u) None s"
  shows "last (wc_pending t) = Ping_wait \<and>
    (if length (queued (wc_write_slots s)) = 2048
     then wc_write_slots t = wc_write_slots s \<and> last (wc_trace t) = Ping_timer_after (milliseconds 100)
     else map payload (queued (wc_write_slots t)) = map payload (queued (wc_write_slots s)) @ [(Ping, [], None)] \<and>
          last (wc_trace t) = Ping_timer_after (wc_ping_interval s))"
proof -
  have ci: "core_inv (length is) (core s)"
    using client_run_inv [OF assms(1,2), of u] by (simp add: assms(3))
  have so: "slots_ok (wc_write_slots s)" using core_invD(1) [OF ci] by simp
  have "wc_ws s \<noteq> None" using core_invD(7) [OF ci] assms(4) by (simp add: live_def)
  then have code: "queue_write_code [] s =
      (if length (queued (wc_write_slots s)) = 2048 then Some no_buffer_space else None)"
    using so assms(4) by (auto simp: queue_write_code_def is_full_iff slots_ok_def write_slot_count_def)
  have arm: "wc_write_slots (start_ping_timer_after d v) = wc_write_slots v"
    "last (wc_pending (start_ping_timer_after d v)) = Ping_wait"
    "last (wc_trace (start_ping_timer_after d v)) = Ping_timer_after d"
    if "wc_state v = connected" "wc_ping_interval v > 0" for d and v :: "'a ws_client"
    using that by (simp_all add: start_ping_timer_after_def is_connected_def start_op_def emit_def)
  define q where "q = queue_write Ping [] None s"
  have t: "t = start_ping_timer_after (if snd q = Some no_buffer_space then ping_retry_delay
      else wc_ping_interval (fst q)) (fst q)"
    using assms(4-7) by (simp add: handle_ping_timer_def is_connected_def do_protocol_ping_def q_def case_prod_beta)
  have v: "wc_state (fst q) = connected" "wc_ping_interval (fst q) = wc_ping_interval s"
    using assms(4) by (simp_all add: q_def)
  show ?thesis
  proof (cases "length (queued (wc_write_slots s)) = 2048")
    case True
    then have "q = (s, Some no_buffer_space)" using code queue_write_rejects [of "[]" s] by (simp add: q_def)
    with True t v assms(5) arm show ?thesis by (simp add: ping_retry_delay_def)
  next
    case False
    then obtain r x where "queued r = queued (wc_write_slots s) @ [x]" "payload x = (Ping, [], None)"
        "q = (start_write (emit (Push_slot (Ping, [], None)) (s\<lparr>wc_write_slots := r\<rparr>)), None)"
      using queue_write_accepts [OF _ so, of "[]" Ping None] code unfolding q_def by metis
    with False t v assms(5) arm show ?thesis by simp
  qed
qed


definition configure_inputs :: "nat ws_input list" where
  "configure_inputs = [In_api (Api_post (Assign_disconnect_handler (Some 9))), In_task 0 6,
     In_api (Api_post (Assign_read_timeout 10)), In_task 0 6,
     In_api (Api_post (Assign_ping_interval 20)), In_task 0 6]"

lemma configured:
  fixes s defines "s \<equiv> client_run idle_user zero_bytes (connect_inputs @ configure_inputs)"
  shows "wc_state s = connected" and "wc_disconnect_handler s = Some 9" and "wc_read_timeout s = 10"
    and "wc_last_read_time s = 6" and "wc_ping_interval s = 20" and "wc_ping_message_generator s = None"
    and "wc_pending s = [Read_op 0, Read_wait, Ping_wait]" and "disconnect_calls s = []"
    and "queued (wc_write_slots s) = []"
proof -
  define s0 where "s0 = client_run idle_user zero_bytes connect_inputs"
  note s0 = idle_connected [folded s0_def]
  have s: "s = ws_run (base_env idle_user) s0 configure_inputs"
    by (simp add: s_def s0_def client_run_def ws_run_append)
  show "wc_state s = connected" "wc_disconnect_handler s = Some 9" "wc_read_timeout s = 10"
    "wc_last_read_time s = 6" "wc_ping_interval s = 20" "wc_ping_message_generator s = None"
    "wc_pending s = [Read_op 0, Read_wait, Ping_wait]" "disconnect_calls s = []"
    "queued (wc_write_slots s) = []"
    using s0 by (simp_all add: s configure_inputs_def post_def emit_def start_ping_timer_def
        start_ping_timer_after_def stop_ping_timer_def start_read_timer_def stop_read_timer_def
        is_connected_def start_op_def disconnect_calls_def Let_def)
qed

lemma configured_length: "Suc (length (connect_inputs @ configure_inputs)) < 2 ^ 64"
  by (simp add: connect_inputs_def configure_inputs_def)

theorem ws_read_error_reported_witness:
  "disconnect_calls (ws_step (base_env idle_user)
     (client_run idle_user zero_bytes (connect_inputs @ configure_inputs))
     (In_complete 0 (ok_completion\<lparr>comp_ec := Some (Sys_error 1)\<rparr>))) = [(9, Some (Sys_error 1))]"
  using ws_read_error_reported [OF length_zero_bytes configured_length refl configured(1) _ _ _ refl,
      of 0 0 "ok_completion\<lparr>comp_ec := Some (Sys_error 1)\<rparr>" "Sys_error 1"] configured
  by (simp del: ws_step.simps)

theorem ws_read_timeout_witness:
  "disconnect_calls (ws_step (base_env idle_user)
     (client_run idle_user zero_bytes (connect_inputs @ configure_inputs))
     (In_complete 1 (ok_completion\<lparr>comp_now := 16\<rparr>))) = [(9, Some timed_out)] \<and>
   wc_state (ws_step (base_env idle_user)
     (client_run idle_user zero_bytes (connect_inputs @ configure_inputs))
     (In_complete 1 (ok_completion\<lparr>comp_now := 15\<rparr>))) = connected"
  using ws_read_timeout [OF length_zero_bytes configured_length refl configured(1) _ _ _ _ refl,
      of 1 "ok_completion\<lparr>comp_now := 16\<rparr>"]
    ws_read_timeout [OF length_zero_bytes configured_length refl configured(1) _ _ _ _ refl,
      of 1 "ok_completion\<lparr>comp_now := 15\<rparr>"] configured
  by (simp add: ok_completion_def del: ws_step.simps)

theorem ws_ping_witness:
  "last (wc_trace (handle_ping_timer (base_env idle_user) None
     (client_run idle_user zero_bytes (connect_inputs @ configure_inputs)))) = Ping_timer_after 20"
  using ws_ping [OF length_zero_bytes Suc_lessD [OF configured_length] refl configured(1) _ configured(6) refl]
    configured by simp

section \<open>Completions of an abandoned attempt\<close>

text \<open>
  The completion handlers of a connection attempt check the state of the client and not to which
  attempt they belong. The resolver may deliver the completion of a cancelled resolution late.
\<close>

lemma get_size_new_ring: "get_size (new_ring n d) = 0"
  by (simp add: get_size_def new_ring_def)

definition overlap_inputs :: "nat ws_input list" where
  "overlap_inputs =
     [In_api (Api_connect ''a'' ''443'' ''/'' (Some 3)), In_task 0 0,
      In_api (Api_post (Do_close None)), In_task 0 0,
      In_api (Api_connect ''b'' ''443'' ''/'' (Some 4)), In_task 0 0,
      In_complete 0 (ok_completion\<lparr>comp_ec := Some operation_aborted\<rparr>), In_complete 0 ok_completion]"

fun connect_call :: "'h ws_event \<Rightarrow> ('h connect_cb \<times> error_code) list" where
  "connect_call (Called_connect cb ec) = [(cb, ec)]"
| "connect_call _ = []"

text \<open>
  A finding. A program connects, closes, and connects again while the first resolution is still
  running. When the cancelled resolution then completes with \<^verbatim>\<open>operation_aborted\<close>, it tears down the
  second attempt and reports the error to the first handler; the successful resolution of the second
  attempt is ignored, so the client stays disconnected with nothing outstanding and the second handler
  is never called.
\<close>

theorem stale_resolution_aborts_next_attempt:
  "let s = client_run idle_user zero_bytes overlap_inputs in
     wc_state s = disconnected \<and> wc_pending s = [] \<and> wc_posted s = [] \<and>
     concat (map connect_call (wc_trace s)) = [(User_cb 3, Some operation_aborted)]"
  by (simp add: client_run_def overlap_inputs_def new_ws_client_def post_def emit_def do_connect_def
      do_close_eq live_def closing_state_def create_stream_def set_state_def start_op_def get_size_new_ring
      cancel_pending_operations_def stop_ping_timer_def stop_read_timer_def close_socket_def call_close_def
      handle_resolve_def is_connecting_def fail_connection_def call_connect_def ok_completion_def
      base_env_def run_user_def idle_user_def Let_def)

definition rejected_inputs :: "nat ws_input list" where
  "rejected_inputs =
     [In_api (Api_connect ''a'' ''443'' ''/'' (Some 3)), In_task 0 0, In_complete 0 ok_completion,
      In_api (Api_connect ''b'' ''443'' ''/'' (Some 4)), In_task 0 0, In_complete 0 ok_completion]"

text \<open>
  A finding. \<^verbatim>\<open>connect\<close> stores its arguments before it is known whether the call is accepted. A
  second \<^verbatim>\<open>connect\<close> that is rejected with \<^verbatim>\<open>already_connected\<close> still changes the host of the attempt in
  progress: its connection was made to host \<open>a\<close>, but SNI and certificate verification use host \<open>b\<close>.
\<close>

theorem rejected_connect_changes_host:
  "let s = client_run idle_user zero_bytes rejected_inputs in
     Async_resolve ''a'' ''443'' \<in> set (wc_trace s) \<and> Async_resolve ''b'' ''443'' \<notin> set (wc_trace s) \<and>
     (User_cb 4, Some already_connected) \<in> set (concat (map connect_call (wc_trace s))) \<and>
     Verify_host 0 ''b'' None \<in> set (wc_trace s) \<and> last (wc_trace s) = Async_tls_handshake 0"
  by (simp add: client_run_def rejected_inputs_def new_ws_client_def post_def emit_def do_connect_def
      create_stream_def set_state_def start_op_def handle_resolve_def handle_connect_def is_connecting_def
      call_connect_def ok_completion_def base_env_def run_user_def idle_user_def Let_def)

end
