(* ===== verification/Contracted_Runs.thy ===== *)
theory Contracted_Runs
  imports Prelude
begin

text \<open>
  Runs whose inputs keep a contract. A component is a step function on its state; the contract of the
  libraries it runs on says which inputs can occur in which state. An invariant that every step
  keeps under the contract holds after every run that respects it. The clients interpret the
  locale with their own step functions, contracts and invariants.
\<close>

fun keeps_contract :: "('s \<Rightarrow> 'i \<Rightarrow> 's) \<Rightarrow> ('s \<Rightarrow> 'i \<Rightarrow> bool) \<Rightarrow> 's \<Rightarrow> 'i list \<Rightarrow> bool" where
  "keeps_contract step ok s [] = True"
| "keeps_contract step ok s (i # is) = (ok s i \<and> keeps_contract step ok (step s i) is)"

lemma keeps_contract_append:
  "keeps_contract step ok s (xs @ ys) \<longleftrightarrow> keeps_contract step ok s xs \<and> keeps_contract step ok (foldl step s xs) ys"
  by (induction xs arbitrary: s) simp_all

lemma keeps_contract_mono:
  "(\<And>s i. ok s i \<Longrightarrow> ok' s i) \<Longrightarrow> keeps_contract step ok s is \<Longrightarrow> keeps_contract step ok' s is"
  by (induction "is" arbitrary: s) simp_all

locale contracted_run =
  fixes step :: "'s \<Rightarrow> 'i \<Rightarrow> 's"
    and ok :: "'s \<Rightarrow> 'i \<Rightarrow> bool"
    and inv :: "'s \<Rightarrow> bool"
  assumes step_inv: "inv s \<Longrightarrow> ok s i \<Longrightarrow> inv (step s i)"
begin

lemma run_inv: "inv s \<Longrightarrow> keeps_contract step ok s is \<Longrightarrow> inv (foldl step s is)"
  by (induction "is" arbitrary: s) (simp_all add: step_inv)

text \<open>The invariant holds at every point of the run, not only at its end.\<close>

lemma prefix_inv:
  assumes "inv s" and "keeps_contract step ok s (xs @ ys)"
  shows "inv (foldl step s xs)"
  using assms by (auto simp: keeps_contract_append intro: run_inv)

end

end
