(* ===== verification/WebSocket_Reads.thy ===== *)
theory WebSocket_Reads
  imports WebSocket_Properties Contracted_Runs
begin

text \<open>
  The reading side of \<^verbatim>\<open>SecureWebSocketClient\<close>: one read is outstanding while the client is connected and
  never two on the same stream, as Beast demands; each message is handed to the message handler as it was
  received; and the padding after the message that the class promises is there. What the proofs need
  of a state is its \<open>rview\<close>, which no user handler can change.
\<close>

section \<open>The state that reading depends on\<close>

fun read_op :: "'h async_op \<Rightarrow> nat list" where
  "read_op (Read_op sid) = [sid]"
| "read_op _ = []"

fun message_call :: "'h ws_event \<Rightarrow> ('h \<times> string) list" where
  "message_call (Called_message h data) = [(h, data)]"
| "message_call _ = []"

record 'h rview =
  r_state :: connection_state
  r_ws :: "nat option"
  r_made :: nat
  r_buffer :: string
  r_reads :: "nat list"
  r_messages :: "('h \<times> string) list"

definition rview :: "('h, 'a) ws_client_scheme \<Rightarrow> 'h rview" where
  "rview s =
     \<lparr>r_state = wc_state s, r_ws = wc_ws s, r_made = wc_streams_made s, r_buffer = wc_read_buffer s,
      r_reads = concat (map read_op (wc_pending s)), r_messages = concat (map message_call (wc_trace s))\<rparr>"

lemma rview_sel [simp]:
  "r_state (rview s) = wc_state s" "r_ws (rview s) = wc_ws s" "r_made (rview s) = wc_streams_made s"
  "r_buffer (rview s) = wc_read_buffer s" "r_reads (rview s) = concat (map read_op (wc_pending s))"
  "r_messages (rview s) = concat (map message_call (wc_trace s))"
  by (simp_all add: rview_def)

lemma rview_emit: "message_call ev = [] \<Longrightarrow> rview (emit ev s) = rview s"
  by (simp add: rview_def emit_def)

lemma rview_events [simp]:
  "rview (emit (Async_resolve x1 x2) s) = rview s" "rview (emit (Expires_after n x3) s) = rview s"
  "rview (emit (Expires_never n) s) = rview s" "rview (emit (Async_connect n) s) = rview s"
  "rview (emit (Read_message_max n m) s) = rview s" "rview (emit (Set_no_delay n) s) = rview s"
  "rview (emit (Tls_host n x1 ok) s) = rview s" "rview (emit (Verify_host n x1 vc) s) = rview s"
  "rview (emit (Connect_requested x1 x2 y2) s) = rview s"
  "rview (emit (Async_tls_handshake n) s) = rview s" "rview (emit (Suggested_timeout n) s) = rview s"
  "rview (emit (No_timeout n) s) = rview s" "rview (emit (Async_websocket_handshake n x1 x2) s) = rview s"
  "rview (emit (Async_read n) s) = rview s" "rview (emit (Async_write n x1) s) = rview s"
  "rview (emit (Async_ping n) s) = rview s" "rview (emit Cancel_resolver s) = rview s"
  "rview (emit (Cancel_stream n) s) = rview s" "rview (emit (Close_socket n) s) = rview s"
  "rview (emit (Ping_timer_after x3) s) = rview s" "rview (emit Ping_timer_cancel s) = rview s"
  "rview (emit (Read_timer_at x3) s) = rview s" "rview (emit Read_timer_cancel s) = rview s"
  "rview (emit (Push_slot p) s) = rview s" "rview (emit (Pop_slot p) s) = rview s"
  "rview (emit (Executor_post t) s) = rview s" "rview (emit Assert_failed s) = rview s"
  "rview (emit (Called_connect cb ec) s) = rview s" "rview (emit (Called_write h ec) s) = rview s"
  "rview (emit (Called_close h ec) s) = rview s" "rview (emit (Called_disconnect h ec) s) = rview s"
  "rview (emit (Called_generator h) s) = rview s"
  by (simp_all add: rview_emit)

lemma rview_start_op [simp]: "rview (start_op p s) = (rview s)\<lparr>r_reads := r_reads (rview s) @ read_op p\<rparr>"
  by (simp add: rview_def start_op_def)

lemma rview_updates [simp]:
  "rview (s\<lparr>wc_write_slots := x1\<rparr>) = rview s" "rview (s\<lparr>wc_write_in_progress := x2\<rparr>) = rview s"
  "rview (s\<lparr>wc_write_generation := x3\<rparr>) = rview s" "rview (s\<lparr>wc_last_read_time := x4\<rparr>) = rview s"
  "rview (s\<lparr>wc_message_handler := x5\<rparr>) = rview s" "rview (s\<lparr>wc_disconnect_handler := x5\<rparr>) = rview s"
  "rview (s\<lparr>wc_ping_message_generator := x5\<rparr>) = rview s" "rview (s\<lparr>wc_ping_interval := x4\<rparr>) = rview s"
  "rview (s\<lparr>wc_read_timeout := x4\<rparr>) = rview s" "rview (s\<lparr>wc_posted := x6\<rparr>) = rview s"
  "rview (s\<lparr>wc_host := y1, wc_port := y2, wc_resource := y3\<rparr>) = rview s"
  "rview (s\<lparr>wc_read_buffer := b\<rparr>) = (rview s)\<lparr>r_buffer := b\<rparr>"
  "rview (ws_client.more_update f s) = rview s"
  by (simp_all add: rview_def)

lemma rview_set_state [simp]: "rview (set_state st s) = (rview s)\<lparr>r_state := st\<rparr>"
  by (simp add: rview_def set_state_def)

lemma rview_same [simp]: "(rview s)\<lparr>r_reads := concat (map read_op (wc_pending s))\<rparr> = rview s"
  by (simp add: rview_def)

lemma rview_start_write [simp]: "rview (start_write s) = rview s"
  by (simp add: start_write_def Let_def split: option.split)

lemma rview_queue_write [simp]: "rview (fst (queue_write ty msg h s)) = rview s"
  by (simp add: queue_write_def Let_def split: option.split)

lemma rview_api [simp]: "rview (api c s) = rview s"
  by (cases c) (simp_all add: post_def)

lemma rview_closed: "api_closed (\<lambda>t. rview t = v)"
  by (simp add: api_closed_def write_now_def)

lemma rview_timers [simp]:
  "rview (start_ping_timer_after d s) = rview s" "rview (start_ping_timer s) = rview s"
  "rview (stop_ping_timer s) = rview s" "rview (start_read_timer s) = rview s" "rview (stop_read_timer s) = rview s"
  "rview (close_socket s) = rview s"
  by (simp_all add: start_ping_timer_after_def start_ping_timer_def stop_ping_timer_def start_read_timer_def
      stop_read_timer_def close_socket_def split: option.split)

lemma rview_cancel_pending [simp]: "rview (cancel_pending_operations s) = rview s"
  by (simp add: cancel_pending_operations_def Let_def split: option.split)

section \<open>What each operation does to reading\<close>

text \<open>Nothing changes for the reading side, or the connection is given up.\<close>

definition same_or_down :: "'h rview \<Rightarrow> 'h rview \<Rightarrow> bool" where
  "same_or_down v w \<longleftrightarrow> w = v \<or> live (r_state v) \<and> w = v\<lparr>r_state := disconnected\<rparr>"

lemma same_or_down_refl [simp]: "same_or_down v v"
  by (simp add: same_or_down_def)

context ws_handlers
begin

lemma handlers_rview [simp]:
  "rview (fst (run_handler E h arg s)) = rview s" "rview (run_connect_cb E cb ec s) = rview s"
  "rview (on_unexpected_disconnect E ec s) = rview s"
  using handler_closed [OF rview_closed, of s "rview s"] connect_cb_closed [OF rview_closed, of s "rview s"]
    disconnect_closed [OF rview_closed, of "rview s" ec s] by simp_all

lemma calls_rview [simp]:
  "rview (call_write E h ec s) = rview s" "rview (call_close E h ec s) = rview s"
  "rview (call_connect E cb ec s) = rview s"
  by (simp_all add: call_write_def call_close_def call_connect_def split: option.split)

lemma do_write_rview [simp]: "rview (fst (do_write E msg h s)) = rview s"
proof (cases "queue_write Message msg h s")
  case (Pair t ec)
  then have "rview t = rview s" using rview_queue_write [of Message msg h s] by simp
  then show ?thesis by (simp add: do_write_def Pair split: option.split)
qed

lemma fail_one_rview: "rview (fail_one E s) = rview s"
  by (simp add: fail_one_def split: option.split)

lemma fail_loop_rview [simp]: "rview (fail_loop E n s) = rview s"
  by (induction n arbitrary: s) (simp_all add: fail_one_rview)

lemma do_close_rview:
  "rview (do_close E h s) = (if live (wc_state s) then (rview s)\<lparr>r_state := disconnected\<rparr> else rview s)"
  by (cases "wc_state s")
    (simp_all add: do_close_def fail_pending_writes_def live_def Let_def split: option.split)

lemma down [simp]: "live (wc_state s) \<Longrightarrow> same_or_down (rview s) ((rview s)\<lparr>r_state := disconnected\<rparr>)"
  by (simp add: same_or_down_def)

text \<open>Operations that only ever give the connection up, from a state that reads like \<open>s\<close>.\<close>

lemma do_close_down: "rview t = rview s \<Longrightarrow> same_or_down (rview s) (rview (do_close E h t))"
  by (metis do_close_rview same_or_down_def rview_sel(1))

lemma fail_connection_down: "rview t = rview s \<Longrightarrow> same_or_down (rview s) (rview (fail_connection E ec cb t))"
  by (simp add: fail_connection_def do_close_down)

lemma unexpected_down: "rview t = rview s \<Longrightarrow> same_or_down (rview s) (rview (handle_unexpected_disconnect E ec t))"
  by (simp add: handle_unexpected_disconnect_def do_close_down)

lemma handle_write_down: "same_or_down (rview s) (rview (handle_write E g ec s))"
  by (simp add: handle_write_def Let_def unexpected_down split: option.split)

lemma handle_ping_timer_rview: "rview (handle_ping_timer E ec s) = rview s"
  by (simp add: handle_ping_timer_def do_protocol_ping_def case_prod_beta Let_def split: option.split)

lemma handle_read_timeout_down: "same_or_down (rview s) (rview (handle_read_timeout E now ec s))"
  by (simp add: handle_read_timeout_def unexpected_down)

lemma handshake_down:
  "same_or_down (rview s) (rview (handle_resolve E cb ec s))"
  "same_or_down (rview s) (rview (handle_connect E cb c s))"
  "same_or_down (rview s) (rview (handle_ssl_handshake E cb ec s))"
  by (simp_all add: handle_resolve_def handle_connect_def handle_ssl_handshake_def Let_def fail_connection_down
      split: option.split)

lemma do_connect_rview:
  "rview (do_connect E cb s) =
     (if wc_state s \<noteq> disconnected then rview s
      else (rview s)\<lparr>r_state := connecting, r_ws := Some (wc_streams_made s),
              r_made := Suc (wc_streams_made s), r_buffer := []\<rparr>)"
  by (simp add: do_connect_def create_stream_def Let_def) (simp add: rview_def set_state_def)

lemma handle_websocket_handshake_rview:
  "same_or_down (rview s) (rview (handle_websocket_handshake E now cb ec s)) \<or>
   (\<exists>sid. wc_state s = connecting \<and> wc_ws s = Some sid \<and>
      rview (handle_websocket_handshake E now cb ec s) =
        (rview s)\<lparr>r_state := connected, r_reads := r_reads (rview s) @ [sid]\<rparr>)"
proof (cases "wc_ws s")
  case (Some sid)
  define u where "u = start_read_timer ((call_connect E cb None (set_state connected s))\<lparr>wc_last_read_time := now\<rparr>)"
  have u: "rview u = (rview s)\<lparr>r_state := connected\<rparr>" by (simp add: u_def)
  then have "wc_state u = connected" "wc_ws u = Some sid" "concat (map read_op (wc_pending u)) = r_reads (rview s)"
    using Some rview_sel [of u] by simp_all
  then have "rview (start_read u) = (rview s)\<lparr>r_state := connected, r_reads := r_reads (rview s) @ [sid]\<rparr>"
    using u by (simp add: start_read_def is_connected_def)
  then show ?thesis
    using Some by (auto simp: handle_websocket_handshake_def Let_def is_connecting_def u_def fail_connection_down)
qed (simp add: handle_websocket_handshake_def)

text \<open>A read completes; \<open>s\<close> is the state with what it received in the buffer.\<close>

lemma handle_read_rview:
  "handle_read E now ec s = s \<and> wc_state s \<noteq> connected \<or>
   wc_state s = connected \<and> ec \<noteq> None \<and> rview (handle_read E now ec s) = (rview s)\<lparr>r_state := disconnected\<rparr> \<or>
   wc_state s = connected \<and> ec = None \<and>
     rview (handle_read E now ec s) = (rview s)\<lparr>r_buffer := [],
       r_reads := r_reads (rview s) @ (case wc_ws s of None \<Rightarrow> [] | Some sid \<Rightarrow> [sid]),
       r_messages := r_messages (rview s) @
         (case wc_message_handler s of None \<Rightarrow> [] | Some h \<Rightarrow> [(h, wc_read_buffer s)])\<rparr>"
proof (cases "wc_state s = connected \<and> ec = None")
  case True
  define u where "u = (case wc_message_handler s of None \<Rightarrow> s\<lparr>wc_last_read_time := now\<rparr>
    | Some h \<Rightarrow> fst (run_handler E h (Arg_data (wc_read_buffer s))
        (emit (Called_message h (wc_read_buffer s)) (s\<lparr>wc_last_read_time := now\<rparr>))))"
  define v where "v = (rview s)\<lparr>r_messages := r_messages (rview s) @
    (case wc_message_handler s of None \<Rightarrow> [] | Some h \<Rightarrow> [(h, wc_read_buffer s)])\<rparr>"
  have "rview (emit (Called_message h d) t) = (rview t)\<lparr>r_messages := r_messages (rview t) @ [(h, d)]\<rparr>"
    for h d and t :: "('h, 'a) ws_client_scheme"
    by (simp add: rview_def emit_def)
  then have u: "rview u = v" by (simp add: u_def v_def split: option.split)
  have "rview (start_read (u\<lparr>wc_read_buffer := []\<rparr>)) = v\<lparr>r_buffer := [],
      r_reads := r_reads v @ (case r_ws v of None \<Rightarrow> [] | Some sid \<Rightarrow> [sid])\<rparr>"
    using True u rview_sel [of u] by (auto simp: start_read_def is_connected_def v_def split: option.split)
  moreover have "handle_read E now ec s = start_read (u\<lparr>wc_read_buffer := []\<rparr>)"
    using True by (simp add: handle_read_def is_connected_def u_def Let_def split: option.split)
  ultimately show ?thesis using True by (simp add: v_def)
next
  case False
  then show ?thesis
    by (auto simp: handle_read_def is_connected_def handle_unexpected_disconnect_def do_close_rview live_def)
qed

end

section \<open>The invariant of reading\<close>

definition read_inv :: "'h rview \<Rightarrow> bool" where
  "read_inv v \<longleftrightarrow>
     distinct (r_reads v) \<and> (\<forall>x \<in> set (r_reads v). x < r_made v) \<and>
     (\<forall>m \<in> set (r_messages v). length (snd m) \<le> read_buffer_size) \<and>
     (r_state v = connecting \<longrightarrow> (\<exists>sid. r_ws v = Some sid \<and> sid < r_made v \<and> sid \<notin> set (r_reads v)) \<and> r_buffer v = []) \<and>
     (r_state v = connected \<longrightarrow> (\<exists>sid. r_ws v = Some sid \<and> sid \<in> set (r_reads v)) \<and> r_buffer v = [])"

lemma read_inv_down: "same_or_down v w \<Longrightarrow> read_inv v \<Longrightarrow> read_inv w"
  by (auto simp: same_or_down_def read_inv_def)

lemma read_inv_handshake:
  assumes "read_inv (rview s)"
    and "same_or_down (rview s) v \<or>
      (\<exists>sid. wc_state s = connecting \<and> wc_ws s = Some sid \<and>
        v = (rview s)\<lparr>r_state := connected, r_reads := r_reads (rview s) @ [sid]\<rparr>)"
  shows "read_inv v"
  using assms(2)
proof
  assume "same_or_down (rview s) v"
  then show ?thesis using assms(1) by (rule read_inv_down)
next
  assume "\<exists>sid. wc_state s = connecting \<and> wc_ws s = Some sid \<and>
    v = (rview s)\<lparr>r_state := connected, r_reads := r_reads (rview s) @ [sid]\<rparr>"
  then obtain sid where sid: "wc_state s = connecting" "wc_ws s = Some sid"
      "v = (rview s)\<lparr>r_state := connected, r_reads := r_reads (rview s) @ [sid]\<rparr>"
    by blast
  with assms(1) have "sid < r_made (rview s)" "sid \<notin> set (r_reads (rview s))" by (simp_all add: read_inv_def)
  with assms(1) sid show ?thesis by (auto simp: read_inv_def)
qed

text \<open>
  What Beast documents of reads. A read that succeeds has received one message, of at most the size set by
  \<^verbatim>\<open>read_message_max\<close>, which the client sets to \<open>read_buffer_size\<close> for every stream; a read on a stream that
  has been replaced, and hence destroyed, completes with an error and delivers nothing. (The client relies
  on the latter: \<^verbatim>\<open>handle_read\<close>, unlike \<^verbatim>\<open>handle_write\<close>, does not check to which stream a completion belongs.)
\<close>

fun beast_read :: "('h, 'a) ws_client_scheme \<Rightarrow> 'h ws_input \<Rightarrow> bool" where
  "beast_read s (In_complete i c) =
     (\<forall>sid. i < length (wc_pending s) \<longrightarrow> wc_pending s ! i = Read_op sid \<longrightarrow>
        (comp_ec c = None \<longrightarrow> length (comp_bytes c) \<le> read_buffer_size) \<and>
        (wc_ws s \<noteq> Some sid \<longrightarrow> comp_ec c \<noteq> None \<and> comp_bytes c = []))"
| "beast_read s _ = True"

abbreviation beast_reads :: "('h, 'a) ws_env \<Rightarrow> ('h, 'a) ws_client_scheme \<Rightarrow> 'h ws_input list \<Rightarrow> bool" where
  "beast_reads E \<equiv> keeps_contract (ws_step E) beast_read"

lemma reads_split:
  assumes "i < length ps"
  shows "concat (map read_op ps) =
    concat (map read_op (take i ps)) @ read_op (ps ! i) @ concat (map read_op (drop (Suc i) ps))"
  by (subst id_take_nth_drop [OF assms]) simp

lemma read_op_mem: "sid \<in> set (concat (map read_op ps)) \<longleftrightarrow> Read_op sid \<in> set ps"
proof (induction ps)
  case (Cons p ps)
  then show ?case by (cases p) auto
qed simp

lemma rview_remove_op:
  "rview (s\<lparr>wc_pending := ps\<rparr>) = (rview s)\<lparr>r_reads := concat (map read_op ps)\<rparr>"
  by (simp add: rview_def)

context ws_handlers
begin

lemma run_task_read_inv:
  assumes "read_inv (rview s)"
  shows "read_inv (rview (run_task E now tk s))"
proof (cases tk)
  case (Do_connect cb)
  have "wc_streams_made s \<notin> set (r_reads (rview s))" using assms by (auto simp: read_inv_def)
  with Do_connect assms show ?thesis by (auto simp: do_connect_rview read_inv_def less_Suc_eq)
next
  case (Do_close h)
  then show ?thesis using read_inv_down [OF do_close_down [OF refl] assms] by simp
qed (use assms in \<open>simp_all add: Let_def\<close>)

lemma read_completes:
  assumes "read_inv (rview s)" and "wc_pending s ! i = Read_op sid" and "i < length (wc_pending s)"
    and "beast_read s (In_complete i c)"
  shows "read_inv (rview (ws_step E s (In_complete i c)))"
    and "wc_state s = connected \<Longrightarrow> comp_ec c = None \<Longrightarrow> t = ws_step E s (In_complete i c) \<Longrightarrow>
      wc_ws s = Some sid \<and> wc_state t = connected \<and> wc_ws t = Some sid \<and> Read_op sid \<in> set (wc_pending t) \<and>
      concat (map message_call (wc_trace t)) = concat (map message_call (wc_trace s)) @
        (case wc_message_handler s of None \<Rightarrow> [] | Some h \<Rightarrow> [(h, comp_bytes c)]) \<and>
      length (comp_bytes c) \<le> read_buffer_size"
proof -
  let ?ps = "take i (wc_pending s) @ drop (Suc i) (wc_pending s)"
  let ?b = "wc_read_buffer s @ comp_bytes c"
  define u where "u = s\<lparr>wc_pending := ?ps, wc_read_buffer := ?b\<rparr>"
  define w where "w = handle_read E (comp_now c) (comp_ec c) u"
  have step: "ws_step E s (In_complete i c) = w" using assms(2,3) by (simp add: w_def u_def)
  have reads: "r_reads (rview s) = concat (map read_op (take i (wc_pending s))) @ [sid] @ concat (map read_op (drop (Suc i) (wc_pending s)))"
    using reads_split [OF assms(3)] assms(2) by simp
  define rs where "rs = concat (map read_op ?ps)"
  have rs: "distinct rs" "set rs = set (r_reads (rview s)) - {sid}" "sid \<in> set (r_reads (rview s))"
    using assms(1) reads by (auto simp: read_inv_def rs_def simp del: rview_sel)
  have u: "rview u = (rview s)\<lparr>r_reads := rs, r_buffer := ?b\<rparr>"
    by (simp add: u_def rview_def rs_def)
  have sel: "wc_state u = wc_state s" "wc_ws u = wc_ws s" "wc_message_handler u = wc_message_handler s" "wc_read_buffer u = ?b"
    by (simp_all add: u_def)
  have beast: "comp_ec c = None \<Longrightarrow> length (comp_bytes c) \<le> read_buffer_size"
      "wc_ws s \<noteq> Some sid \<Longrightarrow> comp_ec c \<noteq> None \<and> comp_bytes c = []"
    using assms(2-4) by auto
  note cases = handle_read_rview [of "comp_now c" "comp_ec c" u, folded w_def, unfolded u sel]
  have buf: "live (wc_state s) \<Longrightarrow> wc_read_buffer s = []" using assms(1) by (auto simp: read_inv_def live_def)
  show "read_inv (rview (ws_step E s (In_complete i c)))"
    unfolding step
  proof (cases "wc_state s = connected")
    case True
    then have b: "wc_read_buffer s = []" using buf by (simp add: live_def)
    show "read_inv (rview w)"
    proof (cases "comp_ec c = None")
      case None: True
      then have ws: "wc_ws s = Some sid" using beast(2) by blast
      have "rview w = (rview s)\<lparr>r_buffer := [], r_reads := rs @ [sid], r_messages := r_messages (rview s) @
          (case wc_message_handler s of None \<Rightarrow> [] | Some h \<Rightarrow> [(h, comp_bytes c)])\<rparr>"
        using cases [unfolded b append_Nil] True None ws by simp
      then show ?thesis
        using assms(1) rs ws beast(1) [OF None] True by (auto simp: read_inv_def split: option.splits)
    next
      case False
      then have "rview w = (rview s)\<lparr>r_state := disconnected, r_reads := rs, r_buffer := ?b\<rparr>"
        using cases True by auto
      then show ?thesis using assms(1) rs by (auto simp: read_inv_def)
    qed
  next
    case False
    then have "w = u" using cases by simp
    moreover have "?b = []" if "wc_state s = connecting"
    proof -
      have "wc_ws s \<noteq> Some sid" using assms(1) rs(3) that by (auto simp: read_inv_def)
      with beast(2) buf that show ?thesis by (simp add: live_def)
    qed
    ultimately show "read_inv (rview w)" using assms(1) rs False by (auto simp: u read_inv_def)
  qed
  assume con: "wc_state s = connected" and ok: "comp_ec c = None" and t: "t = ws_step E s (In_complete i c)"
  have ws: "wc_ws s = Some sid" using beast(2) ok by blast
  have b: "wc_read_buffer s = []" using buf con by (simp add: live_def)
  from cases [unfolded b append_Nil] con ok ws have w: "rview w = (rview s)\<lparr>r_buffer := [], r_reads := rs @ [sid], r_messages := r_messages (rview s) @
      (case wc_message_handler s of None \<Rightarrow> [] | Some h \<Rightarrow> [(h, comp_bytes c)])\<rparr>"
    by simp
  have "sid \<in> set (r_reads (rview w))" by (simp add: w del: rview_sel)
  then have "Read_op sid \<in> set (wc_pending w)" by (simp only: rview_sel read_op_mem)
  moreover have "wc_state w = connected" "wc_ws w = Some sid"
      "concat (map message_call (wc_trace w)) = concat (map message_call (wc_trace s)) @
        (case wc_message_handler s of None \<Rightarrow> [] | Some h \<Rightarrow> [(h, comp_bytes c)])"
    using rview_sel [of w] con ws by (simp_all add: w)
  ultimately show "wc_ws s = Some sid \<and> wc_state t = connected \<and> wc_ws t = Some sid \<and> Read_op sid \<in> set (wc_pending t) \<and>
      concat (map message_call (wc_trace t)) = concat (map message_call (wc_trace s)) @
        (case wc_message_handler s of None \<Rightarrow> [] | Some h \<Rightarrow> [(h, comp_bytes c)]) \<and>
      length (comp_bytes c) \<le> read_buffer_size"
    unfolding t step using ws beast(1) [OF ok] by blast
qed

lemma ws_step_read_inv:
  assumes "read_inv (rview s)" and "beast_read s i"
  shows "read_inv (rview (ws_step E s i))"
proof (cases i)
  case (In_api call)
  then show ?thesis using assms(1) by simp
next
  case (In_write_now b msg)
  then show ?thesis using assms(1) by (simp add: write_now_def)
next
  case (In_task k now)
  have "read_inv (rview (s\<lparr>wc_posted := x\<rparr>))" for x using assms(1) by simp
  then show ?thesis using assms(1) In_task by (simp add: run_task_read_inv)
next
  case (In_complete k c)
  show ?thesis
  proof (cases "k < length (wc_pending s)")
    case True
    let ?u = "s\<lparr>wc_pending := take k (wc_pending s) @ drop (Suc k) (wc_pending s)\<rparr>"
    have step: "ws_step E s i = complete_op E (wc_pending s ! k) c ?u" using True In_complete by simp
    show ?thesis
    proof (cases "\<exists>sid. wc_pending s ! k = Read_op sid")
      case True
      then show ?thesis using read_completes(1) [OF assms(1) _ \<open>k < _\<close>] assms(2) In_complete by blast
    next
      case False
      then have "read_op (wc_pending s ! k) = []" by (cases "wc_pending s ! k") simp_all
      then have "rview ?u = rview s"
        using reads_split [OF True] by (simp add: rview_remove_op)
      then have u: "read_inv (rview ?u)" using assms(1) by simp
      note down = read_inv_down [OF _ u]
      show ?thesis
      proof (cases "wc_pending s ! k")
        case (Websocket_handshake_op cb)
        show ?thesis
          unfolding step Websocket_handshake_op complete_op.simps
          by (rule read_inv_handshake [OF u handle_websocket_handshake_rview])
      next
        case (Resolve_op cb)
        show ?thesis unfolding step Resolve_op by (simp add: down [OF handshake_down(1)])
      next
        case (Connect_op cb)
        show ?thesis unfolding step Connect_op by (simp add: down [OF handshake_down(2)])
      next
        case (Ssl_handshake_op cb)
        show ?thesis unfolding step Ssl_handshake_op by (simp add: down [OF handshake_down(3)])
      next
        case (Write_op sid g)
        show ?thesis unfolding step Write_op by (simp add: down [OF handle_write_down])
      next
        case Read_wait
        show ?thesis unfolding step Read_wait by (simp add: down [OF handle_read_timeout_down])
      next
        case Ping_wait
        show ?thesis using u unfolding step Ping_wait by (simp add: handle_ping_timer_rview)
      qed (use False in simp)
    qed
  next
    case False
    then show ?thesis using assms(1) In_complete by simp
  qed
qed

end

interpretation rd: contracted_run "ws_step (base_env u)" beast_read "\<lambda>s. read_inv (rview s)" for u
  by unfold_locales (rule base.ws_step_read_inv)

lemma ws_run_foldl: "ws_run E s is = foldl (ws_step E) s is"
  by (induction "is" arbitrary: s) simp_all

section \<open>Properties\<close>

definition reads_outstanding :: "nat \<Rightarrow> ('h, 'a) ws_client_scheme \<Rightarrow> nat" where
  "reads_outstanding sid s = count_list (concat (map read_op (wc_pending s))) sid"

lemma read_inv_new: "read_inv (rview (new_ws_client bytes))"
  by (simp add: read_inv_def rview_def new_ws_client_def)

lemma client_run_read_inv:
  "beast_reads (base_env u) (new_ws_client bytes) is \<Longrightarrow> read_inv (rview (client_run u bytes is))"
  unfolding client_run_def ws_run_foldl by (rule rd.run_inv [OF read_inv_new])

lemma count_list_distinct: "distinct xs \<Longrightarrow> count_list xs x = (if x \<in> set xs then 1 else 0)"
  by (induction xs) auto

text \<open>A connection for the witnesses, and the same client with a message handler.\<close>

fun connection_op :: "'h async_op \<Rightarrow> bool" where
  "connection_op (Resolve_op cb) = True"
| "connection_op (Connect_op cb) = True"
| "connection_op (Ssl_handshake_op cb) = True"
| "connection_op (Websocket_handshake_op cb) = True"
| "connection_op _ = False"

lemma connect_keeps_contract:
  fixes s :: "nat ws_client" defines "s \<equiv> new_ws_client zero_bytes"
  assumes "\<And>host port resource es p. connection_op p \<Longrightarrow>
      ok (attempt host port resource s es [p]) (In_complete 0 ok_completion)"
    and "\<And>s a. ok s (In_api a)" and "\<And>s k now. ok s (In_task k now)"
  shows "keeps_contract (ws_step (base_env idle_user)) ok s connect_inputs"
proof -
  have n: "0 = length (wc_pending s)" "0 = wc_streams_made s" by (simp_all add: s_def)
  have "ws_step E (ws_step E s (In_api (Api_connect host port resource (Some h)))) (In_task 0 0) =
      attempt host port resource s [Connect_requested host port resource, Executor_post (Do_connect (Some (User_cb h))),
        Read_message_max 0 read_buffer_size, Async_resolve host port]
        [Resolve_op (Some (User_cb h))]" for E host port resource h
    using attempt_start [of s E host port resource h 0] by (simp add: s_def del: ws_step.simps)
  then show ?thesis
    by (simp add: connect_inputs_def assms(2-4) attempt_step [OF ok_succeeds n] del: ws_step.simps)
qed

lemma connect_beast: "beast_reads (base_env idle_user) (new_ws_client zero_bytes) connect_inputs"
proof (rule connect_keeps_contract)
  show "beast_read (attempt host port resource (new_ws_client zero_bytes) es [p]) (In_complete 0 ok_completion)"
    if "connection_op p" for host port resource es and p :: "nat async_op"
    using that by (cases p) (simp_all add: attempt_def)
qed simp_all

definition listen_inputs :: "nat ws_input list" where
  "listen_inputs = connect_inputs @ [In_api (Api_post (Assign_message_handler (Some 9))), In_task 0 0]"

lemma idle_listening:
  fixes s defines "s \<equiv> client_run idle_user zero_bytes listen_inputs"
  shows "beast_reads (base_env idle_user) (new_ws_client zero_bytes) listen_inputs"
    and "wc_state s = connected" and "wc_ws s = Some 0" and "wc_pending s = [Read_op 0]"
    and "wc_message_handler s = Some 9"
proof -
  show "beast_reads (base_env idle_user) (new_ws_client zero_bytes) listen_inputs"
    by (simp add: listen_inputs_def keeps_contract_append connect_beast)
  let ?t = "client_run idle_user zero_bytes connect_inputs"
  have "s = (post (Assign_message_handler (Some 9)) ?t)\<lparr>wc_posted := [], wc_message_handler := Some 9\<rparr>"
    using idle_connected(5) by (simp add: s_def listen_inputs_def client_run_def ws_run_append post_def)
  then show "wc_state s = connected" "wc_ws s = Some 0" "wc_pending s = [Read_op 0]" "wc_message_handler s = Some 9"
    using idle_connected by (simp_all add: post_def)
qed

text \<open>
  C19: one read at a time. If Beast keeps its contract for reads, then after any sequence of inputs no
  stream has two reads outstanding, and while the client is connected its stream has exactly one; so
  the client always listens and never breaks Beast's rule of one outstanding read.
\<close>

theorem ws_one_read_at_a_time:
  assumes "beast_reads (base_env u) (new_ws_client bytes) is" and "s = client_run u bytes is"
  shows "(\<forall>sid. reads_outstanding sid s \<le> 1) \<and>
    (is_connected s \<longrightarrow> (\<exists>sid. wc_ws s = Some sid \<and> reads_outstanding sid s = 1)) \<and>
    (is_connecting s \<longrightarrow> (\<exists>sid. wc_ws s = Some sid \<and> reads_outstanding sid s = 0))"
proof -
  have inv: "read_inv (rview s)" unfolding assms(2) using assms(1) by (rule client_run_read_inv)
  then have d: "distinct (concat (map read_op (wc_pending s)))" by (simp add: read_inv_def)
  show ?thesis
    unfolding reads_outstanding_def count_list_distinct [OF d]
    using inv by (auto simp: read_inv_def is_connected_def is_connecting_def)
qed

theorem ws_one_read_at_a_time_witness:
  "reads_outstanding 0 (client_run idle_user zero_bytes listen_inputs) = 1"
  using ws_one_read_at_a_time [OF idle_listening(1) refl] idle_listening(2,3) by (simp add: is_connected_def)

text \<open>
  C30: a message is delivered as it was received, with the padding that the class promises. When the read
  of a connected client completes without an error, the message handler, if there is one, is called
  once with exactly the bytes of the message; behind them at least \<open>read_padding\<close> bytes of the buffer are
  free; the client stays connected on its stream and the next read is outstanding.
\<close>

theorem ws_message_delivered:
  assumes "beast_reads (base_env u) (new_ws_client bytes) is" and "s = client_run u bytes is"
    and "is_connected s" and "i < length (wc_pending s)" and "wc_pending s ! i = Read_op sid"
    and "comp_ec c = None" and "beast_read s (In_complete i c)"
    and "t = ws_step (base_env u) s (In_complete i c)"
  shows "concat (map message_call (wc_trace t)) = concat (map message_call (wc_trace s)) @
      (case wc_message_handler s of None \<Rightarrow> [] | Some h \<Rightarrow> [(h, comp_bytes c)]) \<and>
    length (comp_bytes c) + read_padding \<le> read_buffer_capacity \<and>
    is_connected t \<and> wc_ws t = wc_ws s \<and> Read_op sid \<in> set (wc_pending t)"
proof -
  have "read_inv (rview s)" unfolding assms(2) using assms(1) by (rule client_run_read_inv)
  from base.read_completes(2) [OF this assms(5,4,7) _ assms(6,8)] assms(3) show ?thesis
    by (simp add: is_connected_def read_buffer_capacity_def)
qed

theorem ws_message_delivered_witness:
  "(9, ''hello'') \<in> set (concat (map message_call (wc_trace (ws_step (base_env idle_user)
     (client_run idle_user zero_bytes listen_inputs) (In_complete 0 (ok_completion\<lparr>comp_bytes := ''hello''\<rparr>))))))"
proof -
  let ?c = "ok_completion\<lparr>comp_bytes := ''hello''\<rparr>"
  let ?s = "client_run idle_user zero_bytes listen_inputs"
  have p: "is_connected ?s" "0 < length (wc_pending ?s)" "wc_pending ?s ! 0 = Read_op 0" "comp_ec ?c = None"
    by (simp_all add: idle_listening is_connected_def ok_completion_def)
  have "beast_read ?s (In_complete 0 ?c)"
    by (simp add: idle_listening ok_completion_def read_buffer_size_def)
  from ws_message_delivered [OF idle_listening(1) refl p this refl] idle_listening(5) show ?thesis
    by (simp del: ws_step.simps)
qed

end
