(* ===== verification/WebSocket_Progress.thy ===== *)
theory WebSocket_Progress
  imports WebSocket_Reads
begin

text \<open>
  \<^verbatim>\<open>SecureWebSocketClient\<close> never waits for nothing. While it is connecting, an operation of the attempt
  is outstanding; while it is connected, the timers that detect a dead connection and keep a live one open are
  armed, with a wait outstanding for each. The proofs look at a client through its \<open>pview\<close>, which no
  handler of the user can change.
\<close>

section \<open>The state that progress depends on\<close>

definition progress_op :: "'h async_op \<Rightarrow> bool" where
  "progress_op p \<longleftrightarrow> connection_op p \<or> p = Read_wait \<or> p = Ping_wait"

text \<open>What the read timer and the ping timer are set to, as the calls on them leave it.\<close>

fun read_event :: "'h ws_event \<Rightarrow> time_point option \<Rightarrow> time_point option" where
  "read_event (Read_timer_at x) r = Some x"
| "read_event Read_timer_cancel r = None"
| "read_event _ r = r"

fun ping_event :: "'h ws_event \<Rightarrow> duration option \<Rightarrow> duration option" where
  "ping_event (Ping_timer_after d) r = Some d"
| "ping_event Ping_timer_cancel r = None"
| "ping_event _ r = r"

definition read_deadline :: "('h, 'a) ws_client_scheme \<Rightarrow> time_point option" where
  "read_deadline s = fold read_event (wc_trace s) None"

definition ping_delay :: "('h, 'a) ws_client_scheme \<Rightarrow> duration option" where
  "ping_delay s = fold ping_event (wc_trace s) None"

record 'h pview =
  p_state :: connection_state
  p_ws :: "nat option"
  p_ping_interval :: duration
  p_read_timeout :: duration
  p_last_read :: time_point
  p_ops :: "'h async_op list"
  p_read :: "time_point option"
  p_ping :: "duration option"

definition pview :: "('h, 'a) ws_client_scheme \<Rightarrow> 'h pview" where
  "pview s =
     \<lparr>p_state = wc_state s, p_ws = wc_ws s, p_ping_interval = wc_ping_interval s, p_read_timeout = wc_read_timeout s,
      p_last_read = wc_last_read_time s, p_ops = filter progress_op (wc_pending s),
      p_read = read_deadline s, p_ping = ping_delay s\<rparr>"

lemma pview_sel:
  "p_state (pview s) = wc_state s" "p_ws (pview s) = wc_ws s" "p_ping_interval (pview s) = wc_ping_interval s"
  "p_read_timeout (pview s) = wc_read_timeout s" "p_last_read (pview s) = wc_last_read_time s"
  "p_ops (pview s) = filter progress_op (wc_pending s)" "p_read (pview s) = read_deadline s"
  "p_ping (pview s) = ping_delay s"
  by (simp_all add: pview_def)

fun timer_event :: "'h ws_event \<Rightarrow> bool" where
  "timer_event (Ping_timer_after d) = True"
| "timer_event Ping_timer_cancel = True"
| "timer_event (Read_timer_at x) = True"
| "timer_event Read_timer_cancel = True"
| "timer_event _ = False"

lemma pview_emit [simp]: "\<not> timer_event ev \<Longrightarrow> pview (emit ev s) = pview s"
  by (cases ev) (simp_all add: pview_def emit_def read_deadline_def ping_delay_def)

lemma pview_timer_events [simp]:
  "pview (emit (Read_timer_at x) s) = (pview s)\<lparr>p_read := Some x\<rparr>"
  "pview (emit Read_timer_cancel s) = (pview s)\<lparr>p_read := None\<rparr>"
  "pview (emit (Ping_timer_after d) s) = (pview s)\<lparr>p_ping := Some d\<rparr>"
  "pview (emit Ping_timer_cancel s) = (pview s)\<lparr>p_ping := None\<rparr>"
  by (simp_all add: pview_def emit_def read_deadline_def ping_delay_def)

lemma pview_start_op [simp]:
  "pview (start_op p s) = (if progress_op p then (pview s)\<lparr>p_ops := p_ops (pview s) @ [p]\<rparr> else pview s)"
  by (simp add: pview_def start_op_def)
    (simp add: read_deadline_def ping_delay_def)

lemma pview_updates [simp]:
  "pview (s\<lparr>wc_write_slots := x1\<rparr>) = pview s" "pview (s\<lparr>wc_write_in_progress := x2\<rparr>) = pview s"
  "pview (s\<lparr>wc_write_generation := x3\<rparr>) = pview s" "pview (s\<lparr>wc_read_buffer := x4\<rparr>) = pview s"
  "pview (s\<lparr>wc_message_handler := x5\<rparr>) = pview s" "pview (s\<lparr>wc_disconnect_handler := x5\<rparr>) = pview s"
  "pview (s\<lparr>wc_ping_message_generator := x5\<rparr>) = pview s" "pview (s\<lparr>wc_posted := x6\<rparr>) = pview s"
  "pview (s\<lparr>wc_host := y1, wc_port := y2, wc_resource := y3\<rparr>) = pview s"
  "pview (ws_client.more_update f s) = pview s"
  "pview (s\<lparr>wc_last_read_time := z\<rparr>) = (pview s)\<lparr>p_last_read := z\<rparr>"
  "pview (s\<lparr>wc_ping_interval := z\<rparr>) = (pview s)\<lparr>p_ping_interval := z\<rparr>"
  "pview (s\<lparr>wc_read_timeout := z\<rparr>) = (pview s)\<lparr>p_read_timeout := z\<rparr>"
  "pview (set_state st s) = (pview s)\<lparr>p_state := st\<rparr>"
  by (simp_all add: pview_def read_deadline_def ping_delay_def set_state_def)

lemma progress_op_simps [simp]:
  "\<not> progress_op (Read_op sid)" "\<not> progress_op (Write_op sid g)" "progress_op Read_wait" "progress_op Ping_wait"
  "progress_op (Resolve_op cb)" "progress_op (Connect_op cb)" "progress_op (Ssl_handshake_op cb)"
  "progress_op (Websocket_handshake_op cb)"
  by (simp_all add: progress_op_def)

lemma pview_writes [simp]: "pview (start_write s) = pview s" "pview (fst (queue_write ty msg h s)) = pview s"
proof -
  show w: "pview (start_write s) = pview s" for s :: "('a, 'b) ws_client_scheme"
    by (simp add: start_write_def Let_def split: option.split)
  show "pview (fst (queue_write ty msg h s)) = pview s"
    by (simp add: queue_write_def w Let_def split: option.split)
qed

lemma pview_api [simp]: "pview (api c s) = pview s"
  by (cases c) (simp_all add: post_def)

lemma pview_closed: "api_closed (\<lambda>t. pview t = v)"
  by (simp add: api_closed_def write_now_def)

lemma pview_start_read [simp]: "pview (start_read s) = pview s"
  by (simp add: start_read_def split: option.split)

lemma pview_start_read_timer:
  "pview (start_read_timer s) =
     (if wc_read_timeout s \<le> 0 \<or> wc_state s \<noteq> connected then pview s
      else (pview s)\<lparr>p_read := Some (wc_last_read_time s + wc_read_timeout s), p_ops := p_ops (pview s) @ [Read_wait]\<rparr>)"
  by (simp add: start_read_timer_def is_connected_def)

lemma pview_start_ping_timer_after:
  "pview (start_ping_timer_after d s) =
     (if wc_ping_interval s \<le> 0 \<or> wc_state s \<noteq> connected then pview s
      else (pview s)\<lparr>p_ping := Some d, p_ops := p_ops (pview s) @ [Ping_wait]\<rparr>)"
  by (simp add: start_ping_timer_after_def is_connected_def)

section \<open>The invariant\<close>

text \<open>\<open>timers\<close> is whether the timers are considered, which needs the contract of Asio's timers.\<close>

definition progress_inv :: "bool \<Rightarrow> 'h pview \<Rightarrow> bool" where
  "progress_inv timers v \<longleftrightarrow>
     (p_state v = connecting \<longrightarrow> p_ws v \<noteq> None \<and> (\<exists>p \<in> set (p_ops v). connection_op p)) \<and>
     (timers \<and> p_state v = connected \<and> 0 < p_read_timeout v \<longrightarrow>
        Read_wait \<in> set (p_ops v) \<and> (\<exists>x \<le> p_last_read v + p_read_timeout v. p_read v = Some x)) \<and>
     (timers \<and> p_state v = connected \<and> 0 < p_ping_interval v \<longrightarrow>
        Ping_wait \<in> set (p_ops v) \<and> (p_ping v = Some (p_ping_interval v) \<or> p_ping v = Some ping_retry_delay))"

text \<open>Its three parts, which the completion of an operation touches one at a time.\<close>

definition attempt_open :: "'h pview \<Rightarrow> bool" where
  "attempt_open v \<longleftrightarrow> (p_state v = connecting \<longrightarrow> p_ws v \<noteq> None \<and> (\<exists>p \<in> set (p_ops v). connection_op p))"

definition read_armed :: "'h pview \<Rightarrow> bool" where
  "read_armed v \<longleftrightarrow> (p_state v = connected \<and> 0 < p_read_timeout v \<longrightarrow>
     Read_wait \<in> set (p_ops v) \<and> (\<exists>x \<le> p_last_read v + p_read_timeout v. p_read v = Some x))"

definition ping_armed :: "'h pview \<Rightarrow> bool" where
  "ping_armed v \<longleftrightarrow> (p_state v = connected \<and> 0 < p_ping_interval v \<longrightarrow>
     Ping_wait \<in> set (p_ops v) \<and> (p_ping v = Some (p_ping_interval v) \<or> p_ping v = Some ping_retry_delay))"

lemmas parts_defs = attempt_open_def read_armed_def ping_armed_def

lemma progress_inv_parts: "progress_inv b v \<longleftrightarrow> attempt_open v \<and> (b \<longrightarrow> read_armed v \<and> ping_armed v)"
  unfolding progress_inv_def parts_defs by blast

lemma progress_inv_dead: "\<not> live (p_state v) \<Longrightarrow> progress_inv b v"
  by (auto simp: progress_inv_def live_def)

lemma progress_inv_more_ops: "progress_inv b v \<Longrightarrow> progress_inv b (v\<lparr>p_ops := p_ops v @ [p]\<rparr>)"
  by (auto simp: progress_inv_def)

text \<open>A client that becomes connected arms its timers.\<close>

lemma progress_inv_connected:
  assumes "wc_state s = connected"
  shows "progress_inv b (pview (start_ping_timer (start_read (start_read_timer s))))"
proof -
  define t where "t = start_read (start_read_timer s)"
  have t: "pview t = pview (start_read_timer s)" by (simp add: t_def)
  have "p_state (pview t) = connected" "p_ping_interval (pview t) = wc_ping_interval s"
    unfolding t pview_start_read_timer using assms by (simp_all add: pview_sel)
  then have sel: "wc_state t = connected" "wc_ping_interval t = wc_ping_interval s" by (simp_all add: pview_sel)
  show ?thesis
    unfolding t_def [symmetric] start_ping_timer_def pview_start_ping_timer_after sel t pview_start_read_timer
    using assms by (simp add: progress_inv_def pview_sel)
qed

context ws_handlers
begin

lemma handlers_pview [simp]:
  "pview (fst (run_handler E h arg s)) = pview s" "pview (run_connect_cb E cb ec s) = pview s"
  "pview (on_unexpected_disconnect E ec s) = pview s"
  using handler_closed [OF pview_closed, of s "pview s"] connect_cb_closed [OF pview_closed, of s "pview s"]
    disconnect_closed [OF pview_closed, of "pview s" ec s] by simp_all

lemma calls_pview [simp]:
  "pview (call_write E h ec s) = pview s" "pview (call_close E h ec s) = pview s"
  "pview (call_connect E cb ec s) = pview s"
  by (simp_all add: call_write_def call_close_def call_connect_def split: option.split)

lemma do_write_pview [simp]: "pview (fst (do_write E msg h s)) = pview s"
proof (cases "queue_write Message msg h s")
  case (Pair t ec)
  then have "pview t = pview s" using pview_writes(2) [of Message msg h s] by simp
  then show ?thesis by (simp add: do_write_def Pair split: option.split)
qed

lemma do_close_state: "live (wc_state s) \<Longrightarrow> wc_state (do_close E h s) = disconnected"
  using arg_cong [OF do_close_rview, of r_state h s] by simp

lemma do_close_pview: "\<not> live (wc_state s) \<Longrightarrow> pview (do_close E h s) = pview s"
  by (simp add: do_close_def live_def)

lemma do_close_inv: "progress_inv b (pview s) \<Longrightarrow> progress_inv b (pview (do_close E h s))"
proof (cases "live (wc_state s)")
  case True
  then have "p_state (pview (do_close E h s)) = disconnected" by (simp add: pview_sel do_close_state)
  then show ?thesis by (intro progress_inv_dead) (simp add: live_def)
qed (simp add: do_close_pview)

lemma fail_connection_state:
  assumes "wc_state s = connecting"
  shows "wc_state (fail_connection E ec cb s) = disconnected"
proof -
  have "p_state (pview (fail_connection E ec cb s)) = disconnected"
    using assms by (simp add: fail_connection_def) (simp add: pview_sel do_close_state live_def)
  then show ?thesis by (simp add: pview_sel)
qed

lemma fail_connection_inv: "wc_state s = connecting \<Longrightarrow> progress_inv b (pview (fail_connection E ec cb s))"
  by (intro progress_inv_dead) (simp add: pview_sel fail_connection_state live_def)

lemma unexpected_inv: "progress_inv b (pview s) \<Longrightarrow> progress_inv b (pview (handle_unexpected_disconnect E ec s))"
  by (simp add: handle_unexpected_disconnect_def do_close_inv)

lemma unexpected_connected:
  assumes "wc_state s = connected"
  shows "progress_inv b (pview (handle_unexpected_disconnect E ec s))"
proof -
  have "p_state (pview (handle_unexpected_disconnect E ec s)) = disconnected"
    using assms by (simp add: handle_unexpected_disconnect_def) (simp add: pview_sel do_close_state live_def)
  then show ?thesis by (intro progress_inv_dead) (simp add: live_def)
qed

text \<open>Connecting: the operation that completed is replaced by the next one, or the attempt is over.\<close>

lemma connecting_progress:
  assumes "wc_ws s \<noteq> None" and "wc_state s = connecting"
  shows "progress_inv b (pview (handle_resolve E cb ec s))" "progress_inv b (pview (handle_connect E cb c s))"
    "progress_inv b (pview (handle_ssl_handshake E cb ec s))" "progress_inv b (pview (handle_websocket_handshake E now cb ec s))"
proof -
  define t where "t = (call_connect E cb None (set_state connected s))\<lparr>wc_last_read_time := now\<rparr>"
  have "p_state (pview t) = connected" by (simp add: t_def)
  then have con: "progress_inv b (pview (start_ping_timer (start_read (start_read_timer t))))"
    by (intro progress_inv_connected) (simp add: pview_sel)
  have added: "progress_inv b ((pview v)\<lparr>p_ops := p_ops (pview v) @ [p]\<rparr>)"
    if "wc_ws v \<noteq> None" "wc_state v = connecting" "connection_op p" for v :: "('h, 'a) ws_client_scheme" and p
    using that by (auto simp: progress_inv_def pview_sel)
  have st: "wc_state (emit ev v) = wc_state v" for ev and v :: "('h, 'a) ws_client_scheme" by (simp add: emit_def)
  show "progress_inv b (pview (handle_resolve E cb ec s))" "progress_inv b (pview (handle_connect E cb c s))"
      "progress_inv b (pview (handle_ssl_handshake E cb ec s))"
    using assms by (auto simp: handle_resolve_def handle_connect_def handle_ssl_handshake_def is_connecting_def
        Let_def fail_connection_inv added st)
  show "progress_inv b (pview (handle_websocket_handshake E now cb ec s))"
    using assms con by (auto simp: handle_websocket_handshake_def is_connecting_def Let_def fail_connection_inv t_def)
qed

lemma not_connecting:
  assumes "wc_state s \<noteq> connecting"
  shows "handle_resolve E cb ec s = s" "handle_connect E cb c s = s"
    "handle_ssl_handshake E cb ec s = s" "handle_websocket_handshake E now cb ec s = s"
  using assms by (simp_all add: handle_resolve_def handle_connect_def handle_ssl_handshake_def
      handle_websocket_handshake_def is_connecting_def split: option.split)

lemma do_connect_inv: "progress_inv b (pview s) \<Longrightarrow> progress_inv b (pview (do_connect E cb s))"
proof (cases "wc_state s = disconnected")
  case True
  have "p_state (pview (do_connect E cb s)) = connecting \<and> p_ws (pview (do_connect E cb s)) \<noteq> None \<and>
      Resolve_op cb \<in> set (p_ops (pview (do_connect E cb s)))"
    using True by (simp add: do_connect_def Let_def create_stream_def) (simp add: pview_def set_state_def)
  then show ?thesis by (auto simp: progress_inv_def intro!: bexI [of _ "Resolve_op cb"])
qed (simp add: do_connect_def)

lemma handle_write_inv: "progress_inv b (pview s) \<Longrightarrow> progress_inv b (pview (handle_write E g ec s))"
  by (auto simp: handle_write_def Let_def unexpected_inv split: option.split)

lemma handle_read_inv:
  assumes "progress_inv b (pview s)" and "b \<longrightarrow> wc_last_read_time s \<le> now"
  shows "progress_inv b (pview (handle_read E now ec s))"
proof -
  have "progress_inv b ((pview s)\<lparr>p_last_read := now\<rparr>)"
    using assms by (fastforce simp: progress_inv_def pview_sel)
  then show ?thesis
    using assms(1) by (auto simp: handle_read_def Let_def unexpected_inv split: option.split)
qed

text \<open>A wait ends: the timer is armed again, or the connection is given up, or the wait was cancelled.\<close>

lemma handle_read_timeout_inv:
  assumes "attempt_open (pview s)" and "b \<longrightarrow> ping_armed (pview s)" and "b \<and> ec \<noteq> None \<longrightarrow> read_armed (pview s)"
  shows "progress_inv b (pview (handle_read_timeout E now ec s))"
proof (cases "ec \<noteq> None \<or> wc_state s \<noteq> connected \<or> wc_read_timeout s \<le> 0")
  case True
  then have "b \<longrightarrow> read_armed (pview s)" using assms(3) by (auto simp: read_armed_def pview_sel)
  then show ?thesis
    using True assms(1,2) by (auto simp: handle_read_timeout_def is_connected_def progress_inv_parts)
next
  case False
  then have "progress_inv b (pview (start_read_timer s))"
    using assms(1,2) by (simp add: pview_start_read_timer progress_inv_parts parts_defs pview_sel)
  then show ?thesis using False unexpected_connected [of s b] by (simp add: handle_read_timeout_def is_connected_def)
qed

lemma handle_ping_timer_inv:
  assumes "attempt_open (pview s)" and "b \<longrightarrow> read_armed (pview s)" and "b \<and> ec \<noteq> None \<longrightarrow> ping_armed (pview s)"
  shows "progress_inv b (pview (handle_ping_timer E ec s))"
proof (cases "ec \<noteq> None \<or> wc_state s \<noteq> connected \<or> wc_ping_interval s \<le> 0")
  case True
  then have "b \<longrightarrow> ping_armed (pview s)" using assms(3) by (auto simp: ping_armed_def pview_sel)
  then show ?thesis
    using True assms(1,2) by (auto simp: handle_ping_timer_def is_connected_def progress_inv_parts)
next
  case False
  define q where "q = (case wc_ping_message_generator s of
      Some h \<Rightarrow> (case run_handler E h Arg_none (emit (Called_generator h) s) of (s', message) \<Rightarrow> do_write E message None s')
    | None \<Rightarrow> do_protocol_ping s)"
  have v: "pview (fst q) = pview s"
    unfolding q_def by (simp add: do_protocol_ping_def case_prod_beta split: option.split)
  then have sel: "wc_state (fst q) = wc_state s" "wc_ping_interval (fst q) = wc_ping_interval s"
    by (metis pview_sel(1), metis pview_sel(3))
  let ?d = "if snd q = Some no_buffer_space then ping_retry_delay else wc_ping_interval s"
  have "handle_ping_timer E ec s = start_ping_timer_after ?d (fst q)"
    using False by (simp add: handle_ping_timer_def is_connected_def case_prod_beta sel flip: q_def)
  then have "pview (handle_ping_timer E ec s) = (pview s)\<lparr>p_ping := Some ?d, p_ops := p_ops (pview s) @ [Ping_wait]\<rparr>"
    using False by (simp add: pview_start_ping_timer_after sel v)
  then show ?thesis using assms(1,2) by (simp add: progress_inv_parts parts_defs pview_sel)
qed

lemma run_task_inv:
  assumes "progress_inv b (pview s)"
  shows "progress_inv b (pview (run_task E now tk s))"
proof (cases tk)
  case (Assign_ping_interval d)
  define v where "v = stop_ping_timer (s\<lparr>wc_ping_interval := d\<rparr>)"
  have v: "pview v = (pview s)\<lparr>p_ping_interval := d, p_ping := None\<rparr>" by (simp add: v_def stop_ping_timer_def)
  have sel: "wc_state v = wc_state s" "wc_ping_interval v = d" by (simp_all add: v_def stop_ping_timer_def emit_def)
  have "run_task E now tk s = (if wc_state s \<noteq> connected then s\<lparr>wc_ping_interval := d\<rparr> else start_ping_timer v)"
    by (simp add: Assign_ping_interval is_connected_def v_def)
  then have "pview (run_task E now tk s) = (if wc_state s \<noteq> connected then (pview s)\<lparr>p_ping_interval := d\<rparr>
      else if d \<le> 0 then (pview s)\<lparr>p_ping_interval := d, p_ping := None\<rparr>
      else (pview s)\<lparr>p_ping_interval := d, p_ping := Some d, p_ops := p_ops (pview s) @ [Ping_wait]\<rparr>)"
    by (simp add: start_ping_timer_def pview_start_ping_timer_after sel v del: run_task.simps)
  then show ?thesis using assms by (simp add: progress_inv_def pview_sel(1) del: run_task.simps)
next
  case (Assign_read_timeout d)
  define v where "v = stop_read_timer (s\<lparr>wc_read_timeout := d, wc_last_read_time := now\<rparr>)"
  have v: "pview v = (pview s)\<lparr>p_read_timeout := d, p_last_read := now, p_read := None\<rparr>"
    by (simp add: v_def stop_read_timer_def)
  have sel: "wc_state v = wc_state s" "wc_read_timeout v = d" "wc_last_read_time v = now"
    by (simp_all add: v_def stop_read_timer_def emit_def)
  have "run_task E now tk s = (if wc_state s \<noteq> connected then s\<lparr>wc_read_timeout := d\<rparr> else start_read_timer v)"
    by (simp add: Assign_read_timeout is_connected_def v_def)
  then have "pview (run_task E now tk s) = (if wc_state s \<noteq> connected then (pview s)\<lparr>p_read_timeout := d\<rparr>
      else if d \<le> 0 then (pview s)\<lparr>p_read_timeout := d, p_last_read := now, p_read := None\<rparr>
      else (pview s)\<lparr>p_read_timeout := d, p_last_read := now, p_read := Some (now + d), p_ops := p_ops (pview s) @ [Read_wait]\<rparr>)"
    by (simp add: pview_start_read_timer sel v del: run_task.simps)
  then show ?thesis using assms by (simp add: progress_inv_def pview_sel(1) del: run_task.simps)
qed (use assms in \<open>simp_all add: do_connect_inv do_close_inv\<close>)

end

section \<open>Completions\<close>

text \<open>
  What Asio documents of its timers and the standard of its clock. The latest wait on a timer that was set and
  not cancelled since ends without an error, and \<^verbatim>\<open>steady_clock\<close> does not go back.
\<close>

fun timers_contract :: "('h, 'a) ws_client_scheme \<Rightarrow> 'h ws_input \<Rightarrow> bool" where
  "timers_contract s (In_complete i c) \<longleftrightarrow>
     (i < length (wc_pending s) \<longrightarrow>
        wc_last_read_time s \<le> comp_now c \<and>
        (wc_pending s ! i = Read_wait \<and> Read_wait \<notin> set (drop (Suc i) (wc_pending s)) \<and> read_deadline s \<noteq> None \<longrightarrow>
           comp_ec c = None) \<and>
        (wc_pending s ! i = Ping_wait \<and> Ping_wait \<notin> set (drop (Suc i) (wc_pending s)) \<and> ping_delay s \<noteq> None \<longrightarrow>
           comp_ec c = None))"
| "timers_contract s _ \<longleftrightarrow> True"

lemma pview_remove_op:
  assumes "i < length (wc_pending s)" and "u = s\<lparr>wc_pending := take i (wc_pending s) @ drop (Suc i) (wc_pending s)\<rparr>"
  obtains ops where "pview u = (pview s)\<lparr>p_ops := ops\<rparr>"
    and "\<And>p. p \<in> set (p_ops (pview s)) \<Longrightarrow> p \<noteq> wc_pending s ! i \<or> p \<in> set (drop (Suc i) (wc_pending s)) \<Longrightarrow> p \<in> set ops"
    and "\<not> progress_op (wc_pending s ! i) \<Longrightarrow> ops = p_ops (pview s)"
proof
  let ?ps = "wc_pending s"
  have split: "?ps = take i ?ps @ ?ps ! i # drop (Suc i) ?ps" using assms(1) by (rule id_take_nth_drop)
  show "pview u = (pview s)\<lparr>p_ops := filter progress_op (take i ?ps @ drop (Suc i) ?ps)\<rparr>"
    by (simp add: assms(2) pview_def read_deadline_def ping_delay_def)
  show "p \<in> set (filter progress_op (take i ?ps @ drop (Suc i) ?ps))"
    if "p \<in> set (p_ops (pview s))" "p \<noteq> ?ps ! i \<or> p \<in> set (drop (Suc i) ?ps)" for p
  proof -
    have "p \<in> set ?ps" "progress_op p" using that(1) by (simp_all add: pview_sel)
    moreover have "set ?ps = set (take i ?ps) \<union> {?ps ! i} \<union> set (drop (Suc i) ?ps)" by (subst split) auto
    ultimately show ?thesis using that(2) by auto
  qed
  show "filter progress_op (take i ?ps @ drop (Suc i) ?ps) = p_ops (pview s)" if "\<not> progress_op (?ps ! i)"
  proof -
    have "filter progress_op ?ps = filter progress_op (take i ?ps @ ?ps ! i # drop (Suc i) ?ps)" using split by simp
    then show ?thesis using that by (simp add: pview_sel)
  qed
qed

text \<open>What is left of the invariant when the completed operation is taken out of the outstanding ones.\<close>

lemma remove_op_parts:
  assumes "progress_inv b (pview s)" and "b \<longrightarrow> timers_contract s (In_complete i c)" and "i < length (wc_pending s)"
    and "u = s\<lparr>wc_pending := take i (wc_pending s) @ drop (Suc i) (wc_pending s)\<rparr>"
  shows "\<not> connection_op (wc_pending s ! i) \<Longrightarrow> attempt_open (pview u)"
    and "b \<and> (wc_pending s ! i = Read_wait \<longrightarrow> comp_ec c \<noteq> None) \<Longrightarrow> read_armed (pview u)"
    and "b \<and> (wc_pending s ! i = Ping_wait \<longrightarrow> comp_ec c \<noteq> None) \<Longrightarrow> ping_armed (pview u)"
proof -
  let ?p = "wc_pending s ! i"
  obtain ops where ops: "pview u = (pview s)\<lparr>p_ops := ops\<rparr>"
      "\<And>p. p \<in> set (p_ops (pview s)) \<Longrightarrow> p \<noteq> ?p \<or> p \<in> set (drop (Suc i) (wc_pending s)) \<Longrightarrow> p \<in> set ops"
    using pview_remove_op [OF assms(3,4)] by metis
  have parts: "attempt_open (pview s)" "b \<longrightarrow> read_armed (pview s)" "b \<longrightarrow> ping_armed (pview s)"
    using assms(1) by (simp_all add: progress_inv_parts)
  show "attempt_open (pview u)" if "\<not> connection_op ?p"
    using parts(1) ops(2) that unfolding ops(1) attempt_open_def by simp metis
  show "read_armed (pview u)" if "b \<and> (?p = Read_wait \<longrightarrow> comp_ec c \<noteq> None)"
  proof (cases "p_state (pview s) = connected \<and> 0 < p_read_timeout (pview s)")
    case True
    then have r: "Read_wait \<in> set (p_ops (pview s))" "read_deadline s \<noteq> None"
      using parts(2) that by (auto simp: read_armed_def pview_sel)
    have "?p = Read_wait \<longrightarrow> Read_wait \<in> set (drop (Suc i) (wc_pending s))"
      using assms(2,3) that r(2) by (auto simp: timers_contract.simps)
    then have "Read_wait \<in> set ops" using ops(2) r(1) by metis
    then show ?thesis using parts(2) that by (simp add: ops(1) read_armed_def)
  qed (auto simp: ops(1) read_armed_def)
  show "ping_armed (pview u)" if "b \<and> (?p = Ping_wait \<longrightarrow> comp_ec c \<noteq> None)"
  proof (cases "p_state (pview s) = connected \<and> 0 < p_ping_interval (pview s)")
    case True
    then have r: "Ping_wait \<in> set (p_ops (pview s))" "ping_delay s \<noteq> None"
      using parts(3) that by (auto simp: ping_armed_def pview_sel)
    have "?p = Ping_wait \<longrightarrow> Ping_wait \<in> set (drop (Suc i) (wc_pending s))"
      using assms(2,3) that r(2) by (auto simp: timers_contract.simps)
    then have "Ping_wait \<in> set ops" using ops(2) r(1) by metis
    then show ?thesis using parts(3) that by (simp add: ops(1) ping_armed_def)
  qed (auto simp: ops(1) ping_armed_def)
qed

context ws_handlers
begin

lemma completion_inv:
  assumes "progress_inv b (pview s)" and "b \<longrightarrow> timers_contract s (In_complete i c)" and "i < length (wc_pending s)"
    and "u = s\<lparr>wc_pending := take i (wc_pending s) @ drop (Suc i) (wc_pending s)\<rparr>"
  shows "progress_inv b (pview (complete_op E (wc_pending s ! i) c u))"
proof -
  let ?p = "wc_pending s ! i"
  note rest = remove_op_parts [OF assms]
  have sel: "wc_state u = wc_state s" "wc_ws u = wc_ws s" "wc_last_read_time u = wc_last_read_time s"
    by (simp_all add: assms(4))
  have kept: "progress_inv b (pview u)"
    if "attempt_open (pview u)" "?p \<noteq> Read_wait" "?p \<noteq> Ping_wait"
    using that rest(2,3) by (auto simp: progress_inv_parts)
  show ?thesis
  proof (cases "connection_op ?p")
    case True
    show ?thesis
    proof (cases "wc_state s = connecting")
      case connecting: True
      then have "wc_ws u \<noteq> None" "wc_state u = connecting"
        using assms(1) by (simp_all add: sel progress_inv_def pview_sel)
      from connecting_progress [OF this, of b] True show ?thesis by (cases ?p) simp_all
    next
      case False
      have "complete_op E ?p c u = u" using True not_connecting [of u] False sel(1) by (cases ?p) simp_all
      moreover have "attempt_open (pview u)" using False by (simp add: attempt_open_def pview_sel sel)
      moreover have "?p \<noteq> Read_wait" "?p \<noteq> Ping_wait" using True by auto
      ultimately show ?thesis using kept by simp
    qed
  next
    case False
    note att = rest(1) [OF this]
    show ?thesis
    proof (cases ?p)
      case (Read_op sid)
      have "progress_inv b (pview (u\<lparr>wc_read_buffer := x\<rparr>))" "b \<longrightarrow> wc_last_read_time (u\<lparr>wc_read_buffer := x\<rparr>) \<le> comp_now c" for x
        using Read_op assms(2,3) kept att by (auto simp: sel)
      then show ?thesis using Read_op by (simp add: handle_read_inv del: pview_updates)
    next
      case (Write_op sid g)
      then show ?thesis using kept att by (simp add: handle_write_inv)
    next
      case Read_wait
      then show ?thesis using att rest(2,3) by (simp add: handle_read_timeout_inv)
    next
      case Ping_wait
      then show ?thesis using att rest(2,3) by (simp add: handle_ping_timer_inv)
    qed (use False in simp_all)
  qed
qed

lemma ws_step_progress:
  assumes "progress_inv b (pview s)" and "b \<longrightarrow> timers_contract s i"
  shows "progress_inv b (pview (ws_step E s i))"
proof (cases i)
  case (In_complete k c)
  show ?thesis
  proof (cases "k < length (wc_pending s)")
    case True
    then show ?thesis using completion_inv [OF assms(1) _ True refl] assms(2) In_complete by simp
  qed (use assms(1) In_complete in simp)
next
  case (In_task k now)
  have "progress_inv b (pview (s\<lparr>wc_posted := x\<rparr>))" for x using assms(1) by simp
  then show ?thesis using assms(1) In_task by (simp add: run_task_inv del: pview_updates)
qed (use assms(1) in \<open>simp_all add: write_now_def\<close>)

end

interpretation pr: contracted_run "ws_step (base_env u)" timers_contract "\<lambda>s. progress_inv True (pview s)" for u
  by unfold_locales (simp add: base.ws_step_progress)

lemma progress_inv_new: "progress_inv b (pview (new_ws_client bytes))"
  by (intro progress_inv_dead) (simp add: pview_sel live_def)

section \<open>Properties\<close>

fun stage :: "'h async_op \<Rightarrow> nat" where
  "stage (Resolve_op cb) = 1"
| "stage (Connect_op cb) = 2"
| "stage (Ssl_handshake_op cb) = 3"
| "stage (Websocket_handshake_op cb) = 4"
| "stage _ = 0"

context ws_handlers
begin

lemma connection_op_advances:
  assumes "wc_ws s = Some sid" and "wc_state s = connecting" and "connection_op p" and "t = complete_op E p c s"
  shows "wc_state t = disconnected \<or> wc_state t = connected \<and> stage p = 4 \<or>
    wc_state t = connecting \<and> (\<exists>q \<in> set (wc_pending t). stage q = Suc (stage p))"
proof -
  have st: "wc_state (emit ev v) = wc_state v" "wc_state (start_op q v) = wc_state v"
    for ev q and v :: "('h, 'a) ws_client_scheme" by (simp_all add: emit_def start_op_def)
  have started: "\<exists>q' \<in> set (wc_pending (start_op q v)). stage q' = n" if "stage q = n"
    for q n and v :: "('h, 'a) ws_client_scheme" using that by (auto simp: start_op_def)
  define v where "v cb = (call_connect E cb None (set_state connected s))\<lparr>wc_last_read_time := comp_now c\<rparr>" for cb
  have "p_state (pview (start_ping_timer (start_read (start_read_timer (v cb))))) = connected" for cb
    by (simp add: start_ping_timer_def pview_start_ping_timer_after pview_start_read_timer v_def)
  then have con: "wc_state (start_ping_timer (start_read (start_read_timer (v cb)))) = connected" for cb
    by (simp add: pview_sel)
  show ?thesis
    using assms(1-3) con
    by (cases p) (auto simp: assms(4) handle_resolve_def handle_connect_def handle_ssl_handshake_def
        handle_websocket_handshake_def is_connecting_def Let_def fail_connection_state st v_def intro!: started)
qed

end

text \<open>
  C13: an attempt to connect always goes on. In every state that can be reached in which the client is
  connecting, an operation of the attempt is outstanding, whatever came before; and whenever one completes, with any
  outcome, the attempt is over (connected, which only the last of the four stages can bring, or
  disconnected) or the operation of the next stage is outstanding.
\<close>

theorem ws_connecting_progress:
  assumes "s = client_run u bytes is" and "is_connecting s"
  shows "(\<exists>p \<in> set (wc_pending s). connection_op p) \<and>
    (\<forall>i c. i < length (wc_pending s) \<longrightarrow> connection_op (wc_pending s ! i) \<longrightarrow>
       (let t = ws_step (base_env u) s (In_complete i c)
        in wc_state t = disconnected \<or> wc_state t = connected \<and> stage (wc_pending s ! i) = 4 \<or>
           wc_state t = connecting \<and> (\<exists>q \<in> set (wc_pending t). stage q = Suc (stage (wc_pending s ! i)))))"
proof -
  have "progress_inv False (pview (ws_run (base_env u) v is))" if "progress_inv False (pview v)" for v
    using that by (induction "is" arbitrary: v) (simp_all add: base.ws_step_progress del: ws_step.simps)
  from this [OF progress_inv_new] have "progress_inv False (pview s)" by (simp add: assms(1) client_run_def)
  then obtain sid where s: "wc_ws s = Some sid" "\<exists>p \<in> set (wc_pending s). connection_op p"
    using assms(2) by (auto simp: progress_inv_def pview_sel is_connecting_def)
  let ?u = "\<lambda>i. s\<lparr>wc_pending := take i (wc_pending s) @ drop (Suc i) (wc_pending s)\<rparr>"
  have "wc_ws (?u i) = Some sid" "wc_state (?u i) = connecting" for i
    using s(1) assms(2) by (simp_all add: is_connecting_def)
  from base.connection_op_advances [OF this _ refl] s(2) show ?thesis by (auto simp: Let_def)
qed

theorem ws_connecting_progress_witness:
  "\<exists>p \<in> set (wc_pending (client_run chatty_user zero_bytes (take 2 connect_inputs))). connection_op p"
proof -
  have "is_connecting (client_run chatty_user zero_bytes (take 2 connect_inputs))"
    by (simp add: connect_inputs_def client_run_def post_def do_connect_def create_stream_def set_state_def start_op_def
        emit_def is_connecting_def new_ws_client_def)
  from ws_connecting_progress [OF refl this] show ?thesis by blast
qed

text \<open>
  C15: the timers of a connected client are armed. If Asio keeps its contract for timers, then in every state
  that can be reached in which the client is connected and a read timeout is set, a wait of the read timer is
  outstanding and the timer is set to a time no later than the timeout after the last message; so a
  connection that has gone silent is detected. If a ping interval is set, a wait of the ping timer is
  outstanding, and the timer is set to the interval or to the short delay after which a ping is tried again.
\<close>

theorem ws_timers_armed:
  assumes "keeps_contract (ws_step (base_env u)) timers_contract (new_ws_client bytes) is"
    and "s = client_run u bytes is" and "is_connected s"
  shows "(0 < wc_read_timeout s \<longrightarrow> Read_wait \<in> set (wc_pending s) \<and>
      (\<exists>x \<le> wc_last_read_time s + wc_read_timeout s. read_deadline s = Some x)) \<and>
    (0 < wc_ping_interval s \<longrightarrow> Ping_wait \<in> set (wc_pending s) \<and>
      (ping_delay s = Some (wc_ping_interval s) \<or> ping_delay s = Some ping_retry_delay))"
proof -
  have "progress_inv True (pview s)"
    unfolding assms(2) client_run_def ws_run_foldl using progress_inv_new assms(1) by (rule pr.run_inv)
  then show ?thesis using assms(3) by (simp add: progress_inv_def pview_sel is_connected_def)
qed

lemma connect_timers:
  "keeps_contract (ws_step (base_env idle_user)) timers_contract (new_ws_client zero_bytes) connect_inputs"
proof (rule connect_keeps_contract)
  show "timers_contract (attempt host port resource (new_ws_client zero_bytes) es [p]) (In_complete 0 ok_completion)"
    if "connection_op p" for host port resource es and p :: "nat async_op"
    using that by (auto simp: attempt_def new_ws_client_def ok_completion_def)
qed simp_all

theorem ws_timers_armed_witness:
  "read_deadline (client_run idle_user zero_bytes (connect_inputs @ configure_inputs)) \<noteq> None"
proof -
  have c: "keeps_contract (ws_step (base_env idle_user)) timers_contract (new_ws_client zero_bytes) (connect_inputs @ configure_inputs)"
    by (simp add: keeps_contract_append connect_timers configure_inputs_def del: ws_step.simps)
  from ws_timers_armed [OF c refl] configured show ?thesis by (auto simp: is_connected_def)
qed

end
