(* ===== verification/Reconnecting_WebSocket_Client.thy ===== *)
theory Reconnecting_WebSocket_Client
  imports WebSocket_Writes
begin

text \<open>
  \<^verbatim>\<open>cpp_components/secure_websocket_client/reconnecting_secure_websocket_client.{h,cpp}\<close>: the client that
  reconnects by itself. The record \<open>rc_client\<close> extends \<open>ws_client\<close> by the derived class's members; the
  operations of the base class are those of \<open>Secure_WebSocket_Client\<close>, run in the environment
  \<open>rc_env\<close>, which has the derived class's \<^verbatim>\<open>on_unexpected_disconnect\<close> and connect result handler. Four
  more fields stand for the surroundings: the posted closures of the derived class, the waits of the
  reconnect timer, the ready callbacks that were handed out, by generation, and the events.
\<close>

section \<open>Data\<close>

datatype reconnect_state = Idle | Connecting | Connected | Waiting_reconnect

datatype 'h rc_task =
    Start_connect "'h option" "'h option"
  | Stop_and_close "'h option"
  | Set_initial_delay duration
  | Set_max_delay duration
  | Connection_ready u64 string string string

datatype 'h rc_event =
    Rc_called_connect 'h error_code
  | Rc_called_prepare 'h u64
  | Reconnect_timer_after duration
  | Reconnect_timer_cancel
  | Rc_post "'h rc_task"

record 'h rc_client = "'h ws_client" +
  rc_connect_handler :: "'h option"
  rc_prepare_connection :: "'h option"
  rc_initial_delay :: duration
  rc_max_delay :: duration
  rc_current_delay :: duration
  rc_state :: reconnect_state
  rc_generation :: u64
  rc_posted :: "'h rc_task list"
  rc_waits :: "u64 list"
  rc_ready :: "u64 list"
  rc_trace :: "'h rc_event list"

definition new_rc_client :: "string \<Rightarrow> 'h rc_client" where
  "new_rc_client bytes = ws_client.extend (new_ws_client bytes)
     (rc_client.fields None None (seconds 1) (seconds 60) (seconds 1) Idle 0 [] [] [] [])"

definition rc_emit :: "'h rc_event \<Rightarrow> 'h rc_client \<Rightarrow> 'h rc_client" where
  "rc_emit ev s = s\<lparr>rc_trace := rc_trace s @ [ev]\<rparr>"

definition rc_post :: "'h rc_task \<Rightarrow> 'h rc_client \<Rightarrow> 'h rc_client" where
  "rc_post t s = rc_emit (Rc_post t) (s\<lparr>rc_posted := rc_posted s @ [t]\<rparr>)"

section \<open>The public interface and the user's handlers\<close>

text \<open>
  The derived class's \<^verbatim>\<open>connect\<close> and \<^verbatim>\<open>close\<close> hide the inherited ones; the other operations of the base
  class are inherited. A ready callback can be called by whoever was given it, any number of times.
\<close>

fun inherited :: "'h task \<Rightarrow> bool" where
  "inherited (Do_connect cb) = False"
| "inherited (Do_close h) = False"
| "inherited _ = True"

datatype 'h rc_call =
    Rc_connect "'h option" "'h option"
  | Rc_close "'h option"
  | Rc_set_initial_reconnect_delay duration
  | Rc_set_max_reconnect_delay duration
  | Rc_call_ready u64 string string string
  | Rc_inherited "'h task"

fun rc_api :: "'h rc_call \<Rightarrow> 'h rc_client \<Rightarrow> 'h rc_client" where
  "rc_api (Rc_connect prepare handler) s = rc_post (Start_connect prepare handler) s"
| "rc_api (Rc_close handler) s = rc_post (Stop_and_close handler) s"
| "rc_api (Rc_set_initial_reconnect_delay d) s = rc_post (Set_initial_delay d) s"
| "rc_api (Rc_set_max_reconnect_delay d) s = rc_post (Set_max_delay d) s"
| "rc_api (Rc_call_ready g host port resource) s =
     (if g \<in> set (rc_ready s) then rc_post (Connection_ready g host port resource) s else s)"
| "rc_api (Rc_inherited t) s = (if inherited t then post t s else s)"

datatype 'h rc_prog =
    Rc_return string
  | Rc_call_write_now string "error_code \<Rightarrow> 'h rc_prog"
  | Rc_call_is_connected "bool \<Rightarrow> 'h rc_prog"
  | Rc_call_api "'h rc_call" "'h rc_prog"

type_synonym 'h rc_user = "'h \<Rightarrow> handler_arg \<Rightarrow> 'h ws_event list \<Rightarrow> 'h rc_event list \<Rightarrow> 'h rc_prog"

primrec run_rc_prog :: "'h rc_prog \<Rightarrow> 'h rc_client \<Rightarrow> 'h rc_client \<times> string" where
  "run_rc_prog (Rc_return msg) s = (s, msg)"
| "run_rc_prog (Rc_call_write_now message k) s =
     (case write_now True message s of (s', ec) \<Rightarrow> run_rc_prog (k ec) s')"
| "run_rc_prog (Rc_call_is_connected k) s = run_rc_prog (k (is_connected s)) s"
| "run_rc_prog (Rc_call_api c k) s = run_rc_prog k (rc_api c s)"

definition run_rc_user :: "'h rc_user \<Rightarrow> 'h \<Rightarrow> handler_arg \<Rightarrow> 'h rc_client \<Rightarrow> 'h rc_client \<times> string" where
  "run_rc_user u h arg s = run_rc_prog (u h arg (wc_trace s) (rc_trace s)) s"

section \<open>The class\<close>

definition set_reconnect_state :: "reconnect_state \<Rightarrow> 'h rc_client \<Rightarrow> 'h rc_client" where
  "set_reconnect_state st s = s\<lparr>rc_state := st\<rparr>"

definition is_reconnect_active :: "'h rc_client \<Rightarrow> bool" where
  "is_reconnect_active s \<longleftrightarrow>
     rc_state s = Connecting \<or> rc_state s = Connected \<or> rc_state s = Waiting_reconnect"

definition schedule_reconnect :: "'h rc_client \<Rightarrow> 'h rc_client" where
  "schedule_reconnect s =
     (if \<not> is_reconnect_active s then s
      else
        let s1 = set_reconnect_state Waiting_reconnect s;
            delay = rc_current_delay s1;
            s2 = s1\<lparr>rc_current_delay := min (as_int64 (rc_current_delay s1 * 2)) (rc_max_delay s1)\<rparr>;
            s3 = rc_emit (Reconnect_timer_after delay) s2
        in s3\<lparr>rc_waits := rc_waits s3 @ [rc_generation s3]\<rparr>)"

definition call_rc_connect :: "'h rc_user \<Rightarrow> 'h option \<Rightarrow> error_code \<Rightarrow> 'h rc_client \<Rightarrow> 'h rc_client" where
  "call_rc_connect u handler ec s =
     (case handler of None \<Rightarrow> s
      | Some h \<Rightarrow> fst (run_rc_user u h (Arg_code ec) (rc_emit (Rc_called_connect h ec) s)))"

definition handle_connect_result :: "'h rc_user \<Rightarrow> u64 \<Rightarrow> error_code \<Rightarrow> 'h rc_client \<Rightarrow> 'h rc_client" where
  "handle_connect_result u generation ec s =
     (if generation \<noteq> rc_generation s \<or> rc_state s \<noteq> Connecting then s
      else if ec \<noteq> None then schedule_reconnect (call_rc_connect u (rc_connect_handler s) ec s)
      else
        let s1 = set_reconnect_state Connected (s\<lparr>rc_current_delay := rc_initial_delay s\<rparr>)
        in call_rc_connect u (rc_connect_handler s1) None s1)"

definition rc_on_unexpected_disconnect :: "'h rc_user \<Rightarrow> error_code \<Rightarrow> 'h rc_client \<Rightarrow> 'h rc_client" where
  "rc_on_unexpected_disconnect u ec s =
     (let should_reconnect = (rc_state s = Connected);
          s1 = base_on_unexpected_disconnect (run_rc_user u) ec s
      in if should_reconnect then schedule_reconnect s1 else s1)"

definition rc_env :: "'h rc_user \<Rightarrow> ('h, 'h rc_client) env" where
  "rc_env u =
     \<lparr>run_handler = run_rc_user u,
      run_connect_cb = (\<lambda>cb ec s. case cb of User_cb h \<Rightarrow> fst (run_rc_user u h (Arg_code ec) s)
                                         | Result_cb g \<Rightarrow> handle_connect_result u g ec s),
      on_unexpected_disconnect = rc_on_unexpected_disconnect u\<rparr>"

definition start_connect_attempt :: "'h rc_user \<Rightarrow> 'h rc_client \<Rightarrow> 'h rc_client" where
  "start_connect_attempt u s =
     (let s1 = set_reconnect_state Connecting s;
          generation = rc_generation s1 + 1;
          s2 = s1\<lparr>rc_generation := generation\<rparr>
      in case rc_prepare_connection s2 of None \<Rightarrow> s2
         | Some h \<Rightarrow>
             fst (run_rc_user u h Arg_none
               (rc_emit (Rc_called_prepare h generation) (s2\<lparr>rc_ready := generation # rc_ready s2\<rparr>))))"

definition handle_connection_ready :: "'h rc_user \<Rightarrow> u64 \<Rightarrow> string \<Rightarrow> string \<Rightarrow> string \<Rightarrow>
    'h rc_client \<Rightarrow> 'h rc_client" where
  "handle_connection_ready u generation host port resource s =
     (if generation \<noteq> rc_generation s \<or> rc_state s \<noteq> Connecting then s
      else do_connect (rc_env u) (Some (Result_cb generation))
             (s\<lparr>wc_host := host, wc_port := port, wc_resource := resource\<rparr>))"

definition handle_reconnect_timer :: "'h rc_user \<Rightarrow> u64 \<Rightarrow> error_code \<Rightarrow> 'h rc_client \<Rightarrow> 'h rc_client" where
  "handle_reconnect_timer u generation ec s =
     (if ec \<noteq> None \<or> generation \<noteq> rc_generation s \<or> rc_state s \<noteq> Waiting_reconnect then s
      else start_connect_attempt u s)"

definition stop_reconnecting :: "'h rc_client \<Rightarrow> 'h rc_client" where
  "stop_reconnecting s =
     (let s1 = set_reconnect_state Idle (s\<lparr>rc_generation := rc_generation s + 1\<rparr>);
          s2 = rc_emit Reconnect_timer_cancel s1
      in s2\<lparr>rc_connect_handler := None, rc_prepare_connection := None,
            rc_current_delay := rc_initial_delay s2\<rparr>)"

definition destroy_rc_client :: "'h rc_user \<Rightarrow> 'h rc_client \<Rightarrow> 'h rc_client" where
  "destroy_rc_client u s = destroy_ws_client (rc_env u) (stop_reconnecting s)"

section \<open>Running the client\<close>

fun run_rc_task :: "'h rc_user \<Rightarrow> 'h rc_task \<Rightarrow> 'h rc_client \<Rightarrow> 'h rc_client" where
  "run_rc_task u (Start_connect prepare handler) s =
     (if rc_state s \<noteq> Idle then call_rc_connect u handler (Some already_connected) s
      else start_connect_attempt u
             (s\<lparr>rc_prepare_connection := prepare, rc_connect_handler := handler,
                rc_current_delay := min (rc_initial_delay s) (rc_max_delay s)\<rparr>))"
| "run_rc_task u (Stop_and_close handler) s = do_close (rc_env u) handler (stop_reconnecting s)"
| "run_rc_task u (Set_initial_delay d) s =
     (let s1 = s\<lparr>rc_initial_delay := d\<rparr>
      in if rc_state s1 = Idle then s1\<lparr>rc_current_delay := d\<rparr> else s1)"
| "run_rc_task u (Set_max_delay d) s =
     s\<lparr>rc_max_delay := d, rc_current_delay := min (rc_current_delay s) d\<rparr>"
| "run_rc_task u (Connection_ready g host port resource) s =
     handle_connection_ready u g host port resource s"

text \<open>
  Inputs: a call on the public interface; \<^verbatim>\<open>write_now\<close>; a posted closure of the base or of the derived
  class is run; an operation of the base class completes; a wait of the reconnect timer ends. A
  completion that runs a base operation runs it in the environment of the derived class.
\<close>

datatype 'h rc_input =
    Rc_in_api "'h rc_call"
  | Rc_in_base "'h ws_input"
  | Rc_in_task nat
  | Rc_in_wait nat error_code

fun base_input :: "'h ws_input \<Rightarrow> bool" where
  "base_input (In_api c) = False"
| "base_input _ = True"

fun rc_step :: "'h rc_user \<Rightarrow> 'h rc_client \<Rightarrow> 'h rc_input \<Rightarrow> 'h rc_client" where
  "rc_step u s (Rc_in_api c) = rc_api c s"
| "rc_step u s (Rc_in_base i) = (if base_input i then ws_step (rc_env u) s i else s)"
| "rc_step u s (Rc_in_task i) =
     (if i < length (rc_posted s)
      then run_rc_task u (rc_posted s ! i)
             (s\<lparr>rc_posted := take i (rc_posted s) @ drop (Suc i) (rc_posted s)\<rparr>)
      else s)"
| "rc_step u s (Rc_in_wait i ec) =
     (if i < length (rc_waits s)
      then handle_reconnect_timer u (rc_waits s ! i) ec
             (s\<lparr>rc_waits := take i (rc_waits s) @ drop (Suc i) (rc_waits s)\<rparr>)
      else s)"

fun rc_run :: "'h rc_user \<Rightarrow> 'h rc_client \<Rightarrow> 'h rc_input list \<Rightarrow> 'h rc_client" where
  "rc_run u s [] = s"
| "rc_run u s (i # is) = rc_run u (rc_step u s i) is"

end
