(* ===== verification/Reconnecting_Properties.thy ===== *)
theory Reconnecting_Properties
  imports Reconnecting_WebSocket_Client WebSocket_Properties
begin

text \<open>
  The reconnecting client keeps the contract of its base class: its handlers satisfy \<open>ws_handlers\<close>, so
  the invariant of the write queue holds for it too. The properties of its own are the back-off, the
  reconnection after a lost connection, and that closing is final.
\<close>

section \<open>The derived class as a user of the base class\<close>

text \<open>The members of the base class are the same.\<close>

definition same_base :: "'h rc_client \<Rightarrow> 'h rc_client \<Rightarrow> bool" where
  "same_base s t \<longleftrightarrow> ws_client.truncate t = ws_client.truncate s"

lemma same_baseD:
  assumes "same_base s t"
  shows "t = ws_client.more_update (\<lambda>_. ws_client.more t) s"
  using assms by (cases s; cases t) (simp add: same_base_def ws_client.defs)

lemma same_base_closed:
  assumes "same_base s t" and "api_closed P" and "P s"
  shows "P t"
proof -
  have "P (ws_client.more_update (\<lambda>_. ws_client.more t) s)" using assms(2,3) by (simp only: api_closed_def)
  then show ?thesis using same_baseD [OF assms(1)] by simp
qed

lemma same_base_trans: "same_base s t \<Longrightarrow> same_base t v \<Longrightarrow> same_base s v"
  by (simp add: same_base_def)

lemma same_base_simps [simp]:
  "same_base s s" "same_base s (s\<lparr>rc_state := x1\<rparr>)" "same_base s (s\<lparr>rc_current_delay := x2\<rparr>)"
  "same_base s (s\<lparr>rc_generation := x3\<rparr>)" "same_base s (s\<lparr>rc_posted := x4\<rparr>)"
  "same_base s (s\<lparr>rc_waits := x5\<rparr>)" "same_base s (s\<lparr>rc_ready := x6\<rparr>)" "same_base s (s\<lparr>rc_trace := x7\<rparr>)"
  "same_base s (s\<lparr>rc_prepare_connection := x8\<rparr>)" "same_base s (s\<lparr>rc_connect_handler := x8\<rparr>)"
  "same_base s (s\<lparr>rc_initial_delay := x2\<rparr>)" "same_base s (s\<lparr>rc_max_delay := x2\<rparr>)"
  "same_base s (rc_emit ev s)" "same_base s (rc_post tk s)" "same_base s (set_reconnect_state x1 s)"
  "same_base s (schedule_reconnect s)" "same_base s (stop_reconnecting s)"
  by (simp_all add: same_base_def ws_client.defs rc_emit_def rc_post_def set_reconnect_state_def
      schedule_reconnect_def stop_reconnecting_def Let_def)

lemma same_base_sel:
  assumes "same_base s t"
  shows "wc_state t = wc_state s" "wc_ws t = wc_ws s" "wc_trace t = wc_trace s" "wc_pending t = wc_pending s"
    "wc_posted t = wc_posted s" "core t = core s"
  by (subst same_baseD [OF assms], simp)+

text \<open>Changes of the derived class's members, for any property that handlers keep.\<close>

lemma rc_updates_closed:
  assumes "api_closed P" and "P s"
  shows "P (s\<lparr>rc_state := x1\<rparr>)" "P (s\<lparr>rc_current_delay := x2\<rparr>)" "P (s\<lparr>rc_generation := x3\<rparr>)"
    "P (s\<lparr>rc_posted := x4\<rparr>)" "P (s\<lparr>rc_waits := x5\<rparr>)" "P (s\<lparr>rc_ready := x6\<rparr>)"
    "P (s\<lparr>rc_prepare_connection := x8\<rparr>)" "P (s\<lparr>rc_connect_handler := x8\<rparr>)"
    "P (s\<lparr>rc_initial_delay := x2\<rparr>)" "P (s\<lparr>rc_max_delay := x2\<rparr>)"
    "P (rc_emit ev s)" "P (rc_post tk s)" "P (set_reconnect_state x1 s)"
    "P (schedule_reconnect s)" "P (stop_reconnecting s)"
  by (rule same_base_closed [OF _ assms]; simp)+

lemma rc_api_closed:
  assumes "api_closed P" and "P s"
  shows "P (rc_api c s)"
proof (cases c)
  case (Rc_inherited tk)
  have "P (api (Api_post tk) s)" using assms by (simp only: api_closed_def)
  with assms Rc_inherited show ?thesis by simp
qed (use assms rc_updates_closed [OF assms] in simp_all)

lemma run_rc_prog_closed:
  assumes "api_closed P"
  shows "P s \<Longrightarrow> P (fst (run_rc_prog p s))"
proof (induction p arbitrary: s)
  case (Rc_call_write_now msg k)
  have "P (fst (write_now True msg s))" using assms Rc_call_write_now.prems by (simp add: api_closed_def)
  then show ?case using Rc_call_write_now.IH by (simp add: case_prod_beta)
next
  case (Rc_call_api c k)
  have "P (rc_api c s)" using assms Rc_call_api.prems by (rule rc_api_closed)
  then show ?case using Rc_call_api.IH by simp
qed simp_all

lemma run_rc_user_closed: "api_closed P \<Longrightarrow> P s \<Longrightarrow> P (fst (run_rc_user u h a s))"
  by (simp add: run_rc_user_def run_rc_prog_closed)

lemma call_rc_connect_closed: "api_closed P \<Longrightarrow> P s \<Longrightarrow> P (call_rc_connect u h ec s)"
  by (simp add: call_rc_connect_def run_rc_user_closed rc_updates_closed [of P] split: option.split)

lemma handle_connect_result_closed:
  assumes "api_closed P" and "P s"
  shows "P (handle_connect_result u g ec s)"
  using assms by (simp add: handle_connect_result_def Let_def call_rc_connect_closed
      rc_updates_closed [of P])

lemma start_connect_attempt_closed:
  assumes "api_closed P" and "P s"
  shows "P (start_connect_attempt u s)"
  using assms by (simp add: start_connect_attempt_def Let_def run_rc_user_closed
      rc_updates_closed [of P] split: option.split)

interpretation rc: ws_handlers "rc_env u"
proof unfold_locales
  fix P :: "'a rc_client \<Rightarrow> bool" and s h arg cb ec
  assume P: "api_closed P" "P s"
  show "P (fst (run_handler (rc_env u) h arg s))"
    using P by (simp add: rc_env_def run_rc_user_closed)
  show "P (run_connect_cb (rc_env u) cb ec s)"
    using P by (simp add: rc_env_def run_rc_user_closed handle_connect_result_closed split: connect_cb.split)
  assume "\<And>s h. P s \<Longrightarrow> P (emit (Called_disconnect h ec) s)"
  with P have "P (base_on_unexpected_disconnect (run_rc_user u) ec s)"
    by (simp add: base_on_unexpected_disconnect_def run_rc_user_closed split: option.split)
  with P show "P (on_unexpected_disconnect (rc_env u) ec s)"
    by (simp add: rc_env_def rc_on_unexpected_disconnect_def Let_def rc_updates_closed [of P])
qed


section \<open>The write queue of the reconnecting client\<close>

definition queue_ok :: "nat \<Rightarrow> ('h, 'a) ws_client_scheme \<Rightarrow> bool" where
  "queue_ok n s \<longleftrightarrow> core_inv n (core s) \<and> quiet (core s)"

lemma queue_ok_mono: "queue_ok n s \<Longrightarrow> n \<le> m \<Longrightarrow> queue_ok m s"
  by (auto simp: queue_ok_def intro: core_inv_mono)

lemma queue_ok_settles: "settles owed n s t \<Longrightarrow> queue_ok n t"
  by (simp add: queue_ok_def settles_def)

lemma queue_ok_closed: "api_closed (queue_ok n)"
proof -
  have "queue_ok n (fst (write_now True msg s))" if "queue_ok n s" for msg and s :: "('a, 'b) ws_client_scheme"
  proof -
    have "settles {#} n s (fst (queue_write Message msg None s))"
      using that by (intro settles_handler [OF settles_refl queue_write_ok(1)]) (simp_all add: queue_ok_def)
    then show ?thesis by (simp add: queue_ok_settles write_now_def)
  qed
  moreover have "queue_ok n (api c s)" "queue_ok n (ws_client.more_update f s)"
    if "queue_ok n s" for c f and s :: "('a, 'b) ws_client_scheme"
    using that by (simp_all add: queue_ok_def)
  ultimately show ?thesis by (simp add: api_closed_def)
qed

lemma run_rc_task_ok:
  assumes "queue_ok n s" and "Suc n < 2 ^ 64"
  shows "queue_ok (Suc n) (run_rc_task u tk s)"
proof (cases tk)
  case (Stop_and_close h)
  have "queue_ok n (stop_reconnecting s)" using rc_updates_closed(15) [OF queue_ok_closed assms(1)] .
  then have "settles (task_owes (Do_close h)) (Suc n) (stop_reconnecting s) (do_close (rc_env u) h (stop_reconnecting s))"
    using assms(2) by (intro rc.do_close_settles) (simp_all add: queue_ok_def)
  then show ?thesis by (simp add: Stop_and_close queue_ok_settles)
next
  case (Connection_ready g host port resource)
  let ?s = "s\<lparr>wc_host := host, wc_port := port, wc_resource := resource\<rparr>"
  have "settles (cb_owes (Some (Result_cb g))) n ?s (do_connect (rc_env u) (Some (Result_cb g)) ?s)"
    using assms(1) by (intro rc.do_connect_settles) (simp_all add: queue_ok_def)
  then have "queue_ok n (do_connect (rc_env u) (Some (Result_cb g)) ?s)" by (rule queue_ok_settles)
  then have "queue_ok n (run_rc_task u tk s)"
    using assms(1) by (auto simp: Connection_ready handle_connection_ready_def)
  then show ?thesis by (rule queue_ok_mono) simp
next
  case (Start_connect prepare h)
  have "queue_ok n (run_rc_task u tk s)"
    using assms(1) by (simp add: Start_connect call_rc_connect_closed [OF queue_ok_closed]
        start_connect_attempt_closed [OF queue_ok_closed] rc_updates_closed [OF queue_ok_closed])
  then show ?thesis by (rule queue_ok_mono) simp
next
  case (Set_initial_delay d)
  have "queue_ok n (run_rc_task u tk s)"
    using assms(1) by (simp add: Set_initial_delay Let_def rc_updates_closed [OF queue_ok_closed])
  then show ?thesis by (rule queue_ok_mono) simp
next
  case (Set_max_delay d)
  have "queue_ok n (run_rc_task u tk s)"
    using assms(1) by (simp add: Set_max_delay rc_updates_closed [OF queue_ok_closed])
  then show ?thesis by (rule queue_ok_mono) simp
qed

lemma rc_step_ok:
  assumes "queue_ok n s" and "Suc n < 2 ^ 64"
  shows "queue_ok (Suc n) (rc_step u s inp)"
proof (cases inp)
  case (Rc_in_api c)
  then show ?thesis
    using queue_ok_mono [OF rc_api_closed [OF queue_ok_closed assms(1)], of "Suc n" c] by simp
next
  case (Rc_in_base i)
  have "settles {#} (Suc n) s (ws_step (rc_env u) s i)"
    using assms by (intro rc.ws_step_settles) (simp_all add: queue_ok_def)
  then show ?thesis using queue_ok_mono [OF assms(1), of "Suc n"] by (simp add: Rc_in_base queue_ok_settles)
next
  case (Rc_in_task i)
  have "queue_ok (Suc n) (run_rc_task u tk (s\<lparr>rc_posted := x\<rparr>))" for tk x
    using assms rc_updates_closed(4) [OF queue_ok_closed] by (intro run_rc_task_ok) simp_all
  then show ?thesis using queue_ok_mono [OF assms(1), of "Suc n"] by (simp add: Rc_in_task)
next
  case (Rc_in_wait i ec)
  have "queue_ok n (s\<lparr>rc_waits := x\<rparr>)" for x using assms rc_updates_closed(5) [OF queue_ok_closed] by simp
  then have "queue_ok n (handle_reconnect_timer u g ec (s\<lparr>rc_waits := x\<rparr>))" for g x
    by (simp add: handle_reconnect_timer_def start_connect_attempt_closed [OF queue_ok_closed])
  then have "queue_ok n (rc_step u s inp)" using assms(1) by (simp add: Rc_in_wait)
  then show ?thesis by (rule queue_ok_mono) simp
qed

lemma rc_run_ok: "queue_ok n s \<Longrightarrow> n + length is < 2 ^ 64 \<Longrightarrow> queue_ok (n + length is) (rc_run u s is)"
proof (induction "is" arbitrary: n s)
  case (Cons i "is")
  then show ?case using rc_step_ok [of n s u i] Cons.IH [of "Suc n" "rc_step u s i"] by simp
qed simp

definition rc_client_run :: "'h rc_user \<Rightarrow> string \<Rightarrow> 'h rc_input list \<Rightarrow> 'h rc_client" where
  "rc_client_run u bytes is = rc_run u (new_rc_client bytes) is"

lemma new_rc_client_ok:
  assumes "length bytes = write_slot_size"
  shows "queue_ok 0 (new_rc_client bytes :: 'h rc_client)"
proof -
  have "core (new_rc_client bytes :: 'h rc_client) = core (new_ws_client bytes :: 'h ws_client)"
    by (simp add: core_def new_rc_client_def ws_client.defs new_ws_client_def)
  then show ?thesis
    using new_ws_client_settled [OF assms, where ?'h = 'h] by (simp add: queue_ok_def settled_def)
qed

lemma rc_client_run_ok:
  "length bytes = write_slot_size \<Longrightarrow> length is < 2 ^ 64 \<Longrightarrow> queue_ok (length is) (rc_client_run u bytes is)"
  unfolding rc_client_run_def using rc_run_ok [OF new_rc_client_ok, of bytes "is" u] by simp

text \<open>
  The reconnecting client keeps the write discipline of its base class, over any number of
  reconnections: writes leave the queue in the order of acceptance, no assertion of the ring fails,
  nothing is queued while it is not connected, and while it is, exactly one write is outstanding on
  its stream if any is queued.
\<close>

theorem rc_writes_in_order:
  assumes "length bytes = write_slot_size" and "length is < 2 ^ 64" and "s = rc_client_run u bytes is"
  shows "concat (map pushed_by (wc_trace s)) =
           concat (map popped_by (wc_trace s)) @ map payload (queued (wc_write_slots s)) \<and>
         Assert_failed \<notin> set (wc_trace s) \<and>
         (wc_state s \<noteq> connected \<longrightarrow> queued (wc_write_slots s) = []) \<and>
         (\<forall>sid. wc_state s = connected \<and> wc_ws s = Some sid \<longrightarrow>
            writes_outstanding sid s = (if queued (wc_write_slots s) = [] then 0 else 1))"
proof -
  have ci: "core_inv (length is) (core s)" and q: "quiet (core s)"
    using rc_client_run_ok [OF assms(1,2), of u] by (simp_all add: assms(3) queue_ok_def)
  show ?thesis
    using core_invD(3,4) [OF ci] outstanding_writes [OF ci q] by (simp add: core_def)
qed


definition quiet_rc_user :: "nat rc_user" where
  "quiet_rc_user h arg tr rtr = Rc_return []"

theorem rc_writes_in_order_witness:
  "Assert_failed \<notin> set (wc_trace (rc_client_run quiet_rc_user zero_bytes
     [Rc_in_api (Rc_connect (Some 1) (Some 2)), Rc_in_task 0]))"
  using rc_writes_in_order [OF length_zero_bytes _ refl,
      of "[Rc_in_api (Rc_connect (Some 1) (Some 2)), Rc_in_task 0]" quiet_rc_user]
  by simp

section \<open>Back-off\<close>

text \<open>What a handler of the derived class cannot change: everything but the posted closures and the events.\<close>

definition delay_of :: "'h rc_event \<Rightarrow> duration list" where
  "delay_of ev = (case ev of Reconnect_timer_after d \<Rightarrow> [d] | _ \<Rightarrow> [])"

definition reconnect_delays :: "'h rc_client \<Rightarrow> duration list" where
  "reconnect_delays s = concat (map delay_of (rc_trace s))"

definition same_plan :: "'h rc_client \<Rightarrow> 'h rc_client \<Rightarrow> bool" where
  "same_plan s t \<longleftrightarrow>
     rc_state t = rc_state s \<and> rc_generation t = rc_generation s \<and> rc_current_delay t = rc_current_delay s \<and>
     rc_initial_delay t = rc_initial_delay s \<and> rc_max_delay t = rc_max_delay s \<and>
     rc_connect_handler t = rc_connect_handler s \<and> rc_prepare_connection t = rc_prepare_connection s \<and>
     rc_waits t = rc_waits s \<and> rc_ready t = rc_ready s \<and> reconnect_delays t = reconnect_delays s"

lemma same_plan_refl [simp]: "same_plan s s"
  by (simp add: same_plan_def)

lemma same_plan_trans: "same_plan s t \<Longrightarrow> same_plan t v \<Longrightarrow> same_plan s v"
  by (simp add: same_plan_def)

lemma queue_write_more [simp]: "ws_client.more (fst (queue_write ty msg h s)) = ws_client.more s"
  by (auto simp: queue_write_def start_write_def start_op_def emit_def Let_def split: option.split)

lemma rc_sel_more:
  fixes s t :: "'h rc_client"
  assumes "ws_client.more t = ws_client.more s"
  shows "same_plan s t" and "rc_posted t = rc_posted s" and "rc_trace t = rc_trace s"
proof -
  have eq: "rc_state t = rc_state s" "rc_generation t = rc_generation s" "rc_current_delay t = rc_current_delay s"
    "rc_initial_delay t = rc_initial_delay s" "rc_max_delay t = rc_max_delay s"
    "rc_connect_handler t = rc_connect_handler s" "rc_prepare_connection t = rc_prepare_connection s"
    "rc_waits t = rc_waits s" "rc_ready t = rc_ready s" "rc_posted t = rc_posted s" "rc_trace t = rc_trace s"
    using assms by (cases s; cases t; simp)+
  then show "same_plan s t" and "rc_posted t = rc_posted s" and "rc_trace t = rc_trace s"
    by (simp_all add: same_plan_def reconnect_delays_def)
qed

lemma same_plan_emit: "delay_of ev = [] \<Longrightarrow> same_plan s (rc_emit ev s)"
  by (simp add: same_plan_def rc_emit_def reconnect_delays_def)

lemma same_plan_post: "same_plan s (rc_post tk s)"
  by (simp add: same_plan_def rc_post_def rc_emit_def reconnect_delays_def delay_of_def)

lemma same_plan_api: "same_plan s (rc_api c s)"
  by (cases c) (auto simp: same_plan_post post_def emit_def intro: rc_sel_more(1))

lemma same_plan_prog: "same_plan s (fst (run_rc_prog p s))"
proof (induction p arbitrary: s)
  case (Rc_call_write_now msg k)
  have "same_plan s (fst (write_now True msg s))" by (simp add: write_now_def rc_sel_more(1))
  from same_plan_trans [OF this Rc_call_write_now.IH [OF rangeI]] show ?case by (simp add: case_prod_beta)
next
  case (Rc_call_api c k)
  show ?case using same_plan_trans [OF same_plan_api Rc_call_api.IH] by simp
qed simp_all

lemma same_plan_user: "same_plan s (fst (run_rc_user u h a s))"
  by (simp add: run_rc_user_def same_plan_prog)

lemma same_plan_call_connect: "same_plan s (call_rc_connect u h ec s)"
proof (cases h)
  case (Some k)
  have "same_plan s (rc_emit (Rc_called_connect k ec) s)" by (simp add: same_plan_emit delay_of_def)
  from same_plan_trans [OF this same_plan_user] Some show ?thesis by (simp add: call_rc_connect_def)
qed (simp add: call_rc_connect_def)

text \<open>One failed attempt, and the timer that starts the next one.\<close>

definition failing_round :: "'h rc_user \<Rightarrow> errc \<Rightarrow> 'h rc_client \<Rightarrow> 'h rc_client" where
  "failing_round u e s =
     (let t = handle_connect_result u (rc_generation s) (Some e) s
      in handle_reconnect_timer u (rc_generation t) None t)"

lemma failing_round_effect:
  assumes "rc_state s = Connecting"
  shows "rc_state (failing_round u e s) = Connecting"
    and "rc_generation (failing_round u e s) = rc_generation s + 1"
    and "rc_max_delay (failing_round u e s) = rc_max_delay s"
    and "rc_current_delay (failing_round u e s) = min (as_int64 (rc_current_delay s * 2)) (rc_max_delay s)"
    and "reconnect_delays (failing_round u e s) = reconnect_delays s @ [rc_current_delay s]"
proof -
  define c where "c = call_rc_connect u (rc_connect_handler s) (Some e) s"
  define t where "t = schedule_reconnect c"
  have c: "same_plan s c" unfolding c_def by (rule same_plan_call_connect)
  have t: "rc_state t = Waiting_reconnect" "rc_generation t = rc_generation s" "rc_max_delay t = rc_max_delay s"
      "rc_current_delay t = min (as_int64 (rc_current_delay s * 2)) (rc_max_delay s)"
      "reconnect_delays t = reconnect_delays s @ [rc_current_delay s]"
    using c assms by (simp_all add: t_def schedule_reconnect_def is_reconnect_active_def same_plan_def
        set_reconnect_state_def rc_emit_def reconnect_delays_def delay_of_def Let_def)
  have r: "failing_round u e s = start_connect_attempt u t"
    using assms t(1,2) by (simp add: failing_round_def handle_connect_result_def handle_reconnect_timer_def
        t_def c_def)
  have "same_plan (t\<lparr>rc_state := Connecting, rc_generation := rc_generation t + 1, rc_ready := x\<rparr>)
      (fst (run_rc_user u h Arg_none (rc_emit (Rc_called_prepare h g)
        (t\<lparr>rc_state := Connecting, rc_generation := rc_generation t + 1, rc_ready := x\<rparr>))))" for h g x
    by (rule same_plan_trans [OF same_plan_emit same_plan_user]) (simp add: delay_of_def)
  then show "rc_state (failing_round u e s) = Connecting"
    and "rc_generation (failing_round u e s) = rc_generation s + 1"
    and "rc_max_delay (failing_round u e s) = rc_max_delay s"
    and "rc_current_delay (failing_round u e s) = min (as_int64 (rc_current_delay s * 2)) (rc_max_delay s)"
    and "reconnect_delays (failing_round u e s) = reconnect_delays s @ [rc_current_delay s]"
    using t by (simp_all add: r start_connect_attempt_def Let_def set_reconnect_state_def same_plan_def
        reconnect_delays_def split: option.split)
qed

text \<open>The delay of the \<open>i\<close>-th reconnection in a row, from the first one on: only the first is not capped.\<close>

definition backoff :: "duration \<Rightarrow> duration \<Rightarrow> nat \<Rightarrow> duration" where
  "backoff first most i = (if i = 0 then first else min (first * 2 ^ i) most)"

lemma backoff_Suc:
  assumes "0 \<le> first" and "first < 2 ^ 62" and "0 \<le> most" and "most < 2 ^ 62"
  shows "min (as_int64 (backoff first most i * 2)) most = backoff first most (Suc i)"
proof -
  have "0 \<le> backoff first most i" "backoff first most i < 2 ^ 62"
    using assms by (simp_all add: backoff_def min_def)
  then have "as_int64 (backoff first most i * 2) = backoff first most i * 2" by (intro as_int64_fits) simp_all
  then show ?thesis using assms by (auto simp: backoff_def min_def)
qed

text \<open>
  C21: exponential back-off. While attempts keep failing, the delays before the next attempts double
  from the first one and are capped by the maximum: the first delay is the current one, and the one after \<open>i\<close> more
  failures is \<open>min (d * 2 ^ i) max\<close>, whatever the handlers do. Each round starts a new attempt in a new generation.
  (Delays are below \<open>2 ^ 62\<close> ns, more than 146 years, so doubling does not overflow 64 bits. That the first delay is not
  capped is what the code does: after a successful connection it can exceed the maximum.)
\<close>

theorem reconnect_backoff:
  assumes "rc_state s = Connecting" and "0 \<le> rc_current_delay s" and "rc_current_delay s < 2 ^ 62"
    and "0 \<le> rc_max_delay s" and "rc_max_delay s < 2 ^ 62" and "t = (failing_round u e ^^ n) s"
  shows "reconnect_delays t = reconnect_delays s @ map (backoff (rc_current_delay s) (rc_max_delay s)) [0..<n] \<and>
    rc_state t = Connecting \<and> rc_generation t = rc_generation s + of_nat n"
proof -
  let ?d = "backoff (rc_current_delay s) (rc_max_delay s)"
  have "rc_state t = Connecting \<and> rc_generation t = rc_generation s + of_nat n \<and> rc_max_delay t = rc_max_delay s \<and>
      rc_current_delay t = ?d n \<and> reconnect_delays t = reconnect_delays s @ map ?d [0..<n]"
    unfolding assms(6)
  proof (induction n)
    case 0
    show ?case using assms(1) by (simp add: backoff_def)
  next
    case (Suc n)
    let ?t = "(failing_round u e ^^ n) s"
    from Suc.IH failing_round_effect [of ?t u e] show ?case
      by (simp add: backoff_Suc [OF assms(2-5)] add_ac)
  qed
  then show ?thesis by simp
qed


lemma new_rc_client_sel [simp]:
  "rc_state (new_rc_client bytes) = Idle" "rc_initial_delay (new_rc_client bytes) = seconds 1"
  "rc_max_delay (new_rc_client bytes) = seconds 60" "rc_posted (new_rc_client bytes) = []"
  "rc_generation (new_rc_client bytes) = 0" "rc_trace (new_rc_client bytes) = []"
  "rc_waits (new_rc_client bytes) = []" "rc_ready (new_rc_client bytes) = []"
  "wc_posted (new_rc_client bytes) = []" "wc_state (new_rc_client bytes) = disconnected"
  "wc_pending (new_rc_client bytes) = []" "wc_trace (new_rc_client bytes) = []"
  by (simp_all add: new_rc_client_def ws_client.defs rc_client.defs new_ws_client_def)

text \<open>
  The default delays of 1 s and 60 s: after a connect whose attempts fail, the delays are 1, 2, 4, 8,
  16, 32, 60, 60 seconds.
\<close>

theorem reconnect_backoff_witness:
  "reconnect_delays ((failing_round quiet_rc_user host_unreachable ^^ 8)
     (rc_client_run quiet_rc_user zero_bytes [Rc_in_api (Rc_connect (Some 1) (Some 2)), Rc_in_task 0])) =
   map seconds [1, 2, 4, 8, 16, 32, 60, 60]"
proof -
  let ?s = "rc_client_run quiet_rc_user zero_bytes [Rc_in_api (Rc_connect (Some 1) (Some 2)), Rc_in_task 0]"
  have s: "rc_state ?s = Connecting" "rc_current_delay ?s = seconds 1" "rc_max_delay ?s = seconds 60"
      "reconnect_delays ?s = []"
    by (simp_all add: rc_client_run_def rc_post_def rc_emit_def start_connect_attempt_def Let_def
        set_reconnect_state_def run_rc_user_def quiet_rc_user_def reconnect_delays_def delay_of_def seconds_def)
  have "reconnect_delays ((failing_round quiet_rc_user host_unreachable ^^ 8) ?s) =
      map (backoff (seconds 1) (seconds 60)) [0..<8]"
    using reconnect_backoff [of ?s _ 8 quiet_rc_user host_unreachable, OF s(1) _ _ _ _ refl] s
    by (simp add: seconds_def)
  also have "\<dots> = map seconds [1, 2, 4, 8, 16, 32, 60, 60]"
    by (simp add: seconds_def backoff_def upt_rec [of 0 8] numeral_eq_Suc)
  finally show ?thesis .
qed

section \<open>Closing is final\<close>

text \<open>
  Properties that depend only on the posted closures and on the members of a derived class. If the
  handlers keep them, so do writing and closing; if the connect result handler and
  \<^verbatim>\<open>on_unexpected_disconnect\<close> keep them too, so does every step of the base class.
\<close>

locale handler_property =
  fixes E :: "('h, 'a) ws_env" and P :: "('h, 'a) ws_client_scheme \<Rightarrow> bool"
  assumes frame: "wc_posted t = wc_posted s \<Longrightarrow> ws_client.more t = ws_client.more s \<Longrightarrow> P s \<Longrightarrow> P t"
    and handler: "P s \<Longrightarrow> P (fst (run_handler E h arg s))"
begin

lemma eqI: "wc_posted t = wc_posted s \<Longrightarrow> ws_client.more t = ws_client.more s \<Longrightarrow> P t = P s"
  by (metis frame)

lemma primitives [simp]:
  "P (emit ev s) = P s" "P (start_op p s) = P s" "P (set_state st s) = P s" "P (create_stream s) = P s"
  "P (close_socket s) = P s" "P (start_write s) = P s" "P (start_ping_timer_after d s) = P s"
  "P (start_ping_timer s) = P s" "P (stop_ping_timer s) = P s" "P (start_read_timer s) = P s"
  "P (stop_read_timer s) = P s" "P (cancel_pending_operations s) = P s" "P (start_read s) = P s"
  "P (s\<lparr>wc_write_slots := x1\<rparr>) = P s" "P (s\<lparr>wc_write_in_progress := x2\<rparr>) = P s"
  "P (s\<lparr>wc_write_generation := x3\<rparr>) = P s" "P (s\<lparr>wc_last_read_time := x4\<rparr>) = P s"
  "P (s\<lparr>wc_read_buffer := x5\<rparr>) = P s" "P (s\<lparr>wc_message_handler := x6\<rparr>) = P s"
  "P (s\<lparr>wc_disconnect_handler := x6\<rparr>) = P s" "P (s\<lparr>wc_ping_message_generator := x6\<rparr>) = P s"
  "P (s\<lparr>wc_ping_interval := x4\<rparr>) = P s" "P (s\<lparr>wc_read_timeout := x4\<rparr>) = P s" "P (s\<lparr>wc_pending := x7\<rparr>) = P s"
  by (rule eqI; auto simp: emit_def start_op_def set_state_def create_stream_def close_socket_def
      start_write_def start_ping_timer_after_def start_ping_timer_def stop_ping_timer_def start_read_timer_def
      stop_read_timer_def cancel_pending_operations_def start_read_def Let_def split: option.split)+

lemma queue_write_keeps: "P (fst (queue_write ty msg h s)) = P s"
  by (auto simp: queue_write_def Let_def split: option.split)

lemma calls: "P s \<Longrightarrow> P (call_write E h ec s)" "P s \<Longrightarrow> P (call_close E h ec s)"
  by (auto simp: call_write_def call_close_def handler split: option.split)

lemma do_write_keeps: "P s \<Longrightarrow> P (fst (do_write E msg h s))"
  using queue_write_keeps [of Message msg h s]
  by (auto simp: do_write_def calls split: prod.split option.split)

lemma fail_one_keeps: "P s \<Longrightarrow> P (fail_one E s)"
  by (auto simp: fail_one_def calls split: option.split)

lemma fail_loop_keeps: "P s \<Longrightarrow> P (fail_loop E k s)"
  by (induction k arbitrary: s) (auto simp: fail_one_keeps)

lemma do_close_keeps: "P s \<Longrightarrow> P (do_close E h s)"
  by (auto simp: do_close_def fail_pending_writes_def Let_def calls fail_loop_keeps split: option.split)

end

locale posted_property = handler_property +
  assumes connect_cb: "P s \<Longrightarrow> P (run_connect_cb E cb ec s)"
    and disconnect: "P s \<Longrightarrow> P (on_unexpected_disconnect E ec s)"
    and remove: "P s \<Longrightarrow> P (s\<lparr>wc_posted := take i (wc_posted s) @ drop (Suc i) (wc_posted s)\<rparr>)"
begin

lemma call_connect_keeps: "P s \<Longrightarrow> P (call_connect E cb ec s)"
  by (simp add: call_connect_def connect_cb split: option.split)

lemma fail_connection_keeps: "P s \<Longrightarrow> P (fail_connection E ec cb s)"
  by (simp add: fail_connection_def call_connect_keeps do_close_keeps)

lemma unexpected_disconnect_keeps: "P s \<Longrightarrow> P (handle_unexpected_disconnect E ec s)"
  by (simp add: handle_unexpected_disconnect_def disconnect do_close_keeps)

lemma handle_write_keeps: "P s \<Longrightarrow> P (handle_write E g ec s)"
  by (auto simp: handle_write_def Let_def calls unexpected_disconnect_keeps split: option.split)

lemma handle_read_keeps: "P s \<Longrightarrow> P (handle_read E now ec s)"
  by (auto simp: handle_read_def Let_def handler unexpected_disconnect_keeps split: option.split)

lemma handle_ping_timer_keeps: "P s \<Longrightarrow> P (handle_ping_timer E ec s)"
  using do_write_keeps [of _ _ None] handler
  by (auto simp: handle_ping_timer_def do_protocol_ping_def case_prod_beta queue_write_keeps Let_def split: option.split)

lemma handle_read_timeout_keeps: "P s \<Longrightarrow> P (handle_read_timeout E now ec s)"
  by (simp add: handle_read_timeout_def unexpected_disconnect_keeps)

lemma connection_keeps:
  assumes "P s"
  shows "P (do_connect E cb s)" "P (handle_resolve E cb ec s)" "P (handle_connect E cb c s)"
    "P (handle_ssl_handshake E cb ec s)" "P (handle_websocket_handshake E now cb ec s)"
  using assms by (auto simp: do_connect_def handle_resolve_def handle_connect_def handle_ssl_handshake_def
      handle_websocket_handshake_def Let_def call_connect_keeps fail_connection_keeps split: option.split)

lemma run_task_keeps: "P s \<Longrightarrow> P (run_task E now tk s)"
  by (cases tk) (simp_all add: connection_keeps do_write_keeps do_close_keeps Let_def)

lemma complete_op_keeps: "P s \<Longrightarrow> P (complete_op E p c s)"
  by (cases p) (simp_all add: connection_keeps handle_write_keeps handle_read_keeps handle_ping_timer_keeps
      handle_read_timeout_keeps)

lemma ws_step_keeps:
  assumes "P s" and "base_input i"
  shows "P (ws_step E s i)"
  using assms by (cases i) (simp_all add: write_now_def queue_write_keeps run_task_keeps complete_op_keeps remove)

end


definition posts_inherited :: "'h rc_client \<Rightarrow> bool" where
  "posts_inherited s \<longleftrightarrow> (\<forall>tk \<in> set (wc_posted s). inherited tk)"

lemma same_base_inherited: "same_base s t \<Longrightarrow> posts_inherited s \<Longrightarrow> posts_inherited t"
  by (simp add: posts_inherited_def same_base_sel)

text \<open>A property of the client that \<^verbatim>\<open>write_now\<close> and the public interface keep is kept by every handler.\<close>

lemma run_rc_user_keeps:
  assumes "\<And>s msg. Q s \<Longrightarrow> Q (fst (write_now True msg s))" and "\<And>s c. Q s \<Longrightarrow> Q (rc_api c s)" and "Q s"
  shows "Q (fst (run_rc_user u h a s))"
proof -
  have "Q s \<Longrightarrow> Q (fst (run_rc_prog p s))" for p s
    by (induction p arbitrary: s) (use assms in \<open>simp_all add: case_prod_beta\<close>)
  then show ?thesis using assms(3) by (simp add: run_rc_user_def)
qed

lemma queue_write_posted [simp]: "wc_posted (fst (queue_write ty msg h s)) = wc_posted s"
  by (auto simp: queue_write_def start_write_def start_op_def emit_def Let_def split: option.split)

lemma posts_inherited_api: "posts_inherited s \<Longrightarrow> posts_inherited (rc_api c s)"
  by (cases c) (auto simp: posts_inherited_def post_def emit_def rc_post_def rc_emit_def)

lemma posts_inherited_write_now: "posts_inherited s \<Longrightarrow> posts_inherited (fst (write_now b msg s))"
  by (simp add: posts_inherited_def write_now_def)

lemma posts_inherited_user: "posts_inherited s \<Longrightarrow> posts_inherited (fst (run_rc_user u h a s))"
  by (rule run_rc_user_keeps [where Q = posts_inherited]; simp add: posts_inherited_api posts_inherited_write_now)

lemma posts_inherited_call_connect: "posts_inherited s \<Longrightarrow> posts_inherited (call_rc_connect u h ec s)"
  using same_base_inherited [of s "rc_emit (Rc_called_connect _ ec) s"]
  by (auto simp: call_rc_connect_def intro!: posts_inherited_user split: option.split)

lemma posts_inherited_updates:
  assumes "posts_inherited s"
  shows "posts_inherited (s\<lparr>rc_state := x1\<rparr>)" "posts_inherited (s\<lparr>rc_current_delay := x2\<rparr>)"
    "posts_inherited (s\<lparr>rc_generation := x3\<rparr>)" "posts_inherited (s\<lparr>rc_posted := x4\<rparr>)"
    "posts_inherited (s\<lparr>rc_waits := x5\<rparr>)" "posts_inherited (s\<lparr>rc_ready := x6\<rparr>)"
    "posts_inherited (s\<lparr>rc_prepare_connection := x8\<rparr>)" "posts_inherited (s\<lparr>rc_connect_handler := x8\<rparr>)"
    "posts_inherited (s\<lparr>rc_initial_delay := x2\<rparr>)" "posts_inherited (s\<lparr>rc_max_delay := x2\<rparr>)"
    "posts_inherited (rc_emit ev s)" "posts_inherited (set_reconnect_state x1 s)"
    "posts_inherited (schedule_reconnect s)" "posts_inherited (stop_reconnecting s)"
  using assms by (auto intro: same_base_inherited [rotated])

interpretation rp: posted_property "rc_env u" posts_inherited
proof unfold_locales
  fix s t :: "'a rc_client" and h arg cb ec i
  assume P: "posts_inherited s"
  show "posts_inherited t" if "wc_posted t = wc_posted s"
    using that P by (simp add: posts_inherited_def)
  show "posts_inherited (fst (run_handler (rc_env u) h arg s))"
    using P by (simp add: rc_env_def posts_inherited_user)
  show "posts_inherited (run_connect_cb (rc_env u) cb ec s)"
    using P by (simp add: rc_env_def posts_inherited_user handle_connect_result_def Let_def
        posts_inherited_call_connect posts_inherited_updates split: connect_cb.split)
  have "posts_inherited (emit ev s)" for ev using P by (simp add: posts_inherited_def)
  with P have "posts_inherited (base_on_unexpected_disconnect (run_rc_user u) ec s)"
    by (simp add: base_on_unexpected_disconnect_def posts_inherited_user split: option.split)
  then show "posts_inherited (on_unexpected_disconnect (rc_env u) ec s)"
    by (simp add: rc_env_def rc_on_unexpected_disconnect_def Let_def posts_inherited_updates)
  show "posts_inherited (s\<lparr>wc_posted := take i (wc_posted s) @ drop (Suc i) (wc_posted s)\<rparr>)"
    using P set_remove_nth [of i "wc_posted s"] by (auto simp: posts_inherited_def)
qed

lemma posts_inherited_attempt: "posts_inherited s \<Longrightarrow> posts_inherited (start_connect_attempt u s)"
  by (simp add: start_connect_attempt_def Let_def posts_inherited_user posts_inherited_updates split: option.split)

lemma posts_inherited_task:
  assumes "posts_inherited s"
  shows "posts_inherited (run_rc_task u tk s)"
proof (cases tk)
  case (Connection_ready g host port resource)
  have "posts_inherited (s\<lparr>wc_host := host, wc_port := port, wc_resource := resource\<rparr>)"
    using assms by (simp add: posts_inherited_def)
  from rp.connection_keeps(1) [OF this] assms show ?thesis
    by (simp add: Connection_ready handle_connection_ready_def)
qed (use assms in \<open>simp_all add: posts_inherited_call_connect posts_inherited_attempt posts_inherited_updates
    rp.do_close_keeps Let_def\<close>)

lemma posts_inherited_step: "posts_inherited s \<Longrightarrow> posts_inherited (rc_step u s i)"
  by (cases i) (simp_all add: posts_inherited_api rp.ws_step_keeps posts_inherited_task posts_inherited_updates
      handle_reconnect_timer_def posts_inherited_attempt)

lemma posts_inherited_run: "posts_inherited s \<Longrightarrow> posts_inherited (rc_run u s is)"
  by (induction "is" arbitrary: s) (simp_all add: posts_inherited_step)


text \<open>
  An idle client: no reconnection is planned, the base class is disconnected, and \<open>rs\<close> and \<open>ds\<close> are
  the resolutions and the reconnect delays so far.
\<close>

fun resolve_of :: "'h ws_event \<Rightarrow> (string \<times> string) list" where
  "resolve_of (Async_resolve host port) = [(host, port)]"
| "resolve_of _ = []"

definition resolutions :: "('h, 'a) ws_client_scheme \<Rightarrow> (string \<times> string) list" where
  "resolutions s = concat (map resolve_of (wc_trace s))"

definition idle_client :: "(string \<times> string) list \<Rightarrow> duration list \<Rightarrow> 'h rc_client \<Rightarrow> bool" where
  "idle_client rs ds s \<longleftrightarrow> rc_state s = Idle \<and> wc_state s = disconnected \<and> posts_inherited s \<and>
     resolutions s = rs \<and> reconnect_delays s = ds"

lemma idle_emit: "resolve_of ev = [] \<Longrightarrow> idle_client rs ds s \<Longrightarrow> idle_client rs ds (emit ev s)"
  using rc_sel_more(1) [of "emit ev s" s]
  by (simp add: idle_client_def posts_inherited_def same_plan_def resolutions_def emit_def)

lemma idle_api: "idle_client rs ds s \<Longrightarrow> idle_client rs ds (rc_api c s)"
proof -
  assume i: "idle_client rs ds s"
  have "same_plan s (rc_api c s)" by (rule same_plan_api)
  moreover have "wc_state (rc_api c s) = wc_state s \<and> resolutions (rc_api c s) = resolutions s"
    by (cases c) (simp_all add: resolutions_def rc_post_def rc_emit_def post_def emit_def)
  ultimately show ?thesis using i posts_inherited_api by (auto simp: idle_client_def same_plan_def)
qed

lemma idle_user: "idle_client rs ds s \<Longrightarrow> idle_client rs ds (fst (run_rc_user u h a s))"
proof (rule run_rc_user_keeps [where Q = "idle_client rs ds"])
  show "idle_client rs ds (fst (write_now True msg s))" if "idle_client rs ds s" for s msg
  proof -
    have "wc_state s = disconnected" using that by (simp add: idle_client_def)
    then have "fst (write_now True msg s) = s" by (simp add: write_now_def queue_write_def)
    then show ?thesis using that by simp
  qed
qed (simp_all add: idle_api)

lemma idle_call_write: "idle_client rs ds s \<Longrightarrow> idle_client rs ds (call_write (rc_env u) h ec s)"
  by (auto simp: call_write_def rc_env_def idle_user idle_emit split: option.split)

lemma idle_frame:
  assumes "idle_client rs ds s" and "wc_state t = wc_state s" and "set (wc_posted t) \<subseteq> set (wc_posted s)"
    and "wc_trace t = wc_trace s" and "ws_client.more t = ws_client.more s"
  shows "idle_client rs ds t"
  using assms rc_sel_more(1) [OF assms(5)]
  by (auto simp: idle_client_def posts_inherited_def resolutions_def same_plan_def)

text \<open>A posted closure of the base class, or a completion, on an idle client.\<close>

lemma idle_base_task:
  assumes "idle_client rs ds s" and "inherited tk"
  shows "idle_client rs ds (run_task (rc_env u) now tk s)"
proof -
  have st: "wc_state s = disconnected" using assms(1) by (simp add: idle_client_def)
  show ?thesis
  proof (cases tk)
    case (Do_write msg h)
    have "fst (do_write (rc_env u) msg h s) = call_write (rc_env u) h (Some not_connected) s"
      using st by (simp add: do_write_def queue_write_def)
    then show ?thesis using assms(1) by (simp add: Do_write idle_call_write)
  qed (use assms st in \<open>auto simp: is_connected_def Let_def intro: idle_frame\<close>)
qed

lemma idle_complete: "wc_state s = disconnected \<Longrightarrow>
    complete_op E p c s = s \<or> (\<exists>b. complete_op E p c s = s\<lparr>wc_read_buffer := b\<rparr>)"
  by (cases p) (auto simp: handle_resolve_def handle_connect_def handle_ssl_handshake_def
      handle_websocket_handshake_def handle_read_def handle_write_def handle_ping_timer_def
      handle_read_timeout_def is_connected_def is_connecting_def split: option.split)

lemma idle_base_step:
  assumes "idle_client rs ds s" and "base_input i"
  shows "idle_client rs ds (ws_step (rc_env u) s i)"
proof (cases i)
  case (In_write_now b msg)
  have "fst (write_now b msg s) = s"
    using assms(1) by (simp add: idle_client_def write_now_def queue_write_def)
  then show ?thesis using assms(1) by (simp add: In_write_now)
next
  case (In_task j now)
  have "inherited (wc_posted s ! j)" if "j < length (wc_posted s)"
    using assms(1) that by (auto simp: idle_client_def posts_inherited_def)
  moreover have "idle_client rs ds (s\<lparr>wc_posted := take j (wc_posted s) @ drop (Suc j) (wc_posted s)\<rparr>)"
    by (rule idle_frame [OF assms(1)]) (use set_remove_nth [of j "wc_posted s"] in simp_all)
  ultimately show ?thesis using assms(1) by (simp add: In_task idle_base_task)
next
  case (In_complete j c)
  have r: "idle_client rs ds (s\<lparr>wc_pending := x\<rparr>)" "idle_client rs ds (s\<lparr>wc_pending := x, wc_read_buffer := y\<rparr>)" for x y
    by (rule idle_frame [OF assms(1)]; simp)+
  have "wc_state s = disconnected" using assms(1) by (simp add: idle_client_def)
  then have "complete_op (rc_env u) p c (s\<lparr>wc_pending := x\<rparr>) = s\<lparr>wc_pending := x\<rparr> \<or>
      (\<exists>b. complete_op (rc_env u) p c (s\<lparr>wc_pending := x\<rparr>) = s\<lparr>wc_pending := x, wc_read_buffer := b\<rparr>)" for p x
    using idle_complete [of "s\<lparr>wc_pending := x\<rparr>" "rc_env u" p c] by simp
  then have "idle_client rs ds (complete_op (rc_env u) p c (s\<lparr>wc_pending := x\<rparr>))" for p x
    using r by metis
  then show ?thesis using assms(1) by (simp add: In_complete)
qed (use assms in simp)


text \<open>The reconnect plan depends on the derived class's members only, and handlers do not touch it.\<close>

interpretation plan: handler_property "rc_env u" "same_plan s"
proof unfold_locales
  fix t v :: "'a rc_client" and h arg
  assume P: "same_plan s v"
  show "same_plan s t" if "ws_client.more t = ws_client.more v"
    using P rc_sel_more(1) [OF that] by (rule same_plan_trans)
  show "same_plan s (fst (run_handler (rc_env u) h arg v))"
    using same_plan_trans [OF P same_plan_user] by (simp add: rc_env_def)
qed

text \<open>Inputs that do not run the closure of a later \<^verbatim>\<open>connect\<close>.\<close>

fun starts :: "'h rc_client \<Rightarrow> 'h rc_input \<Rightarrow> bool" where
  "starts s (Rc_in_task i) \<longleftrightarrow>
     i < length (rc_posted s) \<and> (case rc_posted s ! i of Start_connect p h \<Rightarrow> True | _ \<Rightarrow> False)"
| "starts s _ \<longleftrightarrow> False"

fun never_starts :: "'h rc_user \<Rightarrow> 'h rc_client \<Rightarrow> 'h rc_input list \<Rightarrow> bool" where
  "never_starts u s [] = True"
| "never_starts u s (i # is) \<longleftrightarrow> \<not> starts s i \<and> never_starts u (rc_step u s i) is"

context ws_handlers
begin

lemma do_close_disconnected:
  assumes "core_inv n (core s)" and "quiet (core s)" and "Suc n < 2 ^ 64"
  shows "wc_state (do_close E h s) = disconnected"
proof (cases "live (wc_state s)")
  case True
  then show ?thesis using assms by (intro do_close_live)
next
  case False
  then have d: "wc_state s = disconnected" using assms(2) by (cases "wc_state s") (auto simp: live_def quiet_def)
  have "do_close E h s = call_close E h None s" using False by (auto simp: do_close_def live_def)
  with call_close_ok [OF assms(1), of None h] d show ?thesis
    by (cases h) (simp_all add: handler_ok_def)
qed

end

text \<open>Closing does not start a resolution.\<close>

lemma resolutions_closed: "api_closed (\<lambda>s. resolutions s = rs)"
proof -
  have "resolutions (fst (queue_write ty msg h s)) = resolutions s" for ty msg h and s :: "('a, 'b) ws_client_scheme"
    by (auto simp: queue_write_def start_write_def start_op_def emit_def resolutions_def Let_def split: option.split)
  moreover have "resolutions (api c s) = resolutions s" for c and s :: "('a, 'b) ws_client_scheme"
    by (cases c) (simp_all add: resolutions_def post_def emit_def)
  ultimately show ?thesis by (simp add: api_closed_def write_now_def) (simp add: resolutions_def)
qed

lemma do_close_resolutions: "resolutions (do_close (rc_env u) h s) = resolutions s"
proof -
  have run: "resolutions (fst (run_rc_user u k a v)) = resolutions v" for k a v
    using run_rc_user_closed [OF resolutions_closed, of v "resolutions v" u k a] by simp
  have emit: "resolve_of ev = [] \<Longrightarrow> resolutions (emit ev v) = resolutions v" for ev and v :: "'a rc_client"
    by (simp add: resolutions_def emit_def)
  have field: "resolutions (v\<lparr>wc_write_slots := x1\<rparr>) = resolutions v"
    "resolutions (v\<lparr>wc_write_generation := x2, wc_write_in_progress := x3\<rparr>) = resolutions v"
    "resolutions (v\<lparr>wc_state := x4\<rparr>) = resolutions v" for x1 x2 x3 x4 and v :: "'a rc_client"
    by (simp_all add: resolutions_def)
  have one: "resolutions (fail_one (rc_env u) v) = resolutions v" for v
    by (simp add: fail_one_def call_write_def rc_env_def run emit field split: option.split)
  have loop: "resolutions (fail_loop (rc_env u) n v) = resolutions v" for n v
    by (induction n arbitrary: v) (simp_all add: one)
  have close: "resolutions (call_close (rc_env u) h None v) = resolutions v" for v
    by (simp add: call_close_def rc_env_def run emit split: option.split)
  show ?thesis
    by (simp add: do_close_def close loop fail_pending_writes_def Let_def set_state_def field
        cancel_pending_operations_def stop_ping_timer_def stop_read_timer_def close_socket_def emit
        split: option.split)
qed

lemma idle_step:
  assumes "idle_client rs ds s" and "\<not> starts s i" and "queue_ok n s" and "Suc n < 2 ^ 64"
  shows "idle_client rs ds (rc_step u s i)"
proof (cases i)
  case (Rc_in_api c)
  then show ?thesis using assms(1) by (simp add: idle_api)
next
  case (Rc_in_base j)
  then show ?thesis using assms(1) by (simp add: idle_base_step)
next
  case (Rc_in_task j)
  have r: "idle_client rs ds (s\<lparr>rc_posted := x\<rparr>)" for x
    using assms(1) by (simp add: idle_client_def posts_inherited_def resolutions_def reconnect_delays_def)
  show ?thesis
  proof (cases "rc_posted s ! j")
    case (Stop_and_close h)
    let ?t = "stop_reconnecting (s\<lparr>rc_posted := take j (rc_posted s) @ drop (Suc j) (rc_posted s)\<rparr>)"
    have t: "idle_client rs ds ?t"
      using r [of "take j (rc_posted s) @ drop (Suc j) (rc_posted s)"]
      by (simp add: idle_client_def stop_reconnecting_def Let_def set_reconnect_state_def rc_emit_def
          posts_inherited_def resolutions_def reconnect_delays_def delay_of_def)
    have "queue_ok n ?t" using assms(3) by (simp add: rc_updates_closed [OF queue_ok_closed])
    then have "wc_state (do_close (rc_env u) h ?t) = disconnected"
      using assms(4) by (intro rc.do_close_disconnected) (simp_all add: queue_ok_def)
    moreover have "same_plan ?t (do_close (rc_env u) h ?t)" by (rule plan.do_close_keeps) simp
    moreover have "posts_inherited (do_close (rc_env u) h ?t)"
      using t by (intro rp.do_close_keeps) (simp add: idle_client_def)
    ultimately have "idle_client rs ds (do_close (rc_env u) h ?t)"
      using t by (simp add: idle_client_def same_plan_def do_close_resolutions)
    then show ?thesis using assms(1) Rc_in_task Stop_and_close by simp
  next
    case (Start_connect p h)
    then show ?thesis using assms(1,2) Rc_in_task by simp
  next
    case (Connection_ready g host port resource)
    then show ?thesis using assms(1) Rc_in_task r
      by (simp add: handle_connection_ready_def) (simp add: idle_client_def)
  qed (use assms(1) Rc_in_task in \<open>simp_all add: idle_client_def posts_inherited_def resolutions_def
      reconnect_delays_def Let_def\<close>)
next
  case (Rc_in_wait j ec)
  then show ?thesis using assms(1)
    by (simp add: handle_reconnect_timer_def idle_client_def posts_inherited_def resolutions_def
        reconnect_delays_def)
qed

lemma idle_run:
  "idle_client rs ds s \<Longrightarrow> never_starts u s is \<Longrightarrow> queue_ok n s \<Longrightarrow> n + length is < 2 ^ 64 \<Longrightarrow>
   idle_client rs ds (rc_run u s is)"
proof (induction "is" arbitrary: s n)
  case (Cons i "is")
  then show ?case using idle_step [of rs ds s i n u] rc_step_ok [of n s u i] Cons.IH [of "rc_step u s i" "Suc n"] by simp
qed simp

text \<open>
  C17: closing is final. Once the closure of \<^verbatim>\<open>close\<close> has run, whatever was in flight (attempts, waits of
  the reconnect timer, ready callbacks of earlier generations, posted closures, completions), the client
  stays idle and disconnected, resolves nothing and schedules no reconnection, until the closure of a
  later \<^verbatim>\<open>connect\<close> runs.
\<close>

theorem rc_close_is_final:
  assumes "length bytes = write_slot_size" and "Suc (length is1 + length is2) < 2 ^ 64"
    and "s = run_rc_task u (Stop_and_close h) (rc_client_run u bytes is1)"
    and "never_starts u s is2" and "t = rc_run u s is2"
  shows "rc_state t = Idle \<and> wc_state t = disconnected \<and> resolutions t = resolutions s \<and>
    reconnect_delays t = reconnect_delays s"
proof -
  let ?r = "rc_client_run u bytes is1"
  let ?q = "stop_reconnecting ?r"
  have r: "queue_ok (length is1) ?r" using assms(1,2) by (intro rc_client_run_ok) simp_all
  then have q: "queue_ok (length is1) ?q" by (rule rc_updates_closed [OF queue_ok_closed])
  have s: "s = do_close (rc_env u) h ?q" by (simp add: assms(3))
  have "posts_inherited (new_rc_client bytes :: 'a rc_client)" by (simp add: posts_inherited_def)
  then have "posts_inherited ?q"
    unfolding rc_client_run_def by (intro posts_inherited_updates posts_inherited_run)
  then have pi: "posts_inherited s" unfolding s by (rule rp.do_close_keeps)
  have "same_plan ?q s" unfolding s by (rule plan.do_close_keeps) simp
  then have "rc_state s = Idle"
    by (simp add: same_plan_def stop_reconnecting_def set_reconnect_state_def rc_emit_def Let_def)
  moreover have "wc_state s = disconnected"
    unfolding s using q assms(2) by (intro rc.do_close_disconnected [of "length is1"]) (simp_all add: queue_ok_def)
  ultimately have "idle_client (resolutions s) (reconnect_delays s) s" using pi by (simp add: idle_client_def)
  moreover have "queue_ok (Suc (length is1)) s"
    unfolding assms(3) using r assms(2) by (intro run_rc_task_ok) simp_all
  moreover have "Suc (length is1) + length is2 < 2 ^ 64" using assms(2) by (simp only: add_Suc)
  ultimately have "idle_client (resolutions s) (reconnect_delays s) t"
    unfolding assms(5) using assms(4) by (intro idle_run)
  then show ?thesis by (simp add: idle_client_def)
qed


definition attempt_inputs :: "nat rc_input list" where
  "attempt_inputs = [Rc_in_api (Rc_connect (Some 3) (Some 4)), Rc_in_task 0,
     Rc_in_api (Rc_call_ready 1 ''a'' ''443'' ''/''), Rc_in_task 0]"

lemmas rc_eval = rc_client_run_def rc_post_def rc_emit_def start_connect_attempt_def Let_def
  set_reconnect_state_def run_rc_user_def quiet_rc_user_def handle_connection_ready_def do_connect_def
  create_stream_def set_state_def start_op_def emit_def stop_reconnecting_def

lemma new_rc_client_more_sel [simp]:
  "wc_streams_made (new_rc_client bytes) = 0"
  "wc_write_slots (new_rc_client bytes) = new_ring write_slot_count (new_write_slot bytes)"
  by (simp_all add: new_rc_client_def ws_client.defs new_ws_client_def)

theorem rc_close_is_final_witness:
  "let s = run_rc_task quiet_rc_user (Stop_and_close None) (rc_client_run quiet_rc_user zero_bytes
        [Rc_in_api (Rc_connect (Some 3) (Some 4)), Rc_in_task 0]);
       t = rc_run quiet_rc_user s [Rc_in_api (Rc_call_ready 1 ''a'' ''443'' ''/''), Rc_in_task 0]
   in rc_state t = Idle \<and> wc_state t = disconnected \<and> resolutions t = resolutions s"
proof -
  define s where "s = run_rc_task quiet_rc_user (Stop_and_close None) (rc_client_run quiet_rc_user zero_bytes
    [Rc_in_api (Rc_connect (Some 3) (Some 4)), Rc_in_task 0])"
  have "never_starts quiet_rc_user s [Rc_in_api (Rc_call_ready 1 ''a'' ''443'' ''/''), Rc_in_task 0]"
    by (simp add: s_def rc_eval do_close_def call_close_def)
  from rc_close_is_final [OF length_zero_bytes _ s_def this refl] show ?thesis
    unfolding Let_def s_def [symmetric] by simp
qed

section \<open>Reconnecting\<close>

text \<open>
  A lost connection is made again. When the read of a connected client fails, the client is
  disconnected, the disconnect handler is called, and the reconnect timer is armed with the current
  delay for the current generation; when that wait ends, a new generation starts, in which the prepare
  handler is called with its ready callback.
\<close>

theorem rc_reconnects:
  assumes "length bytes = write_slot_size" and "Suc (length is) < 2 ^ 64" and "s = rc_client_run u bytes is"
    and "rc_state s = Connected" and "wc_state s = connected" and "rc_prepare_connection s = Some p"
    and "t = handle_unexpected_disconnect (rc_env u) ec s"
    and "v = handle_reconnect_timer u (rc_generation s) None t"
  shows "wc_state t = disconnected \<and> rc_state t = Waiting_reconnect \<and>
    rc_waits t = rc_waits s @ [rc_generation s] \<and>
    reconnect_delays t = reconnect_delays s @ [rc_current_delay s] \<and>
    rc_state v = Connecting \<and> rc_generation v = rc_generation s + 1 \<and>
    rc_generation s + 1 \<in> set (rc_ready v)"
proof -
  define c where "c = do_close (rc_env u) None s"
  define d where "d = base_on_unexpected_disconnect (run_rc_user u) ec c"
  have q: "queue_ok (length is) s" unfolding assms(3) using assms(1,2) by (intro rc_client_run_ok) simp_all
  have cs: "wc_state c = disconnected"
    unfolding c_def using q assms(2) by (intro rc.do_close_disconnected [of "length is"]) (simp_all add: queue_ok_def)
  have "same_plan s c" unfolding c_def by (rule plan.do_close_keeps) simp
  moreover have "same_plan c d"
    unfolding d_def base_on_unexpected_disconnect_def
    by (auto intro!: same_plan_trans [OF rc_sel_more(1) same_plan_user] simp: emit_def split: option.split)
  ultimately have plan: "same_plan s d" by (rule same_plan_trans)
  have "extends c' (fst (run_rc_user u h a c'))" for c' h a
    by (rule run_rc_user_closed [OF extends_closed extends_refl])
  then have ds: "wc_state d = disconnected"
    using cs by (simp add: d_def base_on_unexpected_disconnect_def extends_def split: option.split)
  have "rc_state c = Connected" using \<open>same_plan s c\<close> assms(4) by (simp add: same_plan_def)
  then have t: "t = schedule_reconnect d"
    using assms(5,7) by (simp add: handle_unexpected_disconnect_def rc_env_def rc_on_unexpected_disconnect_def
        c_def d_def)
  have ts: "wc_state t = disconnected" using ds same_base_sel(1) [of d t] by (simp add: t)
  have tp: "rc_state t = Waiting_reconnect" "rc_waits t = rc_waits s @ [rc_generation s]"
      "reconnect_delays t = reconnect_delays s @ [rc_current_delay s]" "rc_generation t = rc_generation s"
      "rc_prepare_connection t = Some p"
    using plan assms(4,6) by (simp_all add: t schedule_reconnect_def is_reconnect_active_def same_plan_def
        set_reconnect_state_def rc_emit_def reconnect_delays_def delay_of_def Let_def)
  let ?g = "rc_generation s + 1"
  let ?w = "t\<lparr>rc_state := Connecting, rc_generation := ?g, rc_ready := ?g # rc_ready t\<rparr>"
  have v: "v = fst (run_rc_user u p Arg_none (rc_emit (Rc_called_prepare p ?g) ?w))"
    using tp by (simp add: assms(8) handle_reconnect_timer_def start_connect_attempt_def Let_def
        set_reconnect_state_def)
  have "same_plan ?w v"
    unfolding v by (rule same_plan_trans [OF same_plan_emit same_plan_user]) (simp add: delay_of_def)
  then show ?thesis using ts tp by (simp add: same_plan_def)
qed


definition connected_inputs :: "nat rc_input list" where
  "connected_inputs = attempt_inputs @ [Rc_in_base (In_complete 0 ok_completion),
     Rc_in_base (In_complete 0 ok_completion), Rc_in_base (In_complete 0 ok_completion),
     Rc_in_base (In_complete 0 ok_completion)]"

lemmas rc_connect_eval = handle_resolve_def handle_connect_def handle_ssl_handshake_def
  handle_websocket_handshake_def is_connecting_def is_connected_def call_connect_def rc_env_def
  handle_connect_result_def call_rc_connect_def start_ping_timer_def start_ping_timer_after_def
  start_read_timer_def start_read_def ok_completion_def

lemma rc_connected:
  fixes s defines "s \<equiv> rc_client_run quiet_rc_user zero_bytes connected_inputs"
  shows "rc_state s = Connected" and "wc_state s = connected" and "rc_prepare_connection s = Some 3"
    and "rc_current_delay s = seconds 1" and "reconnect_delays s = []" and "rc_generation s = 1"
  by (simp_all add: s_def connected_inputs_def attempt_inputs_def rc_eval rc_connect_eval
      reconnect_delays_def delay_of_def new_rc_client_def ws_client.defs rc_client.defs new_ws_client_def)

theorem rc_reconnects_witness:
  "reconnect_delays (handle_unexpected_disconnect (rc_env quiet_rc_user) (Some (Sys_error 1))
     (rc_client_run quiet_rc_user zero_bytes connected_inputs)) = [seconds 1]"
proof -
  have n: "Suc (length connected_inputs) < 2 ^ 64" by (simp add: connected_inputs_def attempt_inputs_def)
  from rc_reconnects [OF length_zero_bytes n refl rc_connected(1-3) refl refl] rc_connected show ?thesis by simp
qed

section \<open>Findings\<close>

text \<open>
  A finding. The first reconnect delay after a successful connection is the initial delay itself,
  not limited by the maximum: with an initial delay of 60 s that was set before the maximum was lowered
  to 10 s, the client waits 60 s.
\<close>

theorem reconnect_delay_exceeds_max:
  "let s = rc_client_run quiet_rc_user zero_bytes
         ([Rc_in_api (Rc_set_initial_reconnect_delay (seconds 60)), Rc_in_task 0,
           Rc_in_api (Rc_set_max_reconnect_delay (seconds 10)), Rc_in_task 0] @ connected_inputs);
       t = handle_unexpected_disconnect (rc_env quiet_rc_user) (Some (Sys_error 1)) s
   in rc_max_delay t = seconds 10 \<and> reconnect_delays t = [seconds 60]"
  by (simp add: connected_inputs_def attempt_inputs_def rc_eval rc_connect_eval handle_unexpected_disconnect_def
      do_close_eq live_def closing_state_def get_size_new_ring cancel_pending_operations_def stop_ping_timer_def
      stop_read_timer_def close_socket_def call_close_def rc_on_unexpected_disconnect_def
      base_on_unexpected_disconnect_def schedule_reconnect_def is_reconnect_active_def
      reconnect_delays_def delay_of_def new_rc_client_def ws_client.defs rc_client.defs new_ws_client_def)

text \<open>
  A finding. A program closes the reconnecting client while its first resolution is running and
  connects again. The late completion of the first resolution tears down the second attempt in the base
  class, and the reconnecting client ignores the result, which belongs to an old generation. It then
  stays in the state \<^verbatim>\<open>connecting\<close> although the base class is disconnected, with no operation
  outstanding, no closure posted and no wait of the reconnect timer: it never connects again by itself.
\<close>

theorem reconnecting_client_stuck:
  "let s = rc_client_run quiet_rc_user zero_bytes (attempt_inputs @
        [Rc_in_api (Rc_close None), Rc_in_task 0,
         Rc_in_api (Rc_connect (Some 3) (Some 4)), Rc_in_task 0,
         Rc_in_api (Rc_call_ready 3 ''a'' ''443'' ''/''), Rc_in_task 0,
         Rc_in_base (In_complete 0 (ok_completion\<lparr>comp_ec := Some operation_aborted\<rparr>)),
         Rc_in_base (In_complete 0 ok_completion)])
   in rc_state s = Connecting \<and> wc_state s = disconnected \<and> wc_pending s = [] \<and> wc_posted s = [] \<and>
      rc_posted s = [] \<and> rc_waits s = []"
  by (simp add: attempt_inputs_def rc_eval rc_connect_eval fail_connection_def
      do_close_eq live_def closing_state_def get_size_new_ring cancel_pending_operations_def stop_ping_timer_def
      stop_read_timer_def close_socket_def call_close_def
      new_rc_client_def ws_client.defs rc_client.defs new_ws_client_def)

end
