(* ===== verification/Reconnecting_Automaton.thy ===== *)
theory Reconnecting_Automaton
  imports Reconnecting_Properties Contracted_Runs
begin

text \<open>
  What \<^verbatim>\<open>ReconnectingSecureWebSocketClient\<close> adds to its base class is a small automaton: its state, the
  generation of the present attempt, and the waits of the reconnect timer. The theory states this automaton
  and shows that the class implements it, whatever the base class and the handlers of the user do. That the
  client keeps trying is then proved on the automaton.
\<close>

section \<open>The automaton\<close>

type_synonym plan = "reconnect_state \<times> u64 \<times> u64 list"

text \<open>What the base class can report: a connection, a failed attempt, a lost connection.\<close>

inductive result_move :: "plan \<Rightarrow> plan \<Rightarrow> bool" where
  made: "result_move (Connecting, g, ws) (Connected, g, ws)"
| failed: "result_move (Connecting, g, ws) (Waiting_reconnect, g, ws @ [g])"
| lost: "result_move (Connected, g, ws) (Waiting_reconnect, g, ws @ [g])"

datatype plan_label = L_connect | L_close | L_wait nat bool | L_base | L_other

definition without :: "nat \<Rightarrow> 'a list \<Rightarrow> 'a list" where
  "without i xs = take i xs @ drop (Suc i) xs"

text \<open>
  \<^verbatim>\<open>L_wait\<close> is the end of the \<open>i\<close>-th wait of the timer, with or without an error. Only a wait of the present
  generation that ends without an error starts a new attempt.
\<close>

inductive plan_move :: "plan \<Rightarrow> plan_label \<Rightarrow> plan \<Rightarrow> bool" where
  connect: "plan_move (Idle, g, ws) L_connect (Connecting, g + 1, ws)"
| refused: "st \<noteq> Idle \<Longrightarrow> plan_move (st, g, ws) L_connect (st, g, ws)"
| close: "plan_move (st, g, ws) L_close (Idle, g + 1, ws)"
| retry: "i < length ws \<Longrightarrow> ws ! i = g \<Longrightarrow>
    plan_move (Waiting_reconnect, g, ws) (L_wait i True) (Connecting, g + 1, without i ws)"
| stale: "i < length ws \<Longrightarrow> \<not> (ok \<and> ws ! i = g \<and> st = Waiting_reconnect) \<Longrightarrow>
    plan_move (st, g, ws) (L_wait i ok) (st, g, without i ws)"
| no_wait: "length ws \<le> i \<Longrightarrow> plan_move (st, g, ws) (L_wait i ok) (st, g, ws)"
| base: "result_move\<^sup>*\<^sup>* p q \<Longrightarrow> plan_move p L_base q"
| other: "plan_move p L_other p"

inductive plan_run :: "plan \<Rightarrow> plan_label list \<Rightarrow> plan \<Rightarrow> bool" where
  stop: "plan_run p [] p"
| more: "plan_move p l q \<Longrightarrow> plan_run q ls r \<Longrightarrow> plan_run p (l # ls) r"

inductive_cases wait_moveE: "plan_move (st, g, ws) (L_wait i ok) q"
inductive_cases base_moveE: "plan_move p L_base q"
inductive_cases result_moveE: "result_move p q"

section \<open>The client implements it\<close>

definition plan_of :: "'h rc_client \<Rightarrow> plan" where
  "plan_of s = (rc_state s, rc_generation s, rc_waits s)"

fun task_label :: "'h rc_task \<Rightarrow> plan_label" where
  "task_label (Start_connect p h) = L_connect"
| "task_label (Stop_and_close h) = L_close"
| "task_label (Connection_ready g host port resource) = L_base"
| "task_label _ = L_other"

fun label_of :: "'h rc_client \<Rightarrow> 'h rc_input \<Rightarrow> plan_label" where
  "label_of s (Rc_in_api c) = L_other"
| "label_of s (Rc_in_base i) = L_base"
| "label_of s (Rc_in_task i) = (if i < length (rc_posted s) then task_label (rc_posted s ! i) else L_other)"
| "label_of s (Rc_in_wait i ec) = L_wait i (ec = None)"

fun labels_of :: "'h rc_user \<Rightarrow> 'h rc_client \<Rightarrow> 'h rc_input list \<Rightarrow> plan_label list" where
  "labels_of u s [] = []"
| "labels_of u s (i # is) = label_of s i # labels_of u (rc_step u s i) is"

lemma plan_of_same: "same_plan s t \<Longrightarrow> plan_of t = plan_of s"
  by (simp add: plan_of_def same_plan_def)

lemma plan_of_more: "ws_client.more t = ws_client.more s \<Longrightarrow> plan_of t = plan_of s" for s t :: "'h rc_client"
  by (rule plan_of_same [OF rc_sel_more(1)])

lemma plan_of_user [simp]:
  "plan_of (fst (run_rc_user u h a s)) = plan_of s" "plan_of (call_rc_connect u h' ec s) = plan_of s"
  "plan_of (rc_api c s) = plan_of s" "plan_of (rc_emit ev s) = plan_of s"
  by (simp_all add: plan_of_same same_plan_user same_plan_call_connect same_plan_api)
    (simp add: plan_of_def rc_emit_def)

lemma schedule_plan:
  "plan_of (schedule_reconnect s) =
     (if rc_state s = Idle then plan_of s else (Waiting_reconnect, rc_generation s, rc_waits s @ [rc_generation s]))"
  by (cases "rc_state s") (simp_all add: schedule_reconnect_def is_reconnect_active_def plan_of_def
      set_reconnect_state_def rc_emit_def Let_def)

lemma plan_of_sel: "plan_of t = plan_of s \<Longrightarrow> rc_state t = rc_state s \<and> rc_generation t = rc_generation s \<and> rc_waits t = rc_waits s"
  by (simp add: plan_of_def)

lemma result_plan: "result_move\<^sup>*\<^sup>* (plan_of s) (plan_of (handle_connect_result u g ec s))"
proof (cases "g = rc_generation s \<and> rc_state s = Connecting")
  case True
  then have s: "plan_of s = (Connecting, rc_generation s, rc_waits s)" by (simp add: plan_of_def)
  show ?thesis
  proof (cases ec)
    case None
    then have "plan_of (handle_connect_result u g ec s) = (Connected, rc_generation s, rc_waits s)"
      using True by (simp add: handle_connect_result_def Let_def) (simp add: plan_of_def set_reconnect_state_def)
    then show ?thesis using s result_move.made by (metis r_into_rtranclp)
  next
    case (Some e)
    define v where "v = call_rc_connect u (rc_connect_handler s) ec s"
    have "plan_of v = plan_of s" by (simp add: v_def)
    then have "plan_of (schedule_reconnect v) = (Waiting_reconnect, rc_generation s, rc_waits s @ [rc_generation s])"
      using True plan_of_sel [of v s] by (simp add: schedule_plan)
    then show ?thesis
      using s True Some result_move.failed by (metis handle_connect_result_def option.distinct(1) r_into_rtranclp v_def)
  qed
next
  case False
  then show ?thesis by (auto simp: handle_connect_result_def)
qed

lemma disconnect_plan: "result_move\<^sup>*\<^sup>* (plan_of s) (plan_of (rc_on_unexpected_disconnect u ec s))"
proof -
  define v where "v = base_on_unexpected_disconnect (run_rc_user u) ec s"
  have "plan_of (emit ev s) = plan_of s" for ev by (rule plan_of_more) (simp add: emit_def)
  then have v: "plan_of v = plan_of s"
    by (simp add: v_def base_on_unexpected_disconnect_def split: option.split)
  have "result_move (plan_of s) (plan_of (schedule_reconnect v))" if "rc_state s = Connected"
    using that plan_of_sel [OF v] result_move.lost by (simp add: schedule_plan) (simp add: plan_of_def)
  with v show ?thesis by (auto simp: rc_on_unexpected_disconnect_def Let_def v_def [symmetric])
qed

interpretation mv: posted_property "rc_env u" "\<lambda>t. result_move\<^sup>*\<^sup>* p (plan_of t)"
proof unfold_locales
  fix s t :: "'a rc_client" and h arg cb ec i
  assume P: "result_move\<^sup>*\<^sup>* p (plan_of s)"
  show "result_move\<^sup>*\<^sup>* p (plan_of t)" if "ws_client.more t = ws_client.more s"
    using P plan_of_more [OF that] by simp
  show "result_move\<^sup>*\<^sup>* p (plan_of (fst (run_handler (rc_env u) h arg s)))" using P by (simp add: rc_env_def)
  show "result_move\<^sup>*\<^sup>* p (plan_of (run_connect_cb (rc_env u) cb ec s))"
    using P rtranclp_trans [OF P result_plan] by (simp add: rc_env_def split: connect_cb.split)
  show "result_move\<^sup>*\<^sup>* p (plan_of (on_unexpected_disconnect (rc_env u) ec s))"
    using rtranclp_trans [OF P disconnect_plan] by (simp add: rc_env_def)
  show "result_move\<^sup>*\<^sup>* p (plan_of (s\<lparr>wc_posted := take i (wc_posted s) @ drop (Suc i) (wc_posted s)\<rparr>))"
    using P by (simp add: plan_of_def)
qed

lemma attempt_plan: "plan_of (start_connect_attempt u s) = (Connecting, rc_generation s + 1, rc_waits s)"
  by (simp add: start_connect_attempt_def Let_def split: option.split) (simp add: plan_of_def set_reconnect_state_def)

lemma task_plan: "plan_move (plan_of s) (task_label tk) (plan_of (run_rc_task u tk s))"
proof (cases tk)
  case (Start_connect p h)
  show ?thesis
  proof (cases "rc_state s = Idle")
    case True
    then show ?thesis using plan_move.connect by (simp add: Start_connect attempt_plan) (simp add: plan_of_def)
  next
    case False
    then show ?thesis using plan_move.refused by (simp add: Start_connect) (simp add: plan_of_def)
  qed
next
  case (Stop_and_close h)
  have "plan_of (do_close (rc_env u) h v) = plan_of v" for v
    using plan.do_close_keeps [of v v u h] by (simp add: plan_of_same)
  then have "plan_of (run_rc_task u tk s) = (Idle, rc_generation s + 1, rc_waits s)"
    by (simp add: Stop_and_close) (simp add: plan_of_def stop_reconnecting_def set_reconnect_state_def rc_emit_def Let_def)
  then show ?thesis using plan_move.close by (simp add: Stop_and_close) (simp add: plan_of_def)
next
  case (Connection_ready g host port resource)
  let ?s = "s\<lparr>wc_host := host, wc_port := port, wc_resource := resource\<rparr>"
  have "plan_of ?s = plan_of s" by (simp add: plan_of_def)
  then have "result_move\<^sup>*\<^sup>* (plan_of s) (plan_of (do_connect (rc_env u) cb ?s))" for cb
    by (intro mv.connection_keeps(1)) simp
  then show ?thesis by (auto simp: Connection_ready handle_connection_ready_def intro: plan_move.base)
next
  case (Set_initial_delay d)
  then show ?thesis using plan_move.other by (simp add: Let_def plan_of_def)
next
  case (Set_max_delay d)
  then show ?thesis using plan_move.other by (simp add: plan_of_def)
qed

lemma step_plan: "plan_move (plan_of s) (label_of s i) (plan_of (rc_step u s i))"
proof (cases i)
  case (Rc_in_api c)
  then show ?thesis by (simp add: plan_move.other)
next
  case (Rc_in_base b)
  have "result_move\<^sup>*\<^sup>* (plan_of s) (plan_of (ws_step (rc_env u) s b))" if "base_input b"
    using that by (intro mv.ws_step_keeps) simp_all
  then show ?thesis by (simp add: Rc_in_base plan_move.base)
next
  case (Rc_in_task k)
  have "plan_of (s\<lparr>rc_posted := x\<rparr>) = plan_of s" for x by (simp add: plan_of_def)
  then show ?thesis using task_plan [of "s\<lparr>rc_posted := _\<rparr>"] by (simp add: Rc_in_task plan_move.other)
next
  case (Rc_in_wait k ec)
  show ?thesis
  proof (cases "k < length (rc_waits s)")
    case True
    let ?s = "s\<lparr>rc_waits := without k (rc_waits s)\<rparr>"
    have t: "rc_step u s i = handle_reconnect_timer u (rc_waits s ! k) ec ?s"
      using True by (simp add: Rc_in_wait without_def)
    show ?thesis
    proof (cases "ec = None \<and> rc_waits s ! k = rc_generation s \<and> rc_state s = Waiting_reconnect")
      case retry: True
      then have "plan_of (rc_step u s i) = (Connecting, rc_generation s + 1, without k (rc_waits s))"
        unfolding t by (simp add: handle_reconnect_timer_def attempt_plan)
      then show ?thesis
        using retry plan_move.retry [OF True, of "rc_generation s"] by (simp add: Rc_in_wait plan_of_def [of s])
    next
      case False
      then have "rc_step u s i = ?s" by (auto simp: t handle_reconnect_timer_def)
      then show ?thesis
        using False plan_move.stale [OF True, of "ec = None" "rc_generation s" "rc_state s"]
        by (simp add: Rc_in_wait del: rc_step.simps) (simp add: plan_of_def)
    qed
  next
    case False
    then show ?thesis using plan_move.no_wait by (simp add: Rc_in_wait plan_of_def)
  qed
qed

text \<open>
  C12: refinement. The reconnecting client implements the automaton: after any run its state, its
  generation and its waits are those of a run of the automaton under the closures of \<^verbatim>\<open>connect\<close> and \<^verbatim>\<open>close\<close> that were
  run, the waits that ended, and the results that the base class reported. In particular the
  generation changes exactly when an attempt starts and when the client is closed, and nothing that a
  handler or the base class does takes the client from idle to an attempt or from an attempt to idle.
\<close>

theorem rc_refines_automaton:
  "plan_run (Idle, 0, []) (labels_of u (new_rc_client bytes) is) (plan_of (rc_client_run u bytes is))"
proof -
  have "plan_run (plan_of s) (labels_of u s is) (plan_of (rc_run u s is))" for s
    by (induction "is" arbitrary: s) (auto intro: plan_run.intros step_plan simp del: rc_step.simps label_of.simps)
  from this [of "new_rc_client bytes"] show ?thesis
    by (simp add: rc_client_run_def plan_of_def new_rc_client_def ws_client.defs rc_client.defs)
qed

section \<open>The client keeps trying\<close>

fun plan_ok :: "plan \<Rightarrow> bool" where
  "plan_ok (st, g, ws) \<longleftrightarrow> (st = Waiting_reconnect \<longrightarrow> g \<in> set ws)"

fun fair_label :: "plan \<Rightarrow> plan_label \<Rightarrow> bool" where
  "fair_label (st, g, ws) (L_wait i ok) \<longleftrightarrow> (i < length ws \<and> ws ! i = g \<and> st = Waiting_reconnect \<longrightarrow> ok)"
| "fair_label p l \<longleftrightarrow> True"

lemma without_keeps: "x \<in> set xs \<Longrightarrow> i < length xs \<Longrightarrow> xs ! i \<noteq> x \<Longrightarrow> x \<in> set (without i xs)"
  by (subst (asm) id_take_nth_drop) (auto simp: without_def)

lemma result_move_ok: "result_move p q \<Longrightarrow> plan_ok p \<Longrightarrow> plan_ok q"
  by (auto elim: result_moveE)

lemma result_moves_ok: "result_move\<^sup>*\<^sup>* p q \<Longrightarrow> plan_ok p \<Longrightarrow> plan_ok q"
  by (induction rule: rtranclp_induct) (auto intro: result_move_ok)

lemma plan_move_ok: "plan_move p l q \<Longrightarrow> plan_ok p \<Longrightarrow> fair_label p l \<Longrightarrow> plan_ok q"
  by (induction rule: plan_move.induct) (auto intro: without_keeps result_moves_ok)

text \<open>
  What Asio documents of the reconnect timer: a wait that was not cancelled ends without an error. The wait
  of the present generation of a client that waits was not cancelled, for \<^verbatim>\<open>stop_reconnecting\<close>, which cancels, and a
  new attempt, which could arm the timer again, both begin a new generation.
\<close>

fun retry_contract :: "'h rc_client \<Rightarrow> 'h rc_input \<Rightarrow> bool" where
  "retry_contract s (Rc_in_wait i ec) \<longleftrightarrow>
     (i < length (rc_waits s) \<and> rc_waits s ! i = rc_generation s \<and> rc_state s = Waiting_reconnect \<longrightarrow> ec = None)"
| "retry_contract s _ \<longleftrightarrow> True"

lemma contract_fair: "retry_contract s i \<Longrightarrow> fair_label (plan_of s) (label_of s i)"
proof (cases i)
  case (Rc_in_task k)
  have "fair_label (plan_of s) (task_label tk)" for tk :: "'a rc_task" by (cases tk) (simp_all add: plan_of_def)
  then show ?thesis by (simp add: Rc_in_task plan_of_def)
qed (simp_all add: plan_of_def)

interpretation rt: contracted_run "rc_step u" retry_contract "\<lambda>s. plan_ok (plan_of s)" for u
  by unfold_locales (rule plan_move_ok [OF step_plan _ contract_fair])

lemma rc_run_foldl: "rc_run u s is = foldl (rc_step u) s is"
  by (induction "is" arbitrary: s) simp_all

text \<open>
  C14: the client keeps trying. Whenever the reconnecting client waits after a failed attempt or a lost
  connection, a wait of the present generation is outstanding on the reconnect timer, and when it ends
  the next attempt starts: a new generation, for which the prepare handler, if there is one, is given a ready
  callback. So a waiting client is never left without a timer, under every interleaving.
\<close>

theorem rc_keeps_retrying:
  assumes "keeps_contract (rc_step u) retry_contract (new_rc_client bytes) is" and "s = rc_client_run u bytes is"
    and "rc_state s = Waiting_reconnect"
  shows "\<exists>i < length (rc_waits s). rc_waits s ! i = rc_generation s \<and>
    (let t = rc_step u s (Rc_in_wait i None)
     in rc_state t = Connecting \<and> rc_generation t = rc_generation s + 1 \<and>
        (rc_prepare_connection s \<noteq> None \<longrightarrow> rc_generation s + 1 \<in> set (rc_ready t)))"
proof -
  have "plan_ok (plan_of (new_rc_client bytes))"
    by (simp add: plan_of_def new_rc_client_def ws_client.defs rc_client.defs)
  from rt.run_inv [OF this assms(1)] have "rc_generation s \<in> set (rc_waits s)"
    using assms(3) by (simp add: assms(2) rc_client_run_def rc_run_foldl plan_of_def)
  then obtain i where i: "i < length (rc_waits s)" "rc_waits s ! i = rc_generation s" by (metis in_set_conv_nth)
  let ?s = "s\<lparr>rc_waits := without i (rc_waits s)\<rparr>"
  have t: "rc_step u s (Rc_in_wait i None) = start_connect_attempt u ?s"
    using i assms(3) by (simp add: handle_reconnect_timer_def without_def)
  have "rc_ready (fst (run_rc_user u h a v)) = rc_ready v" for h a v
    using same_plan_user [of v u h a] by (simp add: same_plan_def)
  then have "rc_generation s + 1 \<in> set (rc_ready (start_connect_attempt u ?s))" if "rc_prepare_connection s \<noteq> None"
    using that by (auto simp: start_connect_attempt_def set_reconnect_state_def rc_emit_def Let_def)
  moreover have "rc_state (start_connect_attempt u ?s) = Connecting"
      "rc_generation (start_connect_attempt u ?s) = rc_generation s + 1"
    using attempt_plan [of u ?s] by (simp_all add: plan_of_def)
  ultimately show ?thesis using i unfolding Let_def by (metis t)
qed

definition unreachable :: completion where
  "unreachable = ok_completion\<lparr>comp_ec := Some host_unreachable\<rparr>"

definition failing_inputs :: "nat rc_input list" where
  "failing_inputs = attempt_inputs @ [Rc_in_base (In_complete 0 unreachable)]"

lemmas rc_close_eval = fail_connection_def do_close_eq live_def closing_state_def get_size_new_ring
  cancel_pending_operations_def stop_ping_timer_def stop_read_timer_def close_socket_def call_close_def
  schedule_reconnect_def is_reconnect_active_def new_rc_client_def ws_client.defs rc_client.defs new_ws_client_def

theorem rc_keeps_retrying_witness:
  "\<exists>i < length (rc_waits (rc_client_run quiet_rc_user zero_bytes failing_inputs)).
     rc_state (rc_step quiet_rc_user (rc_client_run quiet_rc_user zero_bytes failing_inputs) (Rc_in_wait i None)) = Connecting"
proof -
  have c: "keeps_contract (rc_step quiet_rc_user) retry_contract (new_rc_client zero_bytes) failing_inputs"
    by (simp add: failing_inputs_def attempt_inputs_def del: rc_step.simps)
  have "rc_state (rc_client_run quiet_rc_user zero_bytes failing_inputs) = Waiting_reconnect"
    by (simp add: failing_inputs_def attempt_inputs_def unreachable_def rc_eval rc_connect_eval rc_close_eval)
  from rc_keeps_retrying [OF c refl this] show ?thesis by (auto simp: Let_def simp del: rc_step.simps)
qed

section \<open>A finding\<close>

text \<open>
  The ready callback can be called more than once for the same attempt, and nothing marks it as used. The
  second call makes \<^verbatim>\<open>do_connect\<close> reject the attempt that is already running; the client takes this
  for the failure of the attempt and waits, while the base class goes on to connect. From then on the base class is
  connected and the client makes one attempt after another, each rejected with \<^verbatim>\<open>already_connected\<close>; the user's
  connect handler is never told of the connection.
\<close>

definition ready_twice_inputs :: "nat rc_input list" where
  "ready_twice_inputs = attempt_inputs @ [Rc_in_api (Rc_call_ready 1 ''a'' ''443'' ''/''), Rc_in_task 0,
     Rc_in_base (In_complete 0 ok_completion), Rc_in_base (In_complete 0 ok_completion),
     Rc_in_base (In_complete 0 ok_completion), Rc_in_base (In_complete 0 ok_completion)]"

definition next_attempt_inputs :: "nat rc_input list" where
  "next_attempt_inputs =
     [Rc_in_wait 0 None, Rc_in_api (Rc_call_ready 2 ''a'' ''443'' ''/''), Rc_in_task 0]"

lemma ready_twice:
  "let s = rc_client_run quiet_rc_user zero_bytes ready_twice_inputs;
       t = rc_run quiet_rc_user s next_attempt_inputs
   in rc_state s = Waiting_reconnect \<and> wc_state s = connected \<and>
      rc_state t = Waiting_reconnect \<and> wc_state t = connected \<and> rc_waits t = [2] \<and>
      Rc_called_connect 4 None \<notin> set (rc_trace t)"
  by (simp add: ready_twice_inputs_def next_attempt_inputs_def attempt_inputs_def rc_eval rc_connect_eval rc_close_eval
      handle_reconnect_timer_def)

end
