(* ===== verification/Reconnecting_Progress.thy ===== *)
theory Reconnecting_Progress
  imports WebSocket_Progress Reconnecting_Automaton
begin

text \<open>
  \<^verbatim>\<open>ReconnectingSecureWebSocketClient\<close> and its base class together. What holds of the base class alone, under
  the contracts of Asio and Beast, holds of it inside the derived class (\<open>inherited_invariant\<close>); and the state of
  the derived class agrees with that of the connection. So a client that says it is connected is connected, reads,
  and watches the connection.
\<close>

section \<open>Invariants of the base class are inherited\<close>

fun base_contract :: "('h rc_client \<Rightarrow> 'h ws_input \<Rightarrow> bool) \<Rightarrow> 'h rc_client \<Rightarrow> 'h rc_input \<Rightarrow> bool" where
  "base_contract ok s (Rc_in_base i) = ok s i"
| "base_contract ok s _ = True"

locale inherited_invariant =
  fixes u :: "'h rc_user" and ok :: "'h rc_client \<Rightarrow> 'h ws_input \<Rightarrow> bool" and I :: "'h rc_client \<Rightarrow> bool"
  assumes closed: "api_closed I"
    and base_step: "I s \<Longrightarrow> ok s i \<Longrightarrow> I (ws_step (rc_env u) s i)"
    and base_task: "I s \<Longrightarrow> I (run_task (rc_env u) now tk s)"
    and host: "I s \<Longrightarrow> I (s\<lparr>wc_host := x, wc_port := y, wc_resource := z\<rparr>)"
begin

lemma task: "I s \<Longrightarrow> I (run_rc_task u tk s)"
  using base_task [of _ 0 "Do_connect _"] base_task [of _ 0 "Do_close _"]
  by (cases tk) (simp_all add: host handle_connection_ready_def Let_def call_rc_connect_closed [OF closed]
      start_connect_attempt_closed [OF closed] rc_updates_closed [OF closed])

lemma step: "I s \<Longrightarrow> base_contract ok s i \<Longrightarrow> I (rc_step u s i)"
  by (cases i) (simp_all add: rc_api_closed [OF closed] base_step task rc_updates_closed [OF closed]
      handle_reconnect_timer_def start_connect_attempt_closed [OF closed] del: ws_step.simps)

end

sublocale inherited_invariant \<subseteq> contracted_run "rc_step u" "base_contract ok" I
  by unfold_locales (rule step)

lemmas rc_ws = rc.ws_handlers_axioms
lemmas rc_step_progress = ws_handlers.ws_step_progress [OF rc_ws]
lemmas rc_task_progress = ws_handlers.run_task_inv [OF rc_ws]
lemmas rc_step_reads = ws_handlers.ws_step_read_inv [OF rc_ws]
lemmas rc_task_reads = ws_handlers.run_task_read_inv [OF rc_ws]
lemmas rc_handlers_pview = ws_handlers.handlers_pview [OF rc_ws]
lemmas rc_do_close_state = ws_handlers.do_close_state [OF rc_ws]

interpretation ip: inherited_invariant u timers_contract "\<lambda>s. progress_inv True (pview s)" for u
proof unfold_locales
  fix s :: "'a rc_client"
  assume "progress_inv True (pview s)"
  then show "progress_inv True (pview (s\<lparr>wc_host := x, wc_port := y, wc_resource := z\<rparr>))" for x y z by simp
qed (simp_all add: rc_step_progress rc_task_progress, simp add: api_closed_def write_now_def)

interpretation ir: inherited_invariant u beast_read "\<lambda>s. read_inv (rview s)" for u
proof unfold_locales
  fix s :: "'a rc_client"
  assume "read_inv (rview s)"
  then show "read_inv (rview (s\<lparr>wc_host := x, wc_port := y, wc_resource := z\<rparr>))" for x y z by (simp add: rview_def)
qed (simp_all add: rc_step_reads rc_task_reads, simp add: api_closed_def write_now_def)

section \<open>The two states agree\<close>

definition agree :: "'h rc_client \<Rightarrow> bool" where
  "agree s \<longleftrightarrow> wc_state s \<noteq> closing \<and> (rc_state s = Connected \<longrightarrow> wc_state s = connected) \<and>
     (rc_state s = Idle \<longrightarrow> wc_state s = disconnected)"

lemma agree_cong: "wc_state t = wc_state s \<Longrightarrow> rc_state t = rc_state s \<Longrightarrow> agree t = agree s"
  by (simp add: agree_def)

lemma agree_fields [simp]:
  "agree (s\<lparr>wc_write_slots := x1\<rparr>) = agree s" "agree (s\<lparr>wc_write_in_progress := x2\<rparr>) = agree s"
  "agree (s\<lparr>wc_write_generation := x3\<rparr>) = agree s" "agree (s\<lparr>wc_last_read_time := x4\<rparr>) = agree s"
  "agree (s\<lparr>wc_read_buffer := x5\<rparr>) = agree s" "agree (s\<lparr>wc_message_handler := x6\<rparr>) = agree s"
  "agree (s\<lparr>wc_disconnect_handler := x6\<rparr>) = agree s" "agree (s\<lparr>wc_ping_message_generator := x6\<rparr>) = agree s"
  "agree (s\<lparr>wc_ping_interval := x4\<rparr>) = agree s" "agree (s\<lparr>wc_read_timeout := x4\<rparr>) = agree s"
  "agree (s\<lparr>wc_pending := x7\<rparr>) = agree s" "agree (s\<lparr>wc_posted := x8\<rparr>) = agree s"
  "agree (s\<lparr>wc_trace := x9\<rparr>) = agree s"
  "agree (s\<lparr>wc_host := y1, wc_port := y2, wc_resource := y3\<rparr>) = agree s"
  by (simp_all add: agree_def)

lemma agree_primitives [simp]:
  "agree (emit ev s) = agree s" "agree (start_op p s) = agree s" "agree (start_write s) = agree s"
  "agree (start_ping_timer_after d s) = agree s" "agree (start_ping_timer s) = agree s"
  "agree (stop_ping_timer s) = agree s" "agree (start_read_timer s) = agree s"
  "agree (stop_read_timer s) = agree s" "agree (start_read s) = agree s"
proof -
  show e: "agree (emit ev s) = agree s" "agree (start_op p s) = agree s" for ev p and s :: "'a rc_client"
    by (simp_all add: emit_def start_op_def)
  show "agree (start_ping_timer_after d s) = agree s" for d
    by (simp add: start_ping_timer_after_def e)
  then show "agree (start_ping_timer s) = agree s" by (simp add: start_ping_timer_def)
  show "agree (start_write s) = agree s" by (auto simp: start_write_def Let_def e split: option.split)
  show "agree (stop_ping_timer s) = agree s" "agree (stop_read_timer s) = agree s" "agree (start_read_timer s) = agree s"
      "agree (start_read s) = agree s"
    by (simp_all add: stop_ping_timer_def stop_read_timer_def start_read_timer_def start_read_def e split: option.split)
qed

lemma agree_queue_write [simp]: "agree (fst (queue_write ty msg h s)) = agree s"
  by (auto simp: queue_write_def Let_def split: option.split)

lemma rc_user_state [simp]:
  "wc_state (fst (run_rc_user u h a s)) = wc_state s" "rc_state (fst (run_rc_user u h a s)) = rc_state s"
  "wc_state (call_rc_connect u h' ec s) = wc_state s" "rc_state (call_rc_connect u h' ec s) = rc_state s"
proof -
  have w: "wc_state (fst (run_rc_user u h a s)) = wc_state s" for h a s
    using arg_cong [OF rc_handlers_pview(1) [of u h a s], of p_state] by (simp add: pview_sel rc_env_def)
  have r: "rc_state (fst (run_rc_user u h a s)) = rc_state s" for h s
    using plan_of_sel [OF plan_of_user(1) [of u h a s]] by simp
  show "wc_state (fst (run_rc_user u h a s)) = wc_state s" "rc_state (fst (run_rc_user u h a s)) = rc_state s"
    by (rule w, rule r)
  show "rc_state (call_rc_connect u h' ec s) = rc_state s"
    using plan_of_sel [OF plan_of_user(2) [of u h' ec s]] by simp
  show "wc_state (call_rc_connect u h' ec s) = wc_state s"
    by (simp add: call_rc_connect_def w rc_emit_def split: option.split)
qed

lemma agree_user [simp]:
  "agree (fst (run_rc_user u h a s)) = agree s" "agree (call_rc_connect u h' ec s) = agree s"
  "agree (call_write (rc_env u) h' ec s) = agree s" "agree (call_close (rc_env u) h' ec s) = agree s"
proof -
  show r: "agree (fst (run_rc_user u h a s)) = agree s" for h a s by (rule agree_cong; simp)
  show "agree (call_rc_connect u h' ec s) = agree s" by (rule agree_cong; simp)
  show "agree (call_write (rc_env u) h' ec s) = agree s" "agree (call_close (rc_env u) h' ec s) = agree s"
    by (simp_all add: call_write_def call_close_def rc_env_def r split: option.split)
qed

lemma agree_write [simp]: "agree (fst (do_write (rc_env u) msg h s)) = agree s"
proof (cases "queue_write Message msg h s")
  case (Pair t ec)
  then have "agree t = agree s" using agree_queue_write [of Message msg h s] by simp
  then show ?thesis by (simp add: do_write_def Pair split: option.split)
qed

text \<open>The result of an attempt: success is only reported when the base class is connected.\<close>

lemma agree_connect:
  assumes "agree s" and "ec = None \<longrightarrow> wc_state s = connected"
  shows "agree (call_connect (rc_env u) cb ec s)"
proof -
  have "agree (schedule_reconnect v)" if "agree v" for v :: "'a rc_client"
    using that by (auto simp: agree_def schedule_reconnect_def is_reconnect_active_def set_reconnect_state_def
        rc_emit_def Let_def)
  moreover have "agree (set_reconnect_state Connected (s\<lparr>rc_current_delay := x\<rparr>))"
    if "wc_state s = connected" for s :: "'a rc_client" and x
    using that by (simp add: agree_def set_reconnect_state_def)
  ultimately have "agree (handle_connect_result u g ec s)" if "agree s" "ec = None \<longrightarrow> wc_state s = connected" for g s
    using that by (auto simp: handle_connect_result_def Let_def)
  moreover have "wc_state (emit ev s) = wc_state s" for ev by (simp add: emit_def)
  ultimately show ?thesis
    using assms by (simp add: call_connect_def rc_env_def split: option.split connect_cb.split)
qed

lemma do_close_rc_state: "rc_state (do_close (rc_env u) h s) = rc_state s"
  using plan.do_close_keeps [of s s u h] by (simp add: same_plan_def)

lemma agree_close:
  assumes "agree s" and "rc_state s \<noteq> Connected"
  shows "agree (do_close (rc_env u) h s)"
proof (cases "live (wc_state s)")
  case True
  from rc_do_close_state [OF this] show ?thesis using assms by (simp add: agree_def do_close_rc_state)
next
  case False
  then have "do_close (rc_env u) h s = call_close (rc_env u) h None s" by (simp add: do_close_def live_def)
  then show ?thesis using assms(1) by simp
qed

lemma agree_fail:
  assumes "agree s" and "wc_state s = connecting" and "ec \<noteq> None"
  shows "agree (fail_connection (rc_env u) ec cb s)"
  using assms agree_close [of s u None] by (auto simp: fail_connection_def agree_def [of s] intro: agree_connect)

text \<open>A lost connection: the derived class leaves the state connected at once.\<close>

lemma agree_unexpected:
  assumes "agree s"
  shows "agree (handle_unexpected_disconnect (rc_env u) ec s)"
proof (cases "wc_state s = connected")
  case True
  define v where "v = do_close (rc_env u) None s"
  have v: "wc_state v = disconnected" using True by (simp add: v_def rc_do_close_state live_def)
  define w where "w = base_on_unexpected_disconnect (run_rc_user u) ec v"
  have w: "wc_state w = disconnected" "rc_state w = rc_state v"
    using v plan_of_sel [OF plan_of_more [of "emit _ v" v]]
    by (auto simp: w_def base_on_unexpected_disconnect_def emit_def split: option.split)
  have "agree (rc_on_unexpected_disconnect u ec v)"
    unfolding rc_on_unexpected_disconnect_def w_def [symmetric] using w
    by (auto simp: Let_def agree_def schedule_reconnect_def is_reconnect_active_def set_reconnect_state_def rc_emit_def)
  then show ?thesis using True by (simp add: handle_unexpected_disconnect_def rc_env_def v_def [symmetric, unfolded rc_env_def])
qed (use assms in \<open>simp add: handle_unexpected_disconnect_def\<close>)

section \<open>Every step keeps the agreement\<close>

lemma agree_handlers:
  assumes "agree s"
  shows "agree (handle_write (rc_env u) g ec s)" "agree (handle_read (rc_env u) now ec s)"
    "agree (handle_ping_timer (rc_env u) ec s)" "agree (handle_read_timeout (rc_env u) now ec s)"
proof -
  have run: "agree (fst (run_handler (rc_env u) h a v)) = agree v" for h a v by (simp add: rc_env_def)
  show "agree (handle_write (rc_env u) g ec s)"
    using assms by (auto simp: handle_write_def Let_def agree_unexpected split: option.split)
  show "agree (handle_read (rc_env u) now ec s)"
    using assms by (auto simp: handle_read_def Let_def agree_unexpected run split: option.split)
  show "agree (handle_ping_timer (rc_env u) ec s)"
    using assms by (auto simp: handle_ping_timer_def do_protocol_ping_def case_prod_beta Let_def run split: option.split)
  show "agree (handle_read_timeout (rc_env u) now ec s)"
    using assms by (simp add: handle_read_timeout_def agree_unexpected)
qed

text \<open>
  OpenSSL documents that a call that fails leaves an error in its queue, so that \<^verbatim>\<open>ERR_get_error\<close> does not
  return 0, which would be taken for success. The lemma \<open>silent_tls_failure\<close> below shows what happens otherwise.
\<close>

fun openssl_reports :: "('h, 'a) ws_client_scheme \<Rightarrow> 'h ws_input \<Rightarrow> bool" where
  "openssl_reports s (In_complete i c) \<longleftrightarrow> comp_tls_host_ok c \<or> comp_ssl_error c \<noteq> 0"
| "openssl_reports s _ \<longleftrightarrow> True"

lemma agree_connecting:
  assumes "agree s" and "comp_tls_host_ok c \<or> comp_ssl_error c \<noteq> 0"
  shows "agree (handle_resolve (rc_env u) cb ec s)" "agree (handle_connect (rc_env u) cb c s)"
    "agree (handle_ssl_handshake (rc_env u) cb ec s)" "agree (handle_websocket_handshake (rc_env u) now cb ec s)"
proof -
  have st: "wc_state (emit ev v) = wc_state v" for ev and v :: "'a rc_client" by (simp add: emit_def)
  show "agree (handle_resolve (rc_env u) cb ec s)" "agree (handle_connect (rc_env u) cb c s)"
    "agree (handle_ssl_handshake (rc_env u) cb ec s)"
    using assms by (auto simp: handle_resolve_def handle_connect_def handle_ssl_handshake_def is_connecting_def
        Let_def agree_fail st make_code_def split: option.split)
  have "agree (set_state connected s)" if "wc_state s = connecting"
    using assms that by (auto simp: agree_def set_state_def)
  moreover have "wc_state (set_state connected s) = connected" by (simp add: set_state_def)
  ultimately show "agree (handle_websocket_handshake (rc_env u) now cb ec s)"
    using assms by (auto simp: handle_websocket_handshake_def is_connecting_def Let_def agree_fail
        intro!: agree_connect split: option.split)
qed

lemma agree_base_task:
  assumes "agree s" and "inherited tk"
  shows "agree (run_task (rc_env u) now tk s)"
  using assms by (cases tk) (simp_all add: Let_def)

lemma agree_base_step:
  assumes "agree s" and "posts_inherited s" and "base_input i" and "openssl_reports s i"
  shows "agree (ws_step (rc_env u) s i)"
proof (cases i)
  case (In_task j now)
  have "inherited (wc_posted s ! j)" if "j < length (wc_posted s)"
    using assms(2) that by (simp add: posts_inherited_def)
  then show ?thesis using assms(1) In_task by (simp add: agree_base_task)
next
  case (In_complete j c)
  have "agree (complete_op (rc_env u) p c v)" if "agree v" for p v
    using that assms(4) In_complete by (cases p) (simp_all add: agree_handlers agree_connecting)
  then show ?thesis using assms(1) In_complete by simp
qed (use assms in \<open>simp_all add: write_now_def\<close>)

lemma agree_attempt: "wc_state s \<noteq> closing \<Longrightarrow> agree (start_connect_attempt u s)"
proof -
  assume s: "wc_state s \<noteq> closing"
  have "wc_state (start_connect_attempt u s) = wc_state s"
    by (simp add: start_connect_attempt_def Let_def set_reconnect_state_def rc_emit_def split: option.split)
  moreover have "rc_state (start_connect_attempt u s) = Connecting"
    using attempt_plan [of u s] by (simp add: plan_of_def)
  ultimately show ?thesis using s by (simp add: agree_def)
qed

lemma agree_task:
  assumes "agree s"
  shows "agree (run_rc_task u tk s)"
proof (cases tk)
  case (Start_connect p h)
  then show ?thesis using assms by (simp add: agree_attempt agree_def [of s])
next
  case (Stop_and_close h)
  define v where "v = stop_reconnecting s"
  have v: "wc_state v = wc_state s" "rc_state v = Idle"
    by (simp_all add: v_def stop_reconnecting_def set_reconnect_state_def rc_emit_def Let_def)
  have "wc_state (do_close (rc_env u) h v) = disconnected"
  proof (cases "live (wc_state v)")
    case True
    then show ?thesis by (rule rc_do_close_state)
  next
    case False
    then have "wc_state v = disconnected"
      using assms v(1) by (cases "wc_state s") (simp_all add: live_def agree_def)
    then show ?thesis by (simp add: do_close_def call_close_def rc_env_def emit_def split: option.split)
  qed
  then show ?thesis using v by (simp add: Stop_and_close agree_def do_close_rc_state v_def [symmetric])
next
  case (Connection_ready g host port resource)
  let ?s = "s\<lparr>wc_host := host, wc_port := port, wc_resource := resource\<rparr>"
  have "agree (do_connect (rc_env u) cb ?s)" if "rc_state s = Connecting" for cb
  proof (cases "wc_state s = disconnected")
    case True
    then have "do_connect (rc_env u) cb ?s = start_op (Resolve_op cb) (emit (Async_resolve host port)
        (create_stream (set_state connecting ?s)))"
      by (simp add: do_connect_def Let_def create_stream_def set_state_def emit_def)
    then show ?thesis using that
      by (simp add: create_stream_def Let_def) (simp add: agree_def set_state_def)
  next
    case False
    then show ?thesis using assms by (simp add: do_connect_def agree_connect)
  qed
  then show ?thesis using assms by (simp add: Connection_ready handle_connection_ready_def)
qed (use assms in \<open>simp_all add: agree_def Let_def\<close>)

lemma agree_step:
  assumes "agree s \<and> posts_inherited s" and "base_contract openssl_reports s i"
  shows "agree (rc_step u s i) \<and> posts_inherited (rc_step u s i)"
proof
  show "posts_inherited (rc_step u s i)" using assms by (simp add: posts_inherited_step)
  have f: "agree (s\<lparr>rc_posted := x\<rparr>)" "agree (s\<lparr>rc_waits := y\<rparr>)" for x y
    using assms by (simp_all add: agree_def)
  have a: "agree (rc_api c s)" for c
    using assms rc_api_closed [where P = "\<lambda>t. pview t = pview s", OF pview_closed refl, of c]
      plan_of_sel [OF plan_of_user(3) [of c s]] by (metis agree_cong pview_sel(1))
  show "agree (rc_step u s i)"
    using assms f by (cases i) (simp_all add: a agree_base_step agree_task handle_reconnect_timer_def
        agree_attempt agree_def [of s] del: ws_step.simps)
qed

interpretation ag: contracted_run "rc_step u" "base_contract openssl_reports" "\<lambda>s. agree s \<and> posts_inherited s" for u
  by unfold_locales (rule agree_step)

section \<open>Properties\<close>

text \<open>
  C18: the state of the reconnecting client is true of its connection. After any run in which OpenSSL reports its
  errors, whatever the handlers of the user do, a client in the state connected has a base class that is connected, and a client
  that is idle has one that is disconnected; so the loss of a connection never goes unnoticed by the
  reconnect logic, and nothing is connected behind the back of an idle client.
\<close>

theorem rc_states_agree:
  assumes "keeps_contract (rc_step u) (base_contract openssl_reports) (new_rc_client bytes) is"
    and "s = rc_client_run u bytes is"
  shows "(rc_state s = Connected \<longrightarrow> wc_state s = connected) \<and> (rc_state s = Idle \<longrightarrow> wc_state s = disconnected)"
proof -
  let ?s = "new_rc_client bytes :: 'a rc_client"
  have n: "agree ?s \<and> posts_inherited ?s"
    by (simp add: agree_def posts_inherited_def new_rc_client_def ws_client.defs rc_client.defs new_ws_client_def)
  from ag.run_inv [OF n assms(1)] show ?thesis by (simp add: assms(2) rc_client_run_def rc_run_foldl agree_def)
qed

theorem rc_states_agree_witness:
  "rc_state (rc_client_run quiet_rc_user zero_bytes connected_inputs) = Connected \<and>
   wc_state (rc_client_run quiet_rc_user zero_bytes connected_inputs) = connected"
proof -
  have "keeps_contract (rc_step quiet_rc_user) (base_contract openssl_reports) (new_rc_client zero_bytes) connected_inputs"
    by (simp add: connected_inputs_def attempt_inputs_def ok_completion_def del: rc_step.simps)
  from rc_states_agree [OF this refl] rc_connected(1) show ?thesis by simp
qed

text \<open>
  If \<^verbatim>\<open>SSL_set_tlsext_host_name\<close> failed with an empty error queue, the client would report a successful
  connection to its handler while it is disconnected.
\<close>

lemma silent_tls_failure:
  "let s = rc_client_run quiet_rc_user zero_bytes (attempt_inputs @ [Rc_in_base (In_complete 0 ok_completion),
       Rc_in_base (In_complete 0 (ok_completion\<lparr>comp_tls_host_ok := False\<rparr>))])
   in rc_state s = Connected \<and> wc_state s = disconnected \<and> Rc_called_connect 4 None \<in> set (rc_trace s)"
  by (simp add: attempt_inputs_def rc_eval rc_connect_eval rc_close_eval make_code_def)

text \<open>
  C16: a client that is connected listens and is watched. If Asio and Beast keep their contracts, then in
  every state that can be reached in which the base class of the reconnecting client is connected, exactly one
  read is outstanding on its stream; a wait of the read timer is outstanding if a read timeout is set, for a time
  no later than the timeout after the last message, and a wait of the ping timer if a ping interval is set. So
  every loss of the connection is found, by a failed read or by a silent one, over any number of reconnections.
\<close>

theorem rc_connected_is_watched:
  assumes "keeps_contract (rc_step u) (base_contract beast_read) (new_rc_client bytes) is"
    and "keeps_contract (rc_step u) (base_contract timers_contract) (new_rc_client bytes) is"
    and "s = rc_client_run u bytes is" and "wc_state s = connected"
  shows "(\<exists>sid. wc_ws s = Some sid \<and> reads_outstanding sid s = 1) \<and>
    (0 < wc_read_timeout s \<longrightarrow> Read_wait \<in> set (wc_pending s) \<and>
      (\<exists>x \<le> wc_last_read_time s + wc_read_timeout s. read_deadline s = Some x)) \<and>
    (0 < wc_ping_interval s \<longrightarrow> Ping_wait \<in> set (wc_pending s) \<and>
      (ping_delay s = Some (wc_ping_interval s) \<or> ping_delay s = Some ping_retry_delay))"
proof -
  have n: "read_inv (rview (new_rc_client bytes))" "progress_inv True (pview (new_rc_client bytes))"
    by (simp add: read_inv_def rview_def new_rc_client_def ws_client.defs rc_client.defs new_ws_client_def,
        intro progress_inv_dead, simp add: pview_sel live_def)
  have r: "read_inv (rview s)" and p: "progress_inv True (pview s)"
    using ir.run_inv [OF n(1) assms(1)] ip.run_inv [OF n(2) assms(2)]
    by (simp_all add: assms(3) rc_client_run_def rc_run_foldl)
  from r have d: "distinct (concat (map read_op (wc_pending s)))" by (simp add: read_inv_def)
  show ?thesis
    using r p assms(4) unfolding reads_outstanding_def count_list_distinct [OF d]
    by (auto simp: read_inv_def progress_inv_def pview_sel)
qed

theorem rc_connected_is_watched_witness:
  "\<exists>sid. wc_ws (rc_client_run quiet_rc_user zero_bytes connected_inputs) = Some sid \<and>
     reads_outstanding sid (rc_client_run quiet_rc_user zero_bytes connected_inputs) = 1"
proof -
  have c: "keeps_contract (rc_step quiet_rc_user) (base_contract beast_read) (new_rc_client zero_bytes) connected_inputs"
    "keeps_contract (rc_step quiet_rc_user) (base_contract timers_contract) (new_rc_client zero_bytes) connected_inputs"
    by (simp_all add: connected_inputs_def attempt_inputs_def rc_eval rc_connect_eval new_rc_client_def
        ws_client.defs rc_client.defs new_ws_client_def)
  from rc_connected_is_watched [OF c refl rc_connected(2)] show ?thesis by blast
qed

section \<open>Well-formed objects\<close>

text \<open>
  The types of the source say less than the code relies on. The queue has its fixed number of slots and
  no more are in use, every slot keeps its whole array and says of itself that it holds no more than fits; there is a
  stream while there is a connection; the streams that the object and its outstanding operations
  refer to exist; and the passing state \<open>closing\<close> is never seen between two handlers.
\<close>

definition well_formed :: "('h, 'a) ws_client_scheme \<Rightarrow> bool" where
  "well_formed s \<longleftrightarrow>
     get_capacity (wc_write_slots s) = write_slot_count \<and> get_size (wc_write_slots s) \<le> write_slot_count \<and>
     (\<forall>x \<in> set (buffer (wc_write_slots s)). length (slot_data x) = write_slot_size \<and> slot_size x \<le> write_slot_size) \<and>
     wc_state s \<noteq> closing \<and> (live (wc_state s) \<longrightarrow> wc_ws s \<noteq> None) \<and>
     (\<forall>sid. wc_ws s = Some sid \<longrightarrow> sid < wc_streams_made s) \<and>
     (\<forall>sid g. Write_op sid g \<in> set (wc_pending s) \<longrightarrow> sid < wc_streams_made s \<and> g \<le> wc_write_generation s)"

lemma core_well_formed:
  assumes "core_inv n (core s)" and "quiet (core s)"
  shows "well_formed s"
proof -
  have "(sid, g) \<in> set (concat (map write_op (wc_pending s)))" if "Write_op sid g \<in> set (wc_pending s)" for sid g
    using that by force
  then show ?thesis
    using assms by (fastforce simp: well_formed_def core_inv_def slots_ok_def ring_inv_def quiet_def core_def)
qed

text \<open>
  C9: the objects of both WebSocket classes stay well-formed. After any run, with any
  handlers, the object is \<open>well_formed\<close>; in particular the bytes that a queued write hands to Beast lie within
  the array of its slot, and a client that is connecting or connected has a stream.
\<close>

theorem ws_objects_well_formed:
  assumes "length bytes = write_slot_size" and "length is < 2 ^ 64" and "length js < 2 ^ 64"
  shows "well_formed (client_run u bytes is) \<and> well_formed (rc_client_run v bytes js)"
proof
  show "well_formed (client_run u bytes is)" using client_run_inv [OF assms(1,2)] by (rule core_well_formed)
  have "queue_ok (length js) (rc_client_run v bytes js)" using rc_client_run_ok [OF assms(1,3)] .
  then show "well_formed (rc_client_run v bytes js)" by (auto simp: queue_ok_def intro: core_well_formed)
qed

theorem ws_objects_well_formed_witness:
  "well_formed (client_run chatty_user zero_bytes connect_inputs) \<and>
   well_formed (rc_client_run quiet_rc_user zero_bytes connected_inputs)"
  by (rule ws_objects_well_formed) (simp_all add: connect_inputs_def connected_inputs_def attempt_inputs_def)

end
