(* ===== verification/WebSocket_Security.thy ===== *)
theory WebSocket_Security
  imports Reconnecting_Progress
begin

text \<open>
  Whom the WebSocket client talks to. Data goes over a stream only after its TLS handshake has succeeded, with
  the host named by the user as the server name and as the name to verify the peer's certificate against. This
  rests on the order of the four stages of an attempt; since the connection handlers do not check to which
  attempt a completion belongs, it also needs that no handshake of an abandoned attempt is outstanding when the
  next one begins, and the last section shows why.
\<close>

section \<open>Secured streams\<close>

text \<open>The host that the last call of \<^verbatim>\<open>connect\<close> in a trace named, or \<open>h\<close> if there is none.\<close>

fun latest_host :: "string \<Rightarrow> 'h ws_event list \<Rightarrow> string" where
  "latest_host h [] = h"
| "latest_host h (Connect_requested host port resource # tr) = latest_host host tr"
| "latest_host h (_ # tr) = latest_host h tr"

text \<open>
  The TLS handshake of a stream was prepared for the host named by the user: the server name and the name to verify
  were set to it, both without an error, and the handshake was started right after that.
\<close>

definition stream_secured :: "'h ws_event list \<Rightarrow> nat \<Rightarrow> bool" where
  "stream_secured tr sid \<longleftrightarrow>
     (\<exists>a b. tr = a @ [Tls_host sid (latest_host [] a) True, Verify_host sid (latest_host [] a) None,
        Async_tls_handshake sid] @ b)"

text \<open>The WebSocket handshake was started on a secured stream.\<close>

definition stream_upgraded :: "'h ws_event list \<Rightarrow> nat \<Rightarrow> bool" where
  "stream_upgraded tr sid \<longleftrightarrow>
     (\<exists>a b host resource. tr = a @ Async_websocket_handshake sid host resource # b \<and> stream_secured a sid)"

fun permitted :: "'h ws_event list \<Rightarrow> 'h ws_event \<Rightarrow> bool" where
  "permitted seen (Async_websocket_handshake sid host resource) = stream_secured seen sid"
| "permitted seen (Async_read sid) = stream_upgraded seen sid"
| "permitted seen (Async_write sid bytes) = stream_upgraded seen sid"
| "permitted seen (Async_ping sid) = stream_upgraded seen sid"
| "permitted seen _ = True"

fun uses_secured :: "'h ws_event list \<Rightarrow> 'h ws_event list \<Rightarrow> bool" where
  "uses_secured seen [] = True"
| "uses_secured seen (ev # tr) \<longleftrightarrow> permitted seen ev \<and> uses_secured (seen @ [ev]) tr"

lemma uses_secured_snoc: "uses_secured seen (tr @ [ev]) \<longleftrightarrow> uses_secured seen tr \<and> permitted (seen @ tr) ev"
  by (induction tr arbitrary: seen) auto

lemma stream_secured_append: "stream_secured tr sid \<Longrightarrow> stream_secured (tr @ es) sid"
  unfolding stream_secured_def by force

lemma not_secured: "Async_tls_handshake sid \<notin> set tr \<Longrightarrow> \<not> stream_secured tr sid"
  by (auto simp: stream_secured_def)

lemma stream_upgraded_append: "stream_upgraded tr sid \<Longrightarrow> stream_upgraded (tr @ es) sid"
  unfolding stream_upgraded_def by force

lemma stream_upgraded_start: "stream_secured tr sid \<Longrightarrow> stream_upgraded (tr @ [Async_websocket_handshake sid host resource]) sid"
  unfolding stream_upgraded_def by blast

text \<open>The WebSocket handshakes that were started, by stream.\<close>

fun upgrade_of :: "'h ws_event \<Rightarrow> nat list" where
  "upgrade_of (Async_websocket_handshake sid host resource) = [sid]"
| "upgrade_of _ = []"

definition upgrades :: "('h, 'a) ws_client_scheme \<Rightarrow> nat list" where
  "upgrades s = concat (map upgrade_of (wc_trace s))"

section \<open>The invariant\<close>

fun handshake_op :: "'h async_op \<Rightarrow> bool" where
  "handshake_op (Ssl_handshake_op cb) = True"
| "handshake_op (Websocket_handshake_op cb) = True"
| "handshake_op _ = False"

text \<open>What an outstanding handshake of the current attempt has behind it.\<close>

fun prepared :: "'h ws_event list \<Rightarrow> nat \<Rightarrow> 'h async_op \<Rightarrow> bool" where
  "prepared tr sid (Ssl_handshake_op cb) = stream_secured tr sid"
| "prepared tr sid (Websocket_handshake_op cb) = stream_upgraded tr sid"
| "prepared tr sid _ = True"

text \<open>\<open>x\<close> are the WebSocket handshakes so far.\<close>

definition stream_inv :: "nat list \<Rightarrow> ('h, 'a) ws_client_scheme \<Rightarrow> bool" where
  "stream_inv x s \<longleftrightarrow> upgrades s = x \<and> uses_secured [] (wc_trace s) \<and> wc_host s = latest_host [] (wc_trace s) \<and>
     (\<forall>sid. wc_ws s = Some sid \<longrightarrow>
        (wc_state s = connected \<longrightarrow> stream_upgraded (wc_trace s) sid) \<and>
        (wc_state s = connecting \<longrightarrow> (\<forall>p \<in> set (wc_pending s). prepared (wc_trace s) sid p)))"

fun neutral :: "'h ws_event \<Rightarrow> bool" where
  "neutral (Async_websocket_handshake sid host resource) = False"
| "neutral (Async_read sid) = False"
| "neutral (Async_write sid bytes) = False"
| "neutral (Async_ping sid) = False"
| "neutral (Connect_requested host port resource) = False"
| "neutral _ = True"

lemma latest_host_append: "latest_host h (xs @ ys) = latest_host (latest_host h xs) ys"
  by (induction h xs rule: latest_host.induct) simp_all

lemma neutral_frame:
  assumes "neutral ev"
  shows "permitted seen ev" "upgrade_of ev = []" "latest_host h [ev] = h"
  using assms by (cases ev; simp)+

lemma prepared_append: "prepared tr sid p \<Longrightarrow> prepared (tr @ es) sid p"
  by (cases p) (simp_all add: stream_secured_append stream_upgraded_append)

lemma prepared_other: "\<not> handshake_op p \<Longrightarrow> prepared tr sid p"
  by (cases p) simp_all

lemma sec_emit: "neutral ev \<Longrightarrow> stream_inv x s \<Longrightarrow> stream_inv x (emit ev s)"
  by (auto simp: stream_inv_def upgrades_def emit_def uses_secured_snoc neutral_frame latest_host_append
      stream_upgraded_append prepared_append)

text \<open>Reads, writes and pings.\<close>

lemma sec_use:
  assumes "stream_inv x s" and "wc_state s = connected" and "wc_ws s = Some sid"
  shows "stream_inv x (emit (Async_read sid) s)" "stream_inv x (emit (Async_write sid bytes) s)"
    "stream_inv x (emit (Async_ping sid) s)"
  using assms by (auto simp: stream_inv_def upgrades_def emit_def uses_secured_snoc latest_host_append
      stream_upgraded_append)

lemma sec_op: "\<not> handshake_op p \<Longrightarrow> stream_inv x (start_op p s) = stream_inv x s"
  by (auto simp: stream_inv_def start_op_def upgrades_def prepared_other)

lemma sec_start_op:
  "stream_inv x s \<Longrightarrow> (\<And>sid. wc_ws s = Some sid \<Longrightarrow> prepared (wc_trace s) sid p) \<Longrightarrow> stream_inv x (start_op p s)"
  by (auto simp: stream_inv_def start_op_def upgrades_def)

lemma sec_new_stream:
  "stream_inv x s \<Longrightarrow> \<forall>p \<in> set (wc_pending s). \<not> handshake_op p \<Longrightarrow>
   stream_inv x (s\<lparr>wc_state := connecting, wc_read_buffer := b, wc_ws := w, wc_streams_made := n\<rparr>)"
  by (simp add: stream_inv_def upgrades_def prepared_other)

lemma sec_fields [simp]:
  "stream_inv x (s\<lparr>wc_write_slots := x1\<rparr>) = stream_inv x s" "stream_inv x (s\<lparr>wc_write_in_progress := x2\<rparr>) = stream_inv x s"
  "stream_inv x (s\<lparr>wc_write_generation := x3\<rparr>) = stream_inv x s" "stream_inv x (s\<lparr>wc_last_read_time := x4\<rparr>) = stream_inv x s"
  "stream_inv x (s\<lparr>wc_read_buffer := x5\<rparr>) = stream_inv x s" "stream_inv x (s\<lparr>wc_message_handler := x6\<rparr>) = stream_inv x s"
  "stream_inv x (s\<lparr>wc_disconnect_handler := x6\<rparr>) = stream_inv x s" "stream_inv x (s\<lparr>wc_ping_message_generator := x6\<rparr>) = stream_inv x s"
  "stream_inv x (s\<lparr>wc_ping_interval := x4\<rparr>) = stream_inv x s" "stream_inv x (s\<lparr>wc_read_timeout := x4\<rparr>) = stream_inv x s"
  "stream_inv x (s\<lparr>wc_posted := x8\<rparr>) = stream_inv x s" "stream_inv x (ws_client.more_update f s) = stream_inv x s"
  by (simp_all add: stream_inv_def upgrades_def)

lemma sec_down: "stream_inv x s \<Longrightarrow> \<not> live st \<Longrightarrow> stream_inv x (set_state st s)"
  by (auto simp: stream_inv_def upgrades_def set_state_def live_def)

lemma sec_timers:
  assumes "stream_inv x s"
  shows "stream_inv x (start_ping_timer_after d s)" "stream_inv x (start_ping_timer s)" "stream_inv x (stop_ping_timer s)"
    "stream_inv x (start_read_timer s)" "stream_inv x (stop_read_timer s)"
  using assms by (simp_all add: start_ping_timer_def start_ping_timer_after_def stop_ping_timer_def
      start_read_timer_def stop_read_timer_def sec_op sec_emit)

lemma sec_start_read: "stream_inv x s \<Longrightarrow> stream_inv x (start_read s)"
  by (auto simp: start_read_def is_connected_def sec_op intro!: sec_use split: option.split)

lemma sec_start_write:
  assumes "stream_inv x s" and "wc_state s = connected"
  shows "stream_inv x (start_write s)"
proof -
  have "stream_inv x (s\<lparr>wc_write_in_progress := True\<rparr>)" "wc_state (s\<lparr>wc_write_in_progress := True\<rparr>) = connected"
    using assms by simp_all
  from sec_use [OF this] show ?thesis
    using assms(1) by (auto simp: start_write_def Let_def sec_op sec_emit split: option.split)
qed

lemma sec_queue_write:
  assumes "stream_inv x s"
  shows "stream_inv x (fst (queue_write ty msg h s))"
proof -
  have "stream_inv x (start_write (emit (Push_slot p) (s\<lparr>wc_write_slots := r\<rparr>)))" if "wc_state s = connected" for p r
  proof (rule sec_start_write)
    show "stream_inv x (emit (Push_slot p) (s\<lparr>wc_write_slots := r\<rparr>))" using assms by (simp add: sec_emit)
    show "wc_state (emit (Push_slot p) (s\<lparr>wc_write_slots := r\<rparr>)) = connected" using that by (simp add: emit_def)
  qed
  then show ?thesis using assms by (auto simp: queue_write_def Let_def sec_emit split: option.split)
qed

lemma sec_api: "stream_inv x s \<Longrightarrow> stream_inv x (api c s)"
proof (cases c)
  case (Api_connect host port resource handler)
  have "stream_inv x (emit (Connect_requested host port resource) (s\<lparr>wc_host := host, wc_port := port, wc_resource := resource\<rparr>))"
    if "stream_inv x s"
    using that by (auto simp: stream_inv_def upgrades_def emit_def uses_secured_snoc latest_host_append
        stream_upgraded_append prepared_append)
  then show "stream_inv x s \<Longrightarrow> ?thesis" by (simp add: Api_connect post_def sec_emit)
qed (simp add: post_def sec_emit)

lemma sec_closed: "api_closed (stream_inv x)"
  by (simp add: api_closed_def sec_api sec_queue_write write_now_def)

context ws_handlers
begin

lemma calls_sec:
  assumes "stream_inv x s"
  shows "stream_inv x (fst (run_handler E h arg s))" "stream_inv x (call_write E k ec s)" "stream_inv x (call_close E k ec s)"
    "stream_inv x (call_connect E cb ec s)"
  using assms handler_closed [OF sec_closed] connect_cb_closed [OF sec_closed]
  by (simp_all add: call_write_def call_close_def call_connect_def sec_emit split: option.split)

lemma calls_state:
  "wc_state (call_write E k ec s) = wc_state s" "wc_state (call_connect E cb ec s) = wc_state s"
  "wc_state (fst (run_handler E h arg s)) = wc_state s"
proof -
  have "p_state (pview (call_write E k ec s)) = p_state (pview s)" "p_state (pview (call_connect E cb ec s)) = p_state (pview s)"
      "p_state (pview (fst (run_handler E h arg s))) = p_state (pview s)" by simp_all
  then show "wc_state (call_write E k ec s) = wc_state s" "wc_state (call_connect E cb ec s) = wc_state s"
      "wc_state (fst (run_handler E h arg s)) = wc_state s" by (simp_all only: pview_sel)
qed

lemma do_write_sec: "stream_inv x s \<Longrightarrow> stream_inv x (fst (do_write E msg h s))"
  using sec_queue_write [of x s Message msg h] by (auto simp: do_write_def calls_sec split: prod.split option.split)

lemma fail_loop_sec: "stream_inv x s \<Longrightarrow> stream_inv x (fail_loop E n s)"
proof (induction n arbitrary: s)
  case (Suc n)
  have "stream_inv x (fail_one E s)"
    using Suc.prems by (auto simp: fail_one_def calls_sec sec_emit split: option.split)
  then show ?case using Suc by simp
qed simp

lemma do_close_sec: "stream_inv x s \<Longrightarrow> stream_inv x (do_close E h s)"
  by (auto simp: do_close_def Let_def fail_pending_writes_def cancel_pending_operations_def close_socket_def live_def
      intro!: calls_sec sec_down fail_loop_sec sec_emit sec_timers split: option.split)

lemma fail_connection_sec: "stream_inv x s \<Longrightarrow> stream_inv x (fail_connection E ec cb s)"
  by (simp add: fail_connection_def calls_sec do_close_sec)

lemma unexpected_sec: "stream_inv x s \<Longrightarrow> stream_inv x (handle_unexpected_disconnect E ec s)"
  using disconnect_closed [OF sec_closed] by (simp add: handle_unexpected_disconnect_def do_close_sec sec_emit)

lemma handlers_sec:
  assumes "stream_inv x s"
  shows "stream_inv x (handle_write E g ec s)" "stream_inv x (handle_read E now ec s)"
    "stream_inv x (handle_ping_timer E ec s)" "stream_inv x (handle_read_timeout E now ec s)"
proof -
  have st: "wc_state (emit ev v) = wc_state v" for ev and v :: "('h, 'a) ws_client_scheme" by (simp add: emit_def)
  show "stream_inv x (handle_write E g ec s)"
    using assms by (auto simp: handle_write_def Let_def is_connected_def calls_state st
        intro!: unexpected_sec sec_start_write calls_sec sec_emit split: option.split)
  show "stream_inv x (handle_read E now ec s)"
    using assms by (auto simp: handle_read_def Let_def unexpected_sec intro!: sec_start_read calls_sec sec_emit
        split: option.split)
  show "stream_inv x (handle_ping_timer E ec s)"
    using assms by (auto simp: handle_ping_timer_def do_protocol_ping_def case_prod_beta Let_def
        intro!: sec_timers sec_queue_write do_write_sec calls_sec sec_emit split: option.split)
  show "stream_inv x (handle_read_timeout E now ec s)"
    using assms by (simp add: handle_read_timeout_def unexpected_sec sec_timers)
qed

lemma handle_resolve_sec: "stream_inv x s \<Longrightarrow> stream_inv x (handle_resolve E cb ec s)"
  by (auto simp: handle_resolve_def fail_connection_sec sec_op sec_emit split: option.split)

lemma handle_connect_sec:
  assumes "stream_inv x s"
  shows "stream_inv x (handle_connect E cb c s)"
proof -
  have stages: "stream_inv x (start_op (Ssl_handshake_op cb) (emit (Async_tls_handshake sid)
      (emit (Verify_host sid (wc_host v) None) (emit (Tls_host sid (wc_host v) True) v))))"
    if "stream_inv x v" "wc_ws v = Some sid" for sid and v :: "('h, 'a) ws_client_scheme"
  proof (rule sec_start_op)
    let ?v = "emit (Async_tls_handshake sid) (emit (Verify_host sid (wc_host v) None) (emit (Tls_host sid (wc_host v) True) v))"
    have "wc_host v = latest_host [] (wc_trace v)" using that(1) by (simp add: stream_inv_def)
    then have "stream_secured (wc_trace ?v) sid"
      unfolding stream_secured_def by (intro exI [of _ "wc_trace v"] exI [of _ "[]"]) (simp add: emit_def)
    then show "prepared (wc_trace ?v) i (Ssl_handshake_op cb)" if "wc_ws ?v = Some i" for i
      using that \<open>wc_ws v = Some sid\<close> by (simp add: emit_def)
  qed (use that in \<open>simp add: sec_emit\<close>)
  have sel: "wc_ws (emit ev v) = wc_ws v" "wc_host (emit ev v) = wc_host v" for ev and v :: "('h, 'a) ws_client_scheme"
    by (simp_all add: emit_def)
  have "stream_inv x (start_op (Ssl_handshake_op cb) (emit (Async_tls_handshake sid)
      (emit (Verify_host sid (wc_host s) None) (emit (Tls_host sid (wc_host s) True)
        (emit (Expires_after sid connect_timeout) (emit (Set_no_delay sid) s))))))" if "wc_ws s = Some sid" for sid
    using stages [of "emit (Expires_after sid connect_timeout) (emit (Set_no_delay sid) s)" sid] assms that
    by (simp add: sel sec_emit)
  then show ?thesis
    using assms by (auto simp: handle_connect_def Let_def sel intro!: fail_connection_sec sec_emit split: option.split)
qed

lemma ssl_handshake_sec:
  assumes "stream_inv x s" and "\<And>sid. wc_state s = connecting \<Longrightarrow> wc_ws s = Some sid \<Longrightarrow> stream_secured (wc_trace s) sid"
  shows "stream_inv x (handle_ssl_handshake E cb ec s) \<or>
    (\<exists>sid. ec = None \<and> wc_state s = connecting \<and> wc_ws s = Some sid \<and>
       stream_inv (x @ [sid]) (handle_ssl_handshake E cb ec s))"
proof (cases "wc_state s = connecting \<and> ec = None \<and> wc_ws s \<noteq> None")
  case True
  then obtain sid where sid: "wc_ws s = Some sid" by blast
  define v where "v = emit (Suggested_timeout sid) (emit (Expires_never sid) s)"
  have v: "stream_inv x v" "wc_ws v = Some sid" "wc_state v = connecting" "stream_secured (wc_trace v) sid"
    using assms True sid by (simp_all add: v_def sec_emit) (simp_all add: emit_def stream_secured_append)
  let ?u = "emit (Async_websocket_handshake sid (wc_host v) (wc_resource v)) v"
  have "stream_inv (x @ [sid]) ?u"
    using v by (auto simp: stream_inv_def upgrades_def emit_def uses_secured_snoc latest_host_append prepared_append)
  moreover have "stream_upgraded (wc_trace ?u) sid"
    using v(4) by (simp add: emit_def stream_upgraded_start)
  ultimately have "stream_inv (x @ [sid]) (start_op (Websocket_handshake_op cb) ?u)"
    using v(2) by (intro sec_start_op) (simp_all add: emit_def)
  moreover have "handle_ssl_handshake E cb ec s = start_op (Websocket_handshake_op cb) ?u"
    using True sid by (simp add: handle_ssl_handshake_def is_connecting_def Let_def v_def)
  ultimately show ?thesis using True sid by auto
next
  case False
  then show ?thesis using assms(1)
    by (auto simp: handle_ssl_handshake_def is_connecting_def fail_connection_sec split: option.split)
qed

lemma websocket_handshake_sec:
  assumes "stream_inv x s" and "\<And>sid. wc_state s = connecting \<Longrightarrow> wc_ws s = Some sid \<Longrightarrow> stream_upgraded (wc_trace s) sid"
  shows "stream_inv x (handle_websocket_handshake E now cb ec s)"
proof -
  have "stream_inv x (set_state connected s)" if "wc_state s = connecting"
    using assms that by (auto simp: stream_inv_def upgrades_def set_state_def)
  then show ?thesis
    using assms(1) by (auto simp: handle_websocket_handshake_def is_connecting_def Let_def
        intro!: fail_connection_sec sec_timers sec_start_read calls_sec split: option.split)
qed

text \<open>A new attempt, while no handshake of an earlier one is outstanding.\<close>

lemma do_connect_sec:
  assumes "stream_inv x s" and "wc_state s = disconnected \<longrightarrow> (\<forall>p \<in> set (wc_pending s). \<not> handshake_op p)"
  shows "stream_inv x (do_connect E cb s)"
proof (cases "wc_state s = disconnected")
  case True
  then show ?thesis
    using assms by (simp add: do_connect_def create_stream_def Let_def sec_op sec_emit sec_new_stream set_state_def)
qed (use assms(1) in \<open>simp add: do_connect_def calls_sec\<close>)

lemma run_task_sec:
  assumes "stream_inv x s" and "(\<exists>cb. tk = Do_connect cb) \<and> wc_state s = disconnected \<longrightarrow> (\<forall>p \<in> set (wc_pending s). \<not> handshake_op p)"
  shows "stream_inv x (run_task E now tk s)"
  using assms by (cases tk) (auto simp: Let_def intro!: do_connect_sec do_write_sec do_close_sec sec_timers)

lemma complete_op_sec:
  assumes "stream_inv x s" and "i < length (wc_pending s)"
    and "u = s\<lparr>wc_pending := take i (wc_pending s) @ drop (Suc i) (wc_pending s)\<rparr>"
  shows "stream_inv x (complete_op E (wc_pending s ! i) c u) \<or>
    (\<exists>sid cb. wc_pending s ! i = Ssl_handshake_op cb \<and> comp_ec c = None \<and> wc_state s = connecting \<and> wc_ws s = Some sid \<and>
       stream_inv (x @ [sid]) (complete_op E (wc_pending s ! i) c u))"
proof -
  let ?p = "wc_pending s ! i"
  have u: "stream_inv x u"
    using assms(1) by (auto simp: assms(3) stream_inv_def upgrades_def dest: in_set_takeD in_set_dropD)
  have sec: "prepared (wc_trace u) sid ?p" if "wc_state u = connecting" "wc_ws u = Some sid" for sid
    using assms(1) that nth_mem [OF assms(2)] by (auto simp: assms(3) stream_inv_def)
  show ?thesis
  proof (cases ?p)
    case (Ssl_handshake_op cb)
    with ssl_handshake_sec [OF u, of cb "comp_ec c"] sec show ?thesis by (auto simp: assms(3))
  next
    case (Websocket_handshake_op cb)
    with websocket_handshake_sec [OF u] sec show ?thesis by simp
  qed (use u handlers_sec [of x "u\<lparr>wc_read_buffer := _\<rparr>"] in
      \<open>simp_all add: handlers_sec handle_resolve_sec handle_connect_sec\<close>)
qed

end

section \<open>Runs\<close>

text \<open>
  When the closure of a \<^verbatim>\<open>connect\<close> begins an attempt, no TLS or WebSocket handshake of an earlier one is
  outstanding. So a user who waits, between a \<^verbatim>\<open>close\<close> and the next \<^verbatim>\<open>connect\<close>, until the cancelled operations
  are gone keeps the contract.
\<close>

fun attempts_apart :: "('h, 'a) ws_client_scheme \<Rightarrow> 'h ws_input \<Rightarrow> bool" where
  "attempts_apart s (In_task i now) \<longleftrightarrow>
     (i < length (wc_posted s) \<and> (\<exists>cb. wc_posted s ! i = Do_connect cb) \<and> wc_state s = disconnected \<longrightarrow>
        (\<forall>p \<in> set (wc_pending s). \<not> handshake_op p))"
| "attempts_apart s _ \<longleftrightarrow> True"

context ws_handlers
begin

lemma ws_step_sec:
  assumes "stream_inv x s" and "attempts_apart s i"
  shows "stream_inv x (ws_step E s i) \<or>
    (\<exists>j c cb sid. i = In_complete j c \<and> j < length (wc_pending s) \<and> wc_pending s ! j = Ssl_handshake_op cb \<and> comp_ec c = None \<and>
       wc_state s = connecting \<and> wc_ws s = Some sid \<and> stream_inv (x @ [sid]) (ws_step E s i))"
proof (cases i)
  case (In_task j now)
  then show ?thesis using assms by (auto intro!: run_task_sec)
next
  case (In_complete j c)
  show ?thesis
  proof (cases "j < length (wc_pending s)")
    case True
    from complete_op_sec [OF assms(1) this refl, of c] show ?thesis using True unfolding In_complete by auto
  qed (use assms(1) In_complete in simp)
qed (use assms in \<open>simp_all add: sec_api sec_queue_write write_now_def\<close>)

end

interpretation sc: contracted_run "ws_step (base_env u)" attempts_apart "\<lambda>s. stream_inv (upgrades s) s" for u
  by unfold_locales (use base.ws_step_sec in \<open>fastforce simp: stream_inv_def\<close>)

lemma stream_inv_new: "s = new_ws_client bytes \<Longrightarrow> stream_inv (upgrades s) s"
  by (simp add: stream_inv_def new_ws_client_def)

text \<open>The step is the successful completion of the TLS handshake of the attempt in progress.\<close>

definition tls_succeeds :: "('h, 'a) ws_client_scheme \<Rightarrow> 'h ws_input \<Rightarrow> nat \<Rightarrow> bool" where
  "tls_succeeds s i sid \<longleftrightarrow>
     (\<exists>j c cb. i = In_complete j c \<and> j < length (wc_pending s) \<and> wc_pending s ! j = Ssl_handshake_op cb \<and>
        comp_ec c = None \<and> wc_state s = connecting \<and> wc_ws s = Some sid)"

lemma upgrade_step:
  assumes "stream_inv (upgrades s) s" and "attempts_apart s i"
    and "wc_trace (ws_step (base_env u) s i) = wc_trace s @ es" and "Async_websocket_handshake sid host resource \<in> set es"
  shows "tls_succeeds s i sid"
proof -
  let ?t = "ws_step (base_env u) s i"
  have t: "upgrades ?t = upgrades s @ concat (map upgrade_of es)" by (simp add: upgrades_def assms(3))
  have "sid \<in> set (concat (map upgrade_of es))" using assms(4) by force
  then have "\<not> stream_inv (upgrades s) ?t" using t by (auto simp: stream_inv_def)
  with base.ws_step_sec [OF assms(1,2), of u] obtain j c cb d where
    d: "i = In_complete j c" "j < length (wc_pending s)" "wc_pending s ! j = Ssl_handshake_op cb" "comp_ec c = None"
      "wc_state s = connecting" "wc_ws s = Some d" "stream_inv (upgrades s @ [d]) ?t" by blast
  have "upgrades s @ concat (map upgrade_of es) = upgrades s @ [d]" using d(7) t by (simp add: stream_inv_def)
  then have "d = sid" using \<open>sid \<in> set _\<close> by simp
  with d show ?thesis by (auto simp: tls_succeeds_def)
qed

text \<open>
  C26: no data before the peer is verified. A read, a write or a ping is started on a stream only after the WebSocket
  handshake was started on it, and that only after the host that the user had named in the last call of
  \<^verbatim>\<open>connect\<close> was set as the server name and as the name to verify the peer's certificate against, both without
  an error, and the TLS handshake was started. The WebSocket handshake is started in no other step than the successful
  completion of the TLS handshake. This holds whatever the user's handlers do, in every run in which no new attempt begins
  while a handshake of an earlier one is outstanding.
\<close>

theorem ws_peer_is_verified:
  assumes "keeps_contract (ws_step (base_env u)) attempts_apart (new_ws_client bytes) is"
  shows "uses_secured [] (wc_trace (client_run u bytes is)) \<and>
    (\<forall>xs i ys es sid host resource. is = xs @ i # ys \<longrightarrow>
       wc_trace (client_run u bytes (xs @ [i])) = wc_trace (client_run u bytes xs) @ es \<longrightarrow>
       Async_websocket_handshake sid host resource \<in> set es \<longrightarrow> tls_succeeds (client_run u bytes xs) i sid)"
proof -
  note n = stream_inv_new [OF refl, of bytes]
  have "tls_succeeds (client_run u bytes xs) i sid"
    if "is = xs @ i # ys" "wc_trace (client_run u bytes (xs @ [i])) = wc_trace (client_run u bytes xs) @ es"
      "Async_websocket_handshake sid host resource \<in> set es" for xs i ys es sid host resource
  proof (rule upgrade_step)
    have k: "keeps_contract (ws_step (base_env u)) attempts_apart (new_ws_client bytes) (xs @ i # ys)" using assms that(1) by simp
    then show "attempts_apart (client_run u bytes xs) i"
      by (simp add: keeps_contract_append client_run_def ws_run_foldl)
    show "stream_inv (upgrades (client_run u bytes xs)) (client_run u bytes xs)"
      using sc.prefix_inv [OF n k] by (simp add: client_run_def ws_run_foldl)
    show "wc_trace (ws_step (base_env u) (client_run u bytes xs) i) = wc_trace (client_run u bytes xs) @ es"
      using that(2) by (simp add: client_run_def ws_run_foldl)
  qed (rule that(3))
  moreover have "uses_secured [] (wc_trace (client_run u bytes is))"
    using sc.run_inv [OF n assms] by (simp add: stream_inv_def client_run_def ws_run_foldl)
  ultimately show ?thesis by blast
qed

text \<open>On a connected client the theorem speaks of a handshake and a read.\<close>

lemma connect_apart:
  "keeps_contract (ws_step (base_env idle_user)) attempts_apart (new_ws_client zero_bytes) connect_inputs"
  by (simp add: connect_inputs_def new_ws_client_def post_def emit_def do_connect_def create_stream_def set_state_def
      start_op_def)

theorem ws_peer_is_verified_witness:
  "let s = client_run idle_user zero_bytes (take 4 connect_inputs); t = client_run idle_user zero_bytes connect_inputs in
     tls_succeeds s (connect_inputs ! 4) 0 \<and> uses_secured [] (wc_trace t) \<and> Async_read 0 \<in> set (wc_trace t)"
proof -
  note e = client_run_def connect_inputs_def new_ws_client_def post_def emit_def do_connect_def create_stream_def
    set_state_def start_op_def handle_resolve_def handle_connect_def handle_ssl_handshake_def
    handle_websocket_handshake_def is_connecting_def is_connected_def call_connect_def ok_completion_def
    start_read_def start_ping_timer_def start_ping_timer_after_def start_read_timer_def
    base_env_def run_user_def idle_user_def Let_def
  let ?run = "client_run idle_user zero_bytes" and ?is = "connect_inputs"
  have split: "?is = take 4 ?is @ ?is ! 4 # drop 5 ?is" by (simp add: connect_inputs_def)
  have "wc_trace (?run (take 4 ?is @ [?is ! 4])) = wc_trace (?run (take 4 ?is)) @
      [Expires_never 0, Suggested_timeout 0, Async_websocket_handshake 0 ''host'' ''/'']" by (simp add: e)
  moreover from ws_peer_is_verified [OF connect_apart]
  have u: "uses_secured [] (wc_trace (?run ?is))" and h: "\<And>xs i ys es sid host resource. ?is = xs @ i # ys \<Longrightarrow>
      wc_trace (?run (xs @ [i])) = wc_trace (?run xs) @ es \<Longrightarrow>
      Async_websocket_handshake sid host resource \<in> set es \<Longrightarrow> tls_succeeds (?run xs) i sid" by blast+
  ultimately have "tls_succeeds (?run (take 4 ?is)) (?is ! 4) 0" using h [OF split] by auto
  moreover have "Async_read 0 \<in> set (wc_trace (?run ?is))" by (simp add: e)
  ultimately show ?thesis using u by simp
qed

section \<open>Why attempts must be apart\<close>

definition early_inputs :: "nat ws_input list" where
  "early_inputs = take 4 connect_inputs @
     [In_api (Api_post (Do_close None)), In_task 0 0,
      In_api (Api_connect ''host'' ''443'' ''/'' (Some 4)), In_task 0 0, In_complete 0 ok_completion]"

text \<open>
  A finding. The TLS handshake of a first attempt has succeeded and its completion handler waits in the
  executor's queue when the client is closed and connected again. The handler takes the second attempt
  for its own and starts the WebSocket handshake on a stream that is not connected, was given no host name
  and has made no TLS handshake; the resolution of the second attempt is still outstanding.
\<close>

lemma stale_handshake_skips_stages:
  "let s = client_run idle_user zero_bytes early_inputs in
     last (wc_trace s) = Async_websocket_handshake 1 ''host'' ''/'' \<and>
     Resolve_op (Some (User_cb 4)) \<in> set (wc_pending s) \<and>
     (\<forall>ev \<in> set (wc_trace s). ev \<noteq> Tls_host 1 h b \<and> ev \<noteq> Verify_host 1 h vc \<and> ev \<noteq> Async_tls_handshake 1) \<and>
     \<not> uses_secured [] (wc_trace s)"
  by (simp add: client_run_def early_inputs_def connect_inputs_def new_ws_client_def post_def emit_def do_connect_def
      do_close_eq live_def closing_state_def create_stream_def set_state_def start_op_def get_size_new_ring
      cancel_pending_operations_def stop_ping_timer_def stop_read_timer_def close_socket_def call_close_def
      handle_resolve_def handle_connect_def handle_ssl_handshake_def is_connecting_def fail_connection_def
      call_connect_def ok_completion_def base_env_def run_user_def idle_user_def Let_def not_secured)

end
