(* ===== verification/Https_Multiplex_Client.thy ===== *)
theory Https_Multiplex_Client
  imports Prelude "HOL-Library.Multiset"
begin

text \<open>
  \<^verbatim>\<open>cpp_components/https_multiplex_client/https_multiplex_client.{h,cpp}\<close>: concurrent HTTPS requests over
  libcurl's multi interface. The record \<open>mx_client\<close> has the data members of \<^verbatim>\<open>HttpsMultiplexClient\<close>;
  heap objects (connection contexts, TCP sockets, the \<^verbatim>\<open>int\<close>s assigned to curl's sockets) are numbered,
  and \<open>mx_conns\<close>, \<open>mx_sockets\<close> and \<open>mx_action_values\<close> are the memory they live in. Three fields stand for
  the surroundings: the outstanding waits on sockets and on the timer, and the trace of calls on curl,
  Asio and the response handlers.

  libcurl is not part of the sources. What it does during a call is part of the input: a reply carries
  the returned code, the number of running transfers, the callbacks that curl makes before it returns,
  in order, and the messages it has ready. Nothing is assumed about them. A response handler can act on
  the client only by posting, so whatever it does is a later input.
\<close>

section \<open>Data\<close>

datatype mx_method =
    Mx_get
  | Mx_head
  | Mx_post
  | Mx_put
  | Mx_del
  | Mx_patch
  | Mx_other_method int

record mx_header =
  mx_name :: string
  mx_value :: string

record mx_response =
  mx_status_code :: nat
  mx_body :: string
  mx_headers :: "mx_header list"

definition no_response :: mx_response where
  "no_response = \<lparr>mx_status_code = 0, mx_body = [], mx_headers = []\<rparr>"

record 'h conn_context =
  cn_curl_headers :: "string list option"
  cn_url :: string
  cn_body :: string
  cn_timeout :: int
  cn_response_body :: string
  cn_response_headers :: "mx_header list"
  cn_handler :: "'h option"

datatype curl_code =
    Curle_ok
  | Curle_operation_timedout
  | Curle_couldnt_resolve_host
  | Curle_couldnt_connect
  | Curle_aborted_by_callback
  | Curle_other int

datatype poll_action = Poll_none | Poll_in | Poll_out | Poll_inout

datatype wait_direction = Wait_read | Wait_write

text \<open>\<^verbatim>\<open>curl_easy_setopt\<close>, by option; function and object pointers into the client are left out.\<close>

datatype easy_option =
    Opt_url string
  | Opt_writefunction
  | Opt_writedata nat
  | Opt_headerfunction
  | Opt_headerdata nat
  | Opt_verbose int
  | Opt_errorbuffer nat
  | Opt_private nat
  | Opt_noprogress int
  | Opt_http_version_2_0
  | Opt_tcp_keepalive int
  | Opt_followlocation int
  | Opt_timeout_ms int
  | Opt_connecttimeout_ms int
  | Opt_cainfo string
  | Opt_httpheader "string list"
  | Opt_opensocketfunction
  | Opt_opensocketdata
  | Opt_closesocketfunction
  | Opt_closesocketdata
  | Opt_httpget int
  | Opt_nobody int
  | Opt_post int
  | Opt_customrequest string
  | Opt_postfields string
  | Opt_postfieldsize int

text \<open>\<^verbatim>\<open>curl_multi_setopt\<close>, by option.\<close>

datatype multi_option =
    Opt_socketfunction
  | Opt_socketdata
  | Opt_timerfunction
  | Opt_timerdata
  | Opt_pipelining_multiplex

datatype address_family = Af_inet | Af_inet6 | Af_other

text \<open>
  What the operating system answers when a socket is opened: the error of \<^verbatim>\<open>open\<close>, the error of
  \<^verbatim>\<open>non_blocking\<close>, and the descriptor.
\<close>

record open_result =
  open_ec :: error_code
  non_blocking_ec :: error_code
  opened_fd :: int

text \<open>The callbacks that curl makes, with the arguments that curl chooses, and the answers that the client gets.\<close>

datatype curl_cb =
    Cb_socket int "poll_action option" "nat option" bool
  | Cb_timer int
  | Cb_open bool address_family open_result
  | Cb_close int
  | Cb_write nat string
  | Cb_header nat string

text \<open>
  The calls of the client on curl, Asio and the response handlers. Two further events record what curl
  says to the client: \<open>Curl_called\<close>, a callback, and \<open>Socket_served\<close>, the return from a
  \<^verbatim>\<open>curl_multi_socket_action\<close> for a descriptor, with the success and the number of running transfers.
\<close>

datatype 'h mx_event =
    Easy_setopt nat easy_option
  | Curl_global_init
  | Multi_setopt multi_option
  | Multi_add_handle nat
  | Multi_remove_handle nat
  | Multi_socket_action int poll_action
  | Multi_timeout_action
  | Multi_assign int nat
  | Multi_cleanup
  | Timer_cancel
  | Timer_after int
  | Socket_cancel nat
  | Socket_close nat
  | Socket_wait nat wait_direction
  | Responded 'h error_code mx_response
  | Curl_called curl_cb
  | Socket_served int bool int

record tcp_socket =
  sock_fd :: int
  sock_open :: bool

text \<open>
  Waits that were started and whose handlers have not run: on a socket, and on the timer. Cancelling does
  not take a wait away; its handler still runs, with an error unless the wait had already been satisfied.
\<close>

record socket_wait =
  sw_socket :: nat
  sw_dir :: wait_direction
  sw_cancelled :: bool

record timer_wait =
  tw_timeout :: int
  tw_cancelled :: bool

record 'h mx_client =
  mx_multi :: bool
  mx_still_running :: int
  mx_ca_certificate_file :: string
  mx_pending :: u64
  mx_socket_map :: "(int \<times> nat) list"
  mx_socket_actions :: "int \<rightharpoonup> poll_action"
  mx_connections :: "nat list"
  mx_actions :: "nat set"
  mx_conns :: "nat \<rightharpoonup> 'h conn_context"
  mx_sockets :: "nat \<rightharpoonup> tcp_socket"
  mx_action_values :: "nat \<rightharpoonup> poll_action"
  mx_next :: nat
  mx_waits :: "socket_wait list"
  mx_timer_waits :: "timer_wait list"
  mx_trace :: "'h mx_event list"

text \<open>
  \<^verbatim>\<open>ensure_curl_global_init\<close>: \<open>once\<close> is the process-wide \<^verbatim>\<open>std::once_flag\<close>; the result is the flag
  and the calls on curl.
\<close>

definition ensure_curl_global_init :: "bool \<Rightarrow> bool \<times> 'h mx_event list" where
  "ensure_curl_global_init once = (True, if once then [] else [Curl_global_init])"

definition multi_options :: "multi_option list" where
  "multi_options =
     [Opt_socketfunction, Opt_socketdata, Opt_timerfunction, Opt_timerdata, Opt_pipelining_multiplex]"

text \<open>
  The constructor, for the state \<open>once\<close> of the flag; \<open>multi_ok\<close> is whether \<^verbatim>\<open>curl_multi_init\<close> returned
  a handle.
\<close>

definition new_mx_client :: "bool \<Rightarrow> bool \<Rightarrow> 'h mx_client" where
  "new_mx_client once multi_ok =
     \<lparr>mx_multi = multi_ok, mx_still_running = 0, mx_ca_certificate_file = [], mx_pending = 0,
      mx_socket_map = [], mx_socket_actions = Map.empty, mx_connections = [], mx_actions = {},
      mx_conns = Map.empty, mx_sockets = Map.empty, mx_action_values = Map.empty, mx_next = 0,
      mx_waits = [], mx_timer_waits = [],
      mx_trace = snd (ensure_curl_global_init once) @ (if multi_ok then map Multi_setopt multi_options else [])\<rparr>"

definition mx_emit :: "'h mx_event \<Rightarrow> 'h mx_client \<Rightarrow> 'h mx_client" where
  "mx_emit ev s = s\<lparr>mx_trace := mx_trace s @ [ev]\<rparr>"

definition respond :: "'h option \<Rightarrow> error_code \<Rightarrow> mx_response \<Rightarrow> 'h mx_client \<Rightarrow> 'h mx_client" where
  "respond handler ec response s =
     (case handler of None \<Rightarrow> s | Some h \<Rightarrow> mx_emit (Responded h ec response) s)"

definition pending_count :: "'h mx_client \<Rightarrow> u64" where
  "pending_count s = mx_pending s"

definition mx_is_busy :: "'h mx_client \<Rightarrow> bool" where
  "mx_is_busy s \<longleftrightarrow> pending_count s > 0"

definition do_set_ca_certificate :: "string \<Rightarrow> 'h mx_client \<Rightarrow> 'h mx_client" where
  "do_set_ca_certificate file s = s\<lparr>mx_ca_certificate_file := file\<rparr>"

section \<open>Conversions\<close>

definition is_trailing_space :: "char \<Rightarrow> bool" where
  "is_trailing_space c \<longleftrightarrow> c = CHR 0x0D \<or> c = CHR 0x0A \<or> c = CHR '' '' \<or> c = CHR 0x09"

definition is_leading_space :: "char \<Rightarrow> bool" where
  "is_leading_space c \<longleftrightarrow> c = CHR '' '' \<or> c = CHR 0x09"

text \<open>
  \<^verbatim>\<open>trim_header_token\<close>: the loop that pops characters off the back, and the loop that moves \<^verbatim>\<open>start\<close> past
  the blanks at the front.
\<close>

function trim_back :: "string \<Rightarrow> string" where
  "trim_back value =
     (if value \<noteq> [] \<and> is_trailing_space (last value) then trim_back (butlast value) else value)"
  by pat_completeness auto
termination by (relation "measure length") simp_all

function skip_front :: "string \<Rightarrow> nat \<Rightarrow> nat" where
  "skip_front value start =
     (if start < length value \<and> is_leading_space (value ! start) then skip_front value (Suc start) else start)"
  by pat_completeness auto
termination by (relation "measure (\<lambda>(value, start). length value - start)") auto

declare trim_back.simps [simp del] skip_front.simps [simp del]

definition trim_header_token :: "string \<Rightarrow> string" where
  "trim_header_token value = (let value1 = trim_back value in drop (skip_front value1 0) value1)"

fun from_curl_code :: "curl_code \<Rightarrow> error_code" where
  "from_curl_code Curle_ok = None"
| "from_curl_code Curle_operation_timedout = Some timed_out"
| "from_curl_code Curle_couldnt_resolve_host = Some host_unreachable"
| "from_curl_code Curle_couldnt_connect = Some connection_refused"
| "from_curl_code Curle_aborted_by_callback = Some operation_canceled"
| "from_curl_code (Curle_other n) = Some io_error"

fun to_curl_method :: "mx_method \<Rightarrow> string option" where
  "to_curl_method Mx_get = Some ''GET''"
| "to_curl_method Mx_head = Some ''HEAD''"
| "to_curl_method Mx_post = Some ''POST''"
| "to_curl_method Mx_put = Some ''PUT''"
| "to_curl_method Mx_del = Some ''DELETE''"
| "to_curl_method Mx_patch = Some ''PATCH''"
| "to_curl_method (Mx_other_method n) = None"

section \<open>Data received by curl\<close>

definition write_callback :: "nat \<Rightarrow> string \<Rightarrow> 'h mx_client \<Rightarrow> 'h mx_client \<times> nat" where
  "write_callback c bytes s =
     (s\<lparr>mx_conns := (mx_conns s)(c := map_option
          (\<lambda>conn. conn\<lparr>cn_response_body := cn_response_body conn @ bytes\<rparr>) (mx_conns s c))\<rparr>,
      length bytes)"

text \<open>The name and value of a header line, if it has a colon and a name.\<close>

definition parse_header :: "string \<Rightarrow> mx_header option" where
  "parse_header line =
     (if CHR '':'' \<notin> set line then None
      else
        let name = trim_header_token (takeWhile (\<lambda>ch. ch \<noteq> CHR '':'') line);
            val = trim_header_token (tl (dropWhile (\<lambda>ch. ch \<noteq> CHR '':'') line))
        in if name = [] then None else Some \<lparr>mx_name = name, mx_value = val\<rparr>)"

definition header_callback :: "nat \<Rightarrow> string \<Rightarrow> 'h mx_client \<Rightarrow> 'h mx_client \<times> nat" where
  "header_callback c line s =
     ((case parse_header line of None \<Rightarrow> s
       | Some header \<Rightarrow>
           s\<lparr>mx_conns := (mx_conns s)(c := map_option
               (\<lambda>conn. conn\<lparr>cn_response_headers := cn_response_headers conn @ [header]\<rparr>) (mx_conns s c))\<rparr>),
      length line)"

section \<open>Sockets and the timer\<close>

definition watch :: "nat \<Rightarrow> wait_direction \<Rightarrow> 'h mx_client \<Rightarrow> 'h mx_client" where
  "watch sid dir s = mx_emit (Socket_wait sid dir)
     (s\<lparr>mx_waits := mx_waits s @ [\<lparr>sw_socket = sid, sw_dir = dir, sw_cancelled = False\<rparr>]\<rparr>)"

text \<open>\<^verbatim>\<open>tcp_socket->cancel\<close> and \<^verbatim>\<open>timer.cancel\<close>.\<close>

definition socket_cancel :: "nat \<Rightarrow> 'h mx_client \<Rightarrow> 'h mx_client" where
  "socket_cancel sid s = mx_emit (Socket_cancel sid)
     (s\<lparr>mx_waits := map (\<lambda>w. if sw_socket w = sid then w\<lparr>sw_cancelled := True\<rparr> else w) (mx_waits s)\<rparr>)"

definition timer_cancel :: "'h mx_client \<Rightarrow> 'h mx_client" where
  "timer_cancel s = mx_emit Timer_cancel
     (s\<lparr>mx_timer_waits := map (tw_cancelled_update (\<lambda>_. True)) (mx_timer_waits s)\<rparr>)"

definition arm_socket_watches :: "nat \<Rightarrow> poll_action \<Rightarrow> 'h mx_client \<Rightarrow> 'h mx_client" where
  "arm_socket_watches sid action s =
     (let s1 = (if action = Poll_in \<or> action = Poll_inout then watch sid Wait_read s else s)
      in if action = Poll_out \<or> action = Poll_inout then watch sid Wait_write s1 else s1)"

definition handle_set_socket :: "int \<Rightarrow> poll_action \<Rightarrow> nat \<Rightarrow> 'h mx_client \<Rightarrow> 'h mx_client \<times> int" where
  "handle_set_socket socket action actionp s =
     (case map_of (mx_socket_map s) socket of None \<Rightarrow> (s, 0)
      | Some sid \<Rightarrow>
          let s1 = s\<lparr>mx_action_values := (mx_action_values s)(actionp \<mapsto> action),
                     mx_socket_actions := (mx_socket_actions s)(socket \<mapsto> action)\<rparr>;
              s2 = socket_cancel sid s1
          in (arm_socket_watches sid action s2, 0))"

text \<open>\<open>assign_ok\<close> is whether \<^verbatim>\<open>curl_multi_assign\<close> returns \<^verbatim>\<open>CURLM_OK\<close>.\<close>

definition handle_add_socket :: "int \<Rightarrow> poll_action \<Rightarrow> bool \<Rightarrow> 'h mx_client \<Rightarrow> 'h mx_client \<times> int" where
  "handle_add_socket socket what assign_ok s =
     (let a = mx_next s;
          s1 = s\<lparr>mx_next := Suc a, mx_action_values := (mx_action_values s)(a \<mapsto> Poll_none)\<rparr>;
          (s2, ret) = handle_set_socket socket what a s1
      in if ret < 0 then (s2, -1)
         else
           let s3 = mx_emit (Multi_assign socket a) s2
           in if \<not> assign_ok then (s3, -1)
              else (s3\<lparr>mx_actions := insert a (mx_actions s3)\<rparr>, 0))"

definition handle_remove_socket :: "nat option \<Rightarrow> 'h mx_client \<Rightarrow> 'h mx_client \<times> int" where
  "handle_remove_socket actionp s =
     ((case actionp of None \<Rightarrow> s | Some a \<Rightarrow> s\<lparr>mx_actions := mx_actions s - {a}\<rparr>), 0)"

text \<open>\<^verbatim>\<open>what\<close> is a poll action or \<^verbatim>\<open>CURL_POLL_REMOVE\<close>.\<close>

definition handle_socket_event :: "int \<Rightarrow> poll_action option \<Rightarrow> nat option \<Rightarrow> bool \<Rightarrow> 'h mx_client \<Rightarrow> 'h mx_client \<times> int" where
  "handle_socket_event socket what actionp assign_ok s =
     (case what of
        None \<Rightarrow> handle_remove_socket actionp (s\<lparr>mx_socket_actions := (mx_socket_actions s)(socket := None)\<rparr>)
      | Some w \<Rightarrow>
          (case actionp of
             None \<Rightarrow> handle_add_socket socket w assign_ok s
           | Some a \<Rightarrow> handle_set_socket socket w a s))"

definition handle_timeout_event :: "int \<Rightarrow> 'h mx_client \<Rightarrow> 'h mx_client \<times> int" where
  "handle_timeout_event timeout_ms s =
     (let s1 = timer_cancel s
      in if timeout_ms < 0 then (s1, 0)
         else (mx_emit (Timer_after timeout_ms)
                 (s1\<lparr>mx_timer_waits := mx_timer_waits s1 @ [\<lparr>tw_timeout = timeout_ms, tw_cancelled = False\<rparr>]\<rparr>), 0))"

text \<open>
  \<^verbatim>\<open>insert\<close> on the map keeps an entry that is already there; the new socket object then dies and closes
  its descriptor.
\<close>

definition handle_open_socket :: "bool \<Rightarrow> address_family \<Rightarrow> open_result \<Rightarrow> 'h mx_client \<Rightarrow> 'h mx_client \<times> int option" where
  "handle_open_socket purpose_ipcxn family r s =
     (if \<not> purpose_ipcxn then (s, None)
      else if family = Af_other then (s, None)
      else if open_ec r \<noteq> None then (s, None)
      else if non_blocking_ec r \<noteq> None then (s, None)
      else
        let sid = mx_next s; fd = opened_fd r; fresh = (map_of (mx_socket_map s) fd = None);
            s1 = s\<lparr>mx_next := Suc sid, mx_sockets := (mx_sockets s)(sid \<mapsto> \<lparr>sock_fd = fd, sock_open = fresh\<rparr>)\<rparr>
        in if fresh then (s1\<lparr>mx_socket_map := mx_socket_map s1 @ [(fd, sid)]\<rparr>, Some fd)
           else (mx_emit (Socket_close sid) s1, Some fd))"

definition close_tcp_socket :: "nat \<Rightarrow> 'h mx_client \<Rightarrow> 'h mx_client" where
  "close_tcp_socket sid s =
     mx_emit (Socket_close sid) (socket_cancel sid
       (s\<lparr>mx_sockets := (mx_sockets s)(sid := map_option (\<lambda>k. k\<lparr>sock_open := False\<rparr>) (mx_sockets s sid))\<rparr>))"

definition handle_close_socket :: "int \<Rightarrow> 'h mx_client \<Rightarrow> 'h mx_client \<times> int" where
  "handle_close_socket item s =
     (let s1 = s\<lparr>mx_socket_actions := (mx_socket_actions s)(item := None)\<rparr>
      in case map_of (mx_socket_map s1) item of None \<Rightarrow> (s1, 0)
         | Some sid \<Rightarrow>
             let s2 = close_tcp_socket sid s1
             in (s2\<lparr>mx_socket_map := filter (\<lambda>e. fst e \<noteq> item) (mx_socket_map s2)\<rparr>, 0))"

section \<open>Calls of curl\<close>

fun run_cb :: "curl_cb \<Rightarrow> 'h mx_client \<Rightarrow> 'h mx_client" where
  "run_cb (Cb_socket socket what actionp assign_ok) s = fst (handle_socket_event socket what actionp assign_ok s)"
| "run_cb (Cb_timer timeout_ms) s = fst (handle_timeout_event timeout_ms s)"
| "run_cb (Cb_open purpose_ipcxn family r) s = fst (handle_open_socket purpose_ipcxn family r s)"
| "run_cb (Cb_close item) s = fst (handle_close_socket item s)"
| "run_cb (Cb_write c bytes) s = fst (write_callback c bytes s)"
| "run_cb (Cb_header c line) s = fst (header_callback c line s)"

fun run_cbs :: "curl_cb list \<Rightarrow> 'h mx_client \<Rightarrow> 'h mx_client" where
  "run_cbs [] s = s"
| "run_cbs (cb # cbs) s = run_cbs cbs (run_cb cb (mx_emit (Curl_called cb) s))"

text \<open>
  A message of \<^verbatim>\<open>curl_multi_info_read\<close>: \<^verbatim>\<open>CURLMSG_DONE\<close> for an easy handle, with its result, the response
  code and the callbacks made while the handle is removed, or another message. An easy handle is
  identified with the connection context stored in it by \<^verbatim>\<open>CURLOPT_PRIVATE\<close>.
\<close>

datatype curl_msg =
    Msg_done nat curl_code nat "curl_cb list"
  | Msg_other

record curl_reply =
  reply_ok :: bool
  reply_running :: int
  reply_cbs :: "curl_cb list"
  reply_msgs :: "curl_msg list"

definition multi_remove_handle :: "nat \<Rightarrow> curl_cb list \<Rightarrow> 'h mx_client \<Rightarrow> 'h mx_client" where
  "multi_remove_handle easy cbs s = run_cbs cbs (mx_emit (Multi_remove_handle easy) s)"

definition socket_action :: "'h mx_event \<Rightarrow> curl_reply \<Rightarrow> 'h mx_client \<Rightarrow> 'h mx_client" where
  "socket_action ev r s = (run_cbs (reply_cbs r) (mx_emit ev s))\<lparr>mx_still_running := reply_running r\<rparr>"


section \<open>Requests\<close>

definition setopts :: "nat \<Rightarrow> easy_option list \<Rightarrow> 'h mx_client \<Rightarrow> 'h mx_client" where
  "setopts easy opts s = s\<lparr>mx_trace := mx_trace s @ map (Easy_setopt easy) opts\<rparr>"

definition post_body :: "string \<Rightarrow> easy_option list" where
  "post_body body = [Opt_postfields body, Opt_postfieldsize (int (length body))]"

fun method_options :: "mx_method \<Rightarrow> string \<Rightarrow> easy_option list option" where
  "method_options Mx_get body = Some [Opt_httpget 1]"
| "method_options Mx_head body = Some [Opt_nobody 1]"
| "method_options Mx_post body = Some (Opt_post 1 # post_body body)"
| "method_options Mx_put body = Some (Opt_customrequest ''PUT'' # post_body body)"
| "method_options Mx_del body =
     Some (Opt_customrequest ''DELETE'' # (if body \<noteq> [] then post_body body else []))"
| "method_options Mx_patch body = Some (Opt_customrequest ''PATCH'' # post_body body)"
| "method_options (Mx_other_method n) body = None"

definition apply_method :: "nat \<Rightarrow> mx_method \<Rightarrow> 'h conn_context \<Rightarrow> 'h mx_client \<Rightarrow> 'h mx_client \<times> error_code" where
  "apply_method easy method conn s =
     (if to_curl_method method = None then (s, Some invalid_argument)
      else case method_options method (cn_body conn) of
             None \<Rightarrow> (s, Some invalid_argument)
           | Some opts \<Rightarrow> (setopts easy opts s, None))"

text \<open>What curl reads from \<^verbatim>\<open>c_str()\<close>: the bytes before the first NUL.\<close>

definition c_str :: "string \<Rightarrow> string" where
  "c_str str = takeWhile (\<lambda>ch. ch \<noteq> CHR 0x00) str"

definition easy_options :: "nat \<Rightarrow> 'h conn_context \<Rightarrow> string \<Rightarrow> easy_option list" where
  "easy_options easy conn ca_file =
     (let timeout_ms = (if cn_timeout conn > 0 then cn_timeout conn else 0)
      in [Opt_url (c_str (cn_url conn)), Opt_writefunction, Opt_writedata easy, Opt_headerfunction,
          Opt_headerdata easy, Opt_verbose 0, Opt_errorbuffer easy, Opt_private easy, Opt_noprogress 1,
          Opt_http_version_2_0, Opt_tcp_keepalive 1, Opt_followlocation 1, Opt_timeout_ms timeout_ms,
          Opt_connecttimeout_ms (if timeout_ms > 0 then timeout_ms else 5000)] @
         (if ca_file \<noteq> [] then [Opt_cainfo (c_str ca_file)] else []) @
         (case cn_curl_headers conn of None \<Rightarrow> [] | Some hs \<Rightarrow> [Opt_httpheader hs]) @
         [Opt_opensocketfunction, Opt_opensocketdata, Opt_closesocketfunction, Opt_closesocketdata])"

definition configure_easy_handle :: "nat \<Rightarrow> 'h conn_context \<Rightarrow> 'h mx_client \<Rightarrow> 'h mx_client \<times> error_code" where
  "configure_easy_handle easy conn s =
     (setopts easy (easy_options easy conn (mx_ca_certificate_file s)) s, None)"

text \<open>
  The messages of one \<^verbatim>\<open>check_multi_info\<close> loop, up to the one where curl has no more. The handler is taken
  out of the connection context before it is called.
\<close>

definition finish_request :: "nat \<Rightarrow> curl_code \<Rightarrow> nat \<Rightarrow> curl_cb list \<Rightarrow> 'h mx_client \<Rightarrow> 'h mx_client" where
  "finish_request c result http_code cbs s =
     (let s1 = multi_remove_handle c cbs (s\<lparr>mx_connections := remove1 c (mx_connections s)\<rparr>);
          s2 = s1\<lparr>mx_pending := mx_pending s1 - 1\<rparr>
      in case mx_conns s2 c of None \<Rightarrow> s2
         | Some conn \<Rightarrow>
             let response = (if result = Curle_ok
                   then \<lparr>mx_status_code = http_code mod 2 ^ 32, mx_body = cn_response_body conn,
                         mx_headers = cn_response_headers conn\<rparr>
                   else no_response);
                 s3 = s2\<lparr>mx_conns := (mx_conns s2)(c \<mapsto> conn\<lparr>cn_handler := None\<rparr>)\<rparr>
             in respond (cn_handler conn) (from_curl_code result) response s3)"

fun check_multi_info :: "curl_msg list \<Rightarrow> 'h mx_client \<Rightarrow> 'h mx_client" where
  "check_multi_info [] s = s"
| "check_multi_info (Msg_other # msgs) s = check_multi_info msgs s"
| "check_multi_info (Msg_done c result http_code cbs # msgs) s =
     (if c \<notin> set (mx_connections s)
      then check_multi_info msgs (multi_remove_handle c cbs s)
      else check_multi_info msgs (finish_request c result http_code cbs s))"

text \<open>Whether \<^verbatim>\<open>curl_easy_init\<close> returns a handle, and the replies of the two calls of the multi interface.\<close>

record start_replies =
  easy_init_ok :: bool
  add_reply :: curl_reply
  action_reply :: curl_reply

definition start_request :: "start_replies \<Rightarrow> nat \<Rightarrow> mx_method \<Rightarrow> 'h conn_context \<Rightarrow> 'h mx_client \<Rightarrow> 'h mx_client" where
  "start_request r c method conn s =
     (if \<not> mx_multi s then respond (cn_handler conn) (Some operation_not_permitted) no_response s
      else if \<not> easy_init_ok r
      then respond (cn_handler conn) (Some resource_unavailable_try_again) no_response s
      else
        let (s1, ec1) = apply_method c method conn s
        in if ec1 \<noteq> None then respond (cn_handler conn) ec1 no_response s1
           else
             let (s2, ec2) = configure_easy_handle c conn s1
             in if ec2 \<noteq> None then respond (cn_handler conn) ec2 no_response s2
                else
                  let s3 = run_cbs (reply_cbs (add_reply r)) (mx_emit (Multi_add_handle c) s2)
                  in if \<not> reply_ok (add_reply r)
                     then respond (cn_handler conn) (Some io_error) no_response s3
                     else
                       let s4 = s3\<lparr>mx_pending := mx_pending s3 + 1, mx_connections := mx_connections s3 @ [c]\<rparr>;
                           s5 = socket_action Multi_timeout_action (action_reply r) s4
                       in if reply_ok (action_reply r) then check_multi_info (reply_msgs (action_reply r)) s5
                          else s5)"

record 'h mx_args =
  arg_method :: mx_method
  arg_host :: string
  arg_port :: string
  arg_target :: string
  arg_body :: string
  arg_headers :: "mx_header list"
  arg_timeout :: int
  arg_handler :: "'h option"

definition mx_get_args :: "string \<Rightarrow> string \<Rightarrow> string \<Rightarrow> int \<Rightarrow> 'h option \<Rightarrow> 'h mx_args" where
  "mx_get_args host port target timeout handler =
     \<lparr>arg_method = Mx_get, arg_host = host, arg_port = port, arg_target = target, arg_body = [],
      arg_headers = [], arg_timeout = timeout, arg_handler = handler\<rparr>"

definition mx_post_args :: "string \<Rightarrow> string \<Rightarrow> string \<Rightarrow> string \<Rightarrow> int \<Rightarrow> 'h option \<Rightarrow> 'h mx_args" where
  "mx_post_args host port target body timeout handler =
     \<lparr>arg_method = Mx_post, arg_host = host, arg_port = port, arg_target = target, arg_body = body,
      arg_headers = [], arg_timeout = timeout, arg_handler = handler\<rparr>"

definition header_line :: "mx_header \<Rightarrow> string" where
  "header_line h = mx_name h @ '': '' @ mx_value h"

definition new_conn :: "'h mx_args \<Rightarrow> 'h conn_context" where
  "new_conn a =
     \<lparr>cn_curl_headers = (if arg_headers a = [] then None else Some (map (\<lambda>h. c_str (header_line h)) (arg_headers a))),
      cn_url = ''https://'' @ arg_host a @ '':'' @ arg_port a @ arg_target a, cn_body = arg_body a,
      cn_timeout = arg_timeout a, cn_response_body = [], cn_response_headers = [],
      cn_handler = arg_handler a\<rparr>"

definition mx_do_request :: "start_replies \<Rightarrow> 'h mx_args \<Rightarrow> 'h mx_client \<Rightarrow> 'h mx_client" where
  "mx_do_request r a s =
     (if to_curl_method (arg_method a) = None
      then respond (arg_handler a) (Some invalid_argument) no_response s
      else
        let c = mx_next s; conn = new_conn a;
            s1 = s\<lparr>mx_next := Suc c, mx_conns := (mx_conns s)(c \<mapsto> conn)\<rparr>
        in start_request r c (arg_method a) conn s1)"

section \<open>Cancelling and destruction\<close>

text \<open>
  The loop over the outstanding connections; \<open>cbs c\<close> are the callbacks made while the handle of \<open>c\<close> is
  removed. The iteration order of \<^verbatim>\<open>std::unordered_map\<close> is unspecified; here it is the order of insertion.
\<close>

fun cancel_loop :: "(nat \<Rightarrow> curl_cb list) \<Rightarrow> nat list \<Rightarrow> 'h mx_client \<Rightarrow> 'h mx_client" where
  "cancel_loop cbs [] s = s"
| "cancel_loop cbs (c # cs) s =
     (let s1 = (if mx_multi s then multi_remove_handle c (cbs c) s else s)
      in case mx_conns s1 c of None \<Rightarrow> cancel_loop cbs cs s1
         | Some conn \<Rightarrow>
             cancel_loop cbs cs (respond (cn_handler conn) (Some operation_canceled) no_response
               (s1\<lparr>mx_conns := (mx_conns s1)(c \<mapsto> conn\<lparr>cn_handler := None\<rparr>)\<rparr>)))"

text \<open>The loop that cancels and closes every socket in the map.\<close>

definition close_all_sockets :: "'h mx_client \<Rightarrow> 'h mx_client" where
  "close_all_sockets s = fold (\<lambda>entry s. close_tcp_socket (snd entry) s) (mx_socket_map s) s"

definition mx_do_cancel :: "(nat \<Rightarrow> curl_cb list) \<Rightarrow> 'h mx_client \<Rightarrow> 'h mx_client" where
  "mx_do_cancel cbs s =
     (let s1 = timer_cancel s;
          outstanding = mx_connections s1;
          s2 = cancel_loop cbs outstanding (s1\<lparr>mx_connections := []\<rparr>);
          s3 = close_all_sockets (s2\<lparr>mx_pending := 0\<rparr>)
      in s3\<lparr>mx_socket_map := [], mx_socket_actions := Map.empty, mx_actions := {},
            mx_still_running := 0\<rparr>)"

text \<open>
  The destructor. It runs when the last \<^verbatim>\<open>shared_ptr\<close> is gone, so \<^verbatim>\<open>shared_from_this\<close> throws
  \<^verbatim>\<open>bad_weak_ptr\<close> from then on, and an exception that leaves a destructor ends the program: the result
  \<open>None\<close>. Of the callbacks that curl may make, \<^verbatim>\<open>handle_timeout_event\<close> with a timeout that is not negative
  and \<^verbatim>\<open>arm_socket_watches\<close>, which \<^verbatim>\<open>handle_set_socket\<close> calls for a socket in the map, ask for it.
\<close>

fun asks_for_owner :: "curl_cb \<Rightarrow> 'h mx_client \<Rightarrow> bool" where
  "asks_for_owner (Cb_socket socket (Some action) actionp assign_ok) s \<longleftrightarrow> map_of (mx_socket_map s) socket \<noteq> None"
| "asks_for_owner (Cb_timer timeout_ms) s \<longleftrightarrow> timeout_ms \<ge> 0"
| "asks_for_owner _ s \<longleftrightarrow> False"

fun run_dying_cbs :: "curl_cb list \<Rightarrow> 'h mx_client \<Rightarrow> 'h mx_client option" where
  "run_dying_cbs [] s = Some s"
| "run_dying_cbs (cb # cbs) s =
     (if asks_for_owner cb s then None else run_dying_cbs cbs (run_cb cb (mx_emit (Curl_called cb) s)))"

fun destroy_loop :: "(nat \<Rightarrow> curl_cb list) \<Rightarrow> nat list \<Rightarrow> 'h mx_client \<Rightarrow> 'h mx_client option" where
  "destroy_loop cbs [] s = Some s"
| "destroy_loop cbs (c # cs) s =
     (case (if mx_multi s then run_dying_cbs (cbs c) (mx_emit (Multi_remove_handle c) s) else Some s) of
        None \<Rightarrow> None
      | Some s1 \<Rightarrow>
          destroy_loop cbs cs (s1\<lparr>mx_conns := (mx_conns s1)(c := map_option (\<lambda>conn. conn\<lparr>cn_handler := None\<rparr>)
            (mx_conns s1 c))\<rparr>))"

text \<open>
  The members die after the body, in the reverse of their order: sockets that curl opened during the cleanup
  are closed with \<^verbatim>\<open>socket_map\<close>, and the waits of the timer are cancelled.
\<close>

definition destroy_members :: "'h mx_client \<Rightarrow> 'h mx_client" where
  "destroy_members s =
     timer_cancel ((close_all_sockets s)\<lparr>mx_socket_map := [], mx_socket_actions := Map.empty, mx_actions := {}\<rparr>)"

text \<open>\<open>cbs c\<close> are the callbacks while the handle of \<open>c\<close> is removed, \<open>cleanup_cbs\<close> those of \<^verbatim>\<open>curl_multi_cleanup\<close>.\<close>

definition destroy_mx_client :: "(nat \<Rightarrow> curl_cb list) \<Rightarrow> curl_cb list \<Rightarrow> 'h mx_client \<Rightarrow> 'h mx_client option" where
  "destroy_mx_client cbs cleanup_cbs s =
     (let s1 = timer_cancel s;
          outstanding = mx_connections s1
      in case destroy_loop cbs outstanding (s1\<lparr>mx_connections := [], mx_pending := 0\<rparr>) of
           None \<Rightarrow> None
         | Some s2 \<Rightarrow>
             let s3 = close_all_sockets s2;
                 s4 = s3\<lparr>mx_socket_map := [], mx_socket_actions := Map.empty, mx_actions := {},
                         mx_still_running := 0\<rparr>
             in if \<not> mx_multi s4 then Some (destroy_members s4)
                else case run_dying_cbs cleanup_cbs (mx_emit Multi_cleanup s4) of
                       None \<Rightarrow> None
                     | Some s5 \<Rightarrow> Some (destroy_members (s5\<lparr>mx_multi := False\<rparr>)))"

section \<open>Events\<close>

definition event_callback :: "curl_reply \<Rightarrow> nat \<Rightarrow> wait_direction \<Rightarrow> 'h mx_client \<Rightarrow> 'h mx_client" where
  "event_callback r sid dir s =
     (case mx_sockets s sid of None \<Rightarrow> s
      | Some sock \<Rightarrow>
          if \<not> mx_multi s \<or> \<not> sock_open sock then s
          else
            let fd = sock_fd sock;
                s1 = mx_emit (Socket_served fd (reply_ok r) (reply_running r))
                  (socket_action (Multi_socket_action fd (if dir = Wait_read then Poll_in else Poll_out)) r s)
            in if \<not> reply_ok r then s1
               else
                 let s2 = check_multi_info (reply_msgs r) s1
                 in if mx_still_running s2 \<le> 0 then timer_cancel s2
                    else case mx_socket_actions s2 fd of None \<Rightarrow> s2
                         | Some action \<Rightarrow> arm_socket_watches sid action s2)"

text \<open>The completion handlers of the waits that \<^verbatim>\<open>arm_socket_watches\<close> starts.\<close>

definition handle_socket_wait :: "error_code \<Rightarrow> curl_reply \<Rightarrow> nat \<Rightarrow> wait_direction \<Rightarrow> 'h mx_client \<Rightarrow> 'h mx_client" where
  "handle_socket_wait ec r sid dir s = (if ec \<noteq> None then s else event_callback r sid dir s)"

definition asio_timer_callback :: "error_code \<Rightarrow> curl_reply \<Rightarrow> 'h mx_client \<Rightarrow> 'h mx_client" where
  "asio_timer_callback ec r s =
     (if ec \<noteq> None \<or> \<not> mx_multi s then s
      else
        let s1 = socket_action Multi_timeout_action r s
        in if \<not> reply_ok r then s1 else check_multi_info (reply_msgs r) s1)"

section \<open>Running the client\<close>

datatype 'h mx_input =
    Mx_in_request "'h mx_args" start_replies
  | Mx_in_cancel "nat \<Rightarrow> curl_cb list"
  | Mx_in_set_ca string
  | Mx_in_wait nat error_code curl_reply
  | Mx_in_timer nat error_code curl_reply

fun mx_step :: "'h mx_client \<Rightarrow> 'h mx_input \<Rightarrow> 'h mx_client" where
  "mx_step s (Mx_in_request a r) = mx_do_request r a s"
| "mx_step s (Mx_in_cancel cbs) = mx_do_cancel cbs s"
| "mx_step s (Mx_in_set_ca file) = do_set_ca_certificate file s"
| "mx_step s (Mx_in_wait i ec r) =
     (if i < length (mx_waits s)
      then handle_socket_wait ec r (sw_socket (mx_waits s ! i)) (sw_dir (mx_waits s ! i))
             (s\<lparr>mx_waits := take i (mx_waits s) @ drop (Suc i) (mx_waits s)\<rparr>)
      else s)"
| "mx_step s (Mx_in_timer i ec r) =
     (if i < length (mx_timer_waits s)
      then asio_timer_callback ec r
             (s\<lparr>mx_timer_waits := take i (mx_timer_waits s) @ drop (Suc i) (mx_timer_waits s)\<rparr>)
      else s)"

fun mx_run :: "'h mx_client \<Rightarrow> 'h mx_input list \<Rightarrow> 'h mx_client" where
  "mx_run s [] = s"
| "mx_run s (i # is) = mx_run (mx_step s i) is"

end
