(* ===== verification/Multiplex_Properties.thy ===== *)
theory Multiplex_Properties
  imports Https_Multiplex_Client Request_Service
begin

text \<open>
  Properties of \<^verbatim>\<open>HttpsMultiplexClient\<close> for every behaviour of libcurl: whatever callbacks curl makes and
  whatever messages it delivers, each response handler is called exactly once, the pending count is the
  number of outstanding requests, and cancelling ends all of them. The theory also shows what a request
  asks of curl and how responses and header lines are read.
\<close>

section \<open>What callbacks leave alone\<close>

fun response_of :: "'h mx_event \<Rightarrow> ('h \<times> error_code \<times> mx_response) list" where
  "response_of (Responded h ec response) = [(h, ec, response)]"
| "response_of _ = []"

definition responses :: "'h mx_client \<Rightarrow> ('h \<times> error_code \<times> mx_response) list" where
  "responses s = concat (map response_of (mx_trace s))"

definition handler_of :: "'h mx_client \<Rightarrow> nat \<Rightarrow> 'h option option" where
  "handler_of s = (\<lambda>c. map_option cn_handler (mx_conns s c))"

text \<open>Cancelling a socket or the timer changes nothing but the waits.\<close>

lemma socket_cancel_frame [simp]:
  "mx_multi (socket_cancel sid s) = mx_multi s" "mx_still_running (socket_cancel sid s) = mx_still_running s"
  "mx_ca_certificate_file (socket_cancel sid s) = mx_ca_certificate_file s" "mx_pending (socket_cancel sid s) = mx_pending s"
  "mx_socket_map (socket_cancel sid s) = mx_socket_map s" "mx_socket_actions (socket_cancel sid s) = mx_socket_actions s"
  "mx_connections (socket_cancel sid s) = mx_connections s" "mx_actions (socket_cancel sid s) = mx_actions s"
  "mx_conns (socket_cancel sid s) = mx_conns s" "mx_sockets (socket_cancel sid s) = mx_sockets s"
  "mx_action_values (socket_cancel sid s) = mx_action_values s" "mx_next (socket_cancel sid s) = mx_next s"
  "mx_timer_waits (socket_cancel sid s) = mx_timer_waits s" "mx_trace (socket_cancel sid s) = mx_trace s @ [Socket_cancel sid]"
  by (simp_all add: socket_cancel_def mx_emit_def)

lemma timer_cancel_frame [simp]:
  "mx_multi (timer_cancel s) = mx_multi s" "mx_still_running (timer_cancel s) = mx_still_running s"
  "mx_ca_certificate_file (timer_cancel s) = mx_ca_certificate_file s" "mx_pending (timer_cancel s) = mx_pending s"
  "mx_socket_map (timer_cancel s) = mx_socket_map s" "mx_socket_actions (timer_cancel s) = mx_socket_actions s"
  "mx_connections (timer_cancel s) = mx_connections s" "mx_actions (timer_cancel s) = mx_actions s"
  "mx_conns (timer_cancel s) = mx_conns s" "mx_sockets (timer_cancel s) = mx_sockets s"
  "mx_action_values (timer_cancel s) = mx_action_values s" "mx_next (timer_cancel s) = mx_next s"
  "mx_waits (timer_cancel s) = mx_waits s" "mx_trace (timer_cancel s) = mx_trace s @ [Timer_cancel]"
  by (simp_all add: timer_cancel_def mx_emit_def)

text \<open>The requests of \<open>t\<close> are those of \<open>s\<close>, with the same handlers and the same answers.\<close>

definition same_requests :: "'h mx_client \<Rightarrow> 'h mx_client \<Rightarrow> bool" where
  "same_requests s t \<longleftrightarrow>
     mx_connections t = mx_connections s \<and> mx_pending t = mx_pending s \<and> mx_multi t = mx_multi s \<and>
     mx_ca_certificate_file t = mx_ca_certificate_file s \<and>
     responses t = responses s \<and> handler_of t = handler_of s \<and> mx_next s \<le> mx_next t"

lemma same_requests_refl [simp]: "same_requests s s"
  by (simp add: same_requests_def)

lemma same_requests_trans [trans]: "same_requests s t \<Longrightarrow> same_requests t v \<Longrightarrow> same_requests s v"
  by (auto simp: same_requests_def)

lemma same_requests_emit: "response_of ev = [] \<Longrightarrow> same_requests s (mx_emit ev s)"
  by (simp add: same_requests_def mx_emit_def responses_def handler_of_def)

lemma same_requests_updates:
  "same_requests s (s\<lparr>mx_still_running := x1\<rparr>)" "same_requests s (s\<lparr>mx_socket_map := x2\<rparr>)"
  "same_requests s (s\<lparr>mx_socket_actions := x3\<rparr>)" "same_requests s (s\<lparr>mx_actions := x4\<rparr>)"
  "same_requests s (s\<lparr>mx_sockets := x5\<rparr>)" "same_requests s (s\<lparr>mx_action_values := x6\<rparr>)"
  "same_requests s (s\<lparr>mx_waits := x7\<rparr>)" "same_requests s (s\<lparr>mx_timer_waits := x8\<rparr>)"
  by (simp_all add: same_requests_def responses_def handler_of_def)

lemma same_requests_cancel: "same_requests s (socket_cancel sid s)" "same_requests s (timer_cancel s)"
  by (simp_all add: same_requests_def responses_def handler_of_def)

lemma same_requests_watch: "same_requests s (watch sid dir s)"
  by (simp add: watch_def same_requests_def mx_emit_def responses_def handler_of_def)

lemma same_requests_arm: "same_requests s (arm_socket_watches sid action s)"
  by (auto simp: arm_socket_watches_def Let_def same_requests_watch
      intro: same_requests_trans [OF same_requests_watch same_requests_watch])

lemma same_requests_set_socket: "same_requests s (fst (handle_set_socket fd action a s))"
proof (cases "map_of (mx_socket_map s) fd")
  case (Some sid)
  let ?s = "socket_cancel sid (s\<lparr>mx_action_values := (mx_action_values s)(a \<mapsto> action),
    mx_socket_actions := (mx_socket_actions s)(fd \<mapsto> action)\<rparr>)"
  have "same_requests s ?s" by (simp add: same_requests_def mx_emit_def responses_def handler_of_def)
  from same_requests_trans [OF this same_requests_arm] Some show ?thesis
    by (simp add: handle_set_socket_def Let_def)
qed (simp add: handle_set_socket_def)

lemma same_requests_add_socket: "same_requests s (fst (handle_add_socket fd action ok s))"
proof -
  define s1 where "s1 = s\<lparr>mx_next := Suc (mx_next s), mx_action_values := (mx_action_values s)(mx_next s \<mapsto> Poll_none)\<rparr>"
  define r where "r = handle_set_socket fd action (mx_next s) s1"
  have "same_requests s s1" by (simp add: s1_def same_requests_def responses_def handler_of_def)
  also have "same_requests s1 (fst r)" unfolding r_def by (rule same_requests_set_socket)
  finally have 1: "same_requests s (fst r)" .
  have 2: "same_requests (fst r) (mx_emit (Multi_assign fd (mx_next s)) (fst r))"
    by (simp add: same_requests_emit)
  have 3: "same_requests s (mx_emit (Multi_assign fd (mx_next s)) (fst r))"
    using 1 2 by (rule same_requests_trans)
  have 4: "same_requests s ((mx_emit (Multi_assign fd (mx_next s)) (fst r))\<lparr>mx_actions := x\<rparr>)" for x
    using 3 same_requests_updates(4) by (rule same_requests_trans)
  show ?thesis
    using 1 3 4 by (simp add: handle_add_socket_def Let_def case_prod_beta s1_def [symmetric] r_def [symmetric])
qed

lemma same_requests_close: "same_requests s (close_tcp_socket sid s)"
  by (simp add: close_tcp_socket_def same_requests_def mx_emit_def responses_def handler_of_def)

lemma same_requests_cb: "same_requests s (run_cb cb s)"
proof (cases cb)
  case (Cb_socket fd what actionp ok)
  have "same_requests s (fst (handle_remove_socket actionp (s\<lparr>mx_socket_actions := x\<rparr>)))" for x
    by (simp add: handle_remove_socket_def same_requests_def responses_def handler_of_def split: option.split)
  then show ?thesis
    by (simp add: Cb_socket handle_socket_event_def same_requests_add_socket same_requests_set_socket
        split: option.split)
next
  case (Cb_close fd)
  then show ?thesis
    by (simp add: handle_close_socket_def Let_def close_tcp_socket_def same_requests_def mx_emit_def
        responses_def handler_of_def split: option.split)
qed (auto simp: handle_timeout_event_def handle_open_socket_def write_callback_def header_callback_def Let_def
    same_requests_def mx_emit_def responses_def handler_of_def fun_eq_iff option.map_comp comp_def split: option.split)

lemma same_requests_cbs: "same_requests s (run_cbs cbs s)"
proof (induction cbs arbitrary: s)
  case (Cons cb cbs)
  have "same_requests s (run_cb cb (mx_emit (Curl_called cb) s))"
    by (rule same_requests_trans [OF same_requests_emit same_requests_cb]) simp
  from same_requests_trans [OF this Cons.IH] show ?case by simp
qed simp

lemma same_requests_remove: "same_requests s (multi_remove_handle c cbs s)"
  unfolding multi_remove_handle_def
  by (rule same_requests_trans [OF same_requests_emit same_requests_cbs]) simp

lemma same_requests_action: "response_of ev = [] \<Longrightarrow> same_requests s (socket_action ev r s)"
  unfolding socket_action_def
  by (rule same_requests_trans [OF same_requests_trans [OF same_requests_emit same_requests_cbs]
        same_requests_updates(1)])

section \<open>The invariant and the balance of handlers\<close>

definition handlers :: "'h mx_client \<Rightarrow> nat list \<Rightarrow> 'h multiset" where
  "handlers s cs = sum_list (map (\<lambda>c. case handler_of s c of Some (Some h) \<Rightarrow> {#h#} | _ \<Rightarrow> {#}) cs)"

definition answered :: "'h mx_client \<Rightarrow> 'h multiset" where
  "answered s = mset (map fst (responses s))"

definition mx_inv :: "'h mx_client \<Rightarrow> bool" where
  "mx_inv s \<longleftrightarrow> distinct (mx_connections s) \<and> mx_pending s = of_nat (length (mx_connections s)) \<and>
     (\<forall>c \<in> set (mx_connections s). handler_of s c \<noteq> None) \<and>
     (\<forall>c. handler_of s c \<noteq> None \<longrightarrow> c < mx_next s)"

lemma mx_inv_same:
  assumes "same_requests s t" and "mx_inv s"
  shows "mx_inv t"
proof -
  have "mx_connections t = mx_connections s" "mx_pending t = mx_pending s" "handler_of t = handler_of s"
      "mx_next s \<le> mx_next t"
    using assms(1) by (simp_all add: same_requests_def)
  with assms(2) show ?thesis unfolding mx_inv_def by (metis (no_types, lifting) order_less_le_trans)
qed

lemma handlers_same: "same_requests s t \<Longrightarrow> handlers t cs = handlers s cs"
  by (simp add: handlers_def same_requests_def)

lemma answered_same: "same_requests s t \<Longrightarrow> answered t = answered s"
  by (simp add: answered_def same_requests_def)

lemma handlers_Cons:
  "handlers s (c # cs) = (case handler_of s c of Some (Some h) \<Rightarrow> {#h#} | _ \<Rightarrow> {#}) + handlers s cs"
  by (simp add: handlers_def)

lemma handlers_remove1:
  assumes "c \<in> set cs"
  shows "handlers s cs = (case handler_of s c of Some (Some h) \<Rightarrow> {#h#} | _ \<Rightarrow> {#}) + handlers s (remove1 c cs)"
  using assms by (induction cs) (auto simp: handlers_Cons add_ac)

lemma handlers_cong: "(\<And>c. c \<in> set cs \<Longrightarrow> handler_of s c = handler_of t c) \<Longrightarrow> handlers s cs = handlers t cs"
  by (induction cs) (simp_all add: handlers_Cons, simp add: handlers_def)

text \<open>Taking a handler out of its connection and calling it.\<close>

definition answer :: "nat \<Rightarrow> 'h conn_context \<Rightarrow> error_code \<Rightarrow> mx_response \<Rightarrow> 'h mx_client \<Rightarrow> 'h mx_client" where
  "answer c conn ec response s =
     respond (cn_handler conn) ec response (s\<lparr>mx_conns := (mx_conns s)(c \<mapsto> conn\<lparr>cn_handler := None\<rparr>)\<rparr>)"

lemma answer_effect:
  assumes "t = answer c conn ec response s" and "mx_conns s c = Some conn"
  shows "mx_connections t = mx_connections s" and "mx_pending t = mx_pending s" and "mx_multi t = mx_multi s"
    and "mx_next t = mx_next s" and "handler_of t = (handler_of s)(c := Some None)"
    and "responses t = responses s @ (case cn_handler conn of None \<Rightarrow> [] | Some h \<Rightarrow> [(h, ec, response)])"
    and "answered t = answered s + (case handler_of s c of Some (Some h) \<Rightarrow> {#h#} | _ \<Rightarrow> {#})"
  using assms(2) by (auto simp: assms(1) answer_def respond_def mx_emit_def responses_def handler_of_def answered_def
      fun_eq_iff split: option.split)


definition result_of :: "curl_code \<Rightarrow> nat \<Rightarrow> 'h conn_context \<Rightarrow> mx_response" where
  "result_of result code conn =
     (if result = Curle_ok
      then \<lparr>mx_status_code = code mod 2 ^ 32, mx_body = cn_response_body conn, mx_headers = cn_response_headers conn\<rparr>
      else no_response)"

text \<open>A finished request is answered in a state that differs from the old one only in the bookkeeping.\<close>

lemma finish_request_answer:
  assumes "\<forall>c \<in> set (mx_connections s). handler_of s c \<noteq> None" and "c \<in> set (mx_connections s)"
  obtains conn s2 where "finish_request c result code cbs s = answer c conn (from_curl_code result) (result_of result code conn) s2"
    and "mx_conns s2 c = Some conn" and "mx_connections s2 = remove1 c (mx_connections s)"
    and "mx_pending s2 = mx_pending s - 1" and "handler_of s2 = handler_of s" and "responses s2 = responses s"
    and "mx_next s \<le> mx_next s2"
    and "mx_conns s2 = mx_conns (multi_remove_handle c cbs (s\<lparr>mx_connections := remove1 c (mx_connections s)\<rparr>))"
proof -
  define s0 where "s0 = s\<lparr>mx_connections := remove1 c (mx_connections s)\<rparr>"
  define s2 where "s2 = (multi_remove_handle c cbs s0)\<lparr>mx_pending := mx_pending (multi_remove_handle c cbs s0) - 1\<rparr>"
  have same: "same_requests s0 (multi_remove_handle c cbs s0)" by (rule same_requests_remove)
  have s0: "handler_of s0 = handler_of s" "responses s0 = responses s" "mx_next s0 = mx_next s"
    by (simp_all add: s0_def handler_of_def responses_def)
  have s2: "mx_connections s2 = remove1 c (mx_connections s)" "mx_pending s2 = mx_pending s - 1"
      "handler_of s2 = handler_of s" "responses s2 = responses s" "mx_next s \<le> mx_next s2"
    using same s0 by (simp_all add: s2_def same_requests_def s0_def handler_of_def responses_def)
  have "handler_of s2 c \<noteq> None" using assms s2(3) by simp
  then obtain conn where conn: "mx_conns s2 c = Some conn" by (auto simp: handler_of_def)
  have "finish_request c result code cbs s = answer c conn (from_curl_code result) (result_of result code conn) s2"
    using conn by (simp add: finish_request_def result_of_def Let_def s0_def s2_def answer_def)
  from that [OF this conn s2] show thesis by (simp add: s2_def s0_def)
qed

lemma finish_request_balance:
  assumes "mx_inv s" and "c \<in> set (mx_connections s)" and "t = finish_request c result code cbs s"
  shows "mx_inv t \<and> mx_connections t = remove1 c (mx_connections s) \<and>
    answered t + handlers t (mx_connections t) = answered s + handlers s (mx_connections s)"
proof -
  have owned: "\<forall>c \<in> set (mx_connections s). handler_of s c \<noteq> None" using assms(1) by (simp add: mx_inv_def)
  obtain conn s2 where t: "t = answer c conn (from_curl_code result) (result_of result code conn) s2"
    and conn: "mx_conns s2 c = Some conn"
    and s2: "mx_connections s2 = remove1 c (mx_connections s)" "mx_pending s2 = mx_pending s - 1"
      "handler_of s2 = handler_of s" "responses s2 = responses s" "mx_next s \<le> mx_next s2"
    by (rule finish_request_answer [OF owned assms(2), of result code cbs]) (rule that; simp add: assms(3))
  note e = answer_effect [OF t conn]
  have d: "distinct (mx_connections s)" using assms(1) by (simp add: mx_inv_def)
  have hs: "handlers t (remove1 c (mx_connections s)) = handlers s (remove1 c (mx_connections s))"
    using d by (intro handlers_cong) (simp add: e(5) s2(3))
  have "mx_pending s - 1 = of_nat (length (remove1 c (mx_connections s)))"
    using assms(1,2) by (auto simp: mx_inv_def length_remove1) (metis Suc_pred length_pos_if_in_set add_diff_cancel_left' of_nat_Suc)
  moreover have "x < mx_next t" if "handler_of t x \<noteq> None" for x
  proof -
    have "handler_of s x \<noteq> None" using that assms(1,2) by (cases "x = c") (simp_all add: mx_inv_def e(5) s2(3))
    then have "x < mx_next s" using assms(1) by (simp add: mx_inv_def)
    then show ?thesis using s2(5) e(4) by simp
  qed
  ultimately have "mx_inv t"
    using assms(1) d s2(1-3) by (simp add: mx_inv_def e(1,2,5))
  moreover have "answered s2 = answered s" by (simp add: answered_def s2(4))
  ultimately show ?thesis
    using hs handlers_remove1 [OF assms(2), of s] by (simp add: e s2 add_ac)
qed

lemma check_multi_info_balance:
  "mx_inv s \<Longrightarrow> mx_inv (check_multi_info msgs s) \<and>
    answered (check_multi_info msgs s) + handlers (check_multi_info msgs s) (mx_connections (check_multi_info msgs s)) =
    answered s + handlers s (mx_connections s)"
proof (induction msgs s rule: check_multi_info.induct)
  case (3 c result code cbs msgs s)
  show ?case
  proof (cases "c \<in> set (mx_connections s)")
    case True
    have f: "mx_inv (finish_request c result code cbs s) \<and>
        answered (finish_request c result code cbs s) + handlers (finish_request c result code cbs s)
          (mx_connections (finish_request c result code cbs s)) = answered s + handlers s (mx_connections s)"
      using finish_request_balance [OF 3(3) True refl, of result code cbs] by blast
    with 3(2) True show ?thesis by simp
  next
    case False
    have same: "same_requests s (multi_remove_handle c cbs s)" by (rule same_requests_remove)
    have "mx_connections (multi_remove_handle c cbs s) = mx_connections s" using same by (simp add: same_requests_def)
    with False 3(1) mx_inv_same [OF same 3(3)] show ?thesis
      by (simp add: handlers_same [OF same] answered_same [OF same])
  qed
qed simp_all

lemma respond_effect:
  "mx_inv (respond h ec response s) = mx_inv s" "mx_connections (respond h ec response s) = mx_connections s"
  "handlers (respond h ec response s) cs = handlers s cs"
  "answered (respond h ec response s) = answered s + (case h of None \<Rightarrow> {#} | Some h \<Rightarrow> {#h#})"
  by (auto simp: respond_def mx_emit_def mx_inv_def handlers_def handler_of_def answered_def responses_def
      split: option.split)

lemma same_requests_setopts: "same_requests s (setopts easy opts s)"
proof -
  have "concat (map (response_of \<circ> Easy_setopt easy) opts) = []" by (induction opts) simp_all
  then show ?thesis by (simp add: setopts_def same_requests_def responses_def handler_of_def)
qed

text \<open>
  The three ways a request can start: rejected before curl sees it, refused by \<^verbatim>\<open>curl_multi_add_handle\<close>, or
  accepted.
\<close>

definition added :: "start_replies \<Rightarrow> nat \<Rightarrow> 'h mx_client \<Rightarrow> 'h mx_client" where
  "added r c v =
     (let s3 = run_cbs (reply_cbs (add_reply r)) v
      in socket_action Multi_timeout_action (action_reply r)
           (s3\<lparr>mx_pending := mx_pending s3 + 1, mx_connections := mx_connections s3 @ [c]\<rparr>))"

definition reaches_curl :: "start_replies \<Rightarrow> mx_method \<Rightarrow> 'h mx_client \<Rightarrow> bool" where
  "reaches_curl r meth s \<longleftrightarrow> mx_multi s \<and> easy_init_ok r \<and> to_curl_method meth \<noteq> None"

lemma start_request_cases:
  assumes "t = start_request r c meth conn s"
  obtains (rejected) ec v where "\<not> reaches_curl r meth s" "same_requests s v" "mx_conns v = mx_conns s"
      "t = respond (cn_handler conn) ec no_response v"
    | (refused) v where "reaches_curl r meth s" "same_requests s v" "mx_conns v = mx_conns s"
      "\<not> reply_ok (add_reply r)"
      "t = respond (cn_handler conn) (Some io_error) no_response (run_cbs (reply_cbs (add_reply r)) v)"
    | (accepted) v where "reaches_curl r meth s" "same_requests s v" "mx_conns v = mx_conns s"
      "reply_ok (add_reply r)"
      "t = check_multi_info (if reply_ok (action_reply r) then reply_msgs (action_reply r) else []) (added r c v)"
proof (cases "reaches_curl r meth s")
  case True
  then obtain opts where opts: "method_options meth (cn_body conn) = Some opts"
    by (cases meth) (auto simp: reaches_curl_def)
  define v where "v = mx_emit (Multi_add_handle c)
    (setopts c (easy_options c conn (mx_ca_certificate_file s)) (setopts c opts s))"
  have v: "same_requests s v" "mx_conns v = mx_conns s"
    unfolding v_def
    by (rule same_requests_trans [OF same_requests_trans [OF same_requests_setopts same_requests_setopts]
          same_requests_emit]) (simp_all add: mx_emit_def setopts_def)
  have "t = (if \<not> reply_ok (add_reply r)
      then respond (cn_handler conn) (Some io_error) no_response (run_cbs (reply_cbs (add_reply r)) v)
      else check_multi_info (if reply_ok (action_reply r) then reply_msgs (action_reply r) else []) (added r c v))"
    using True opts by (auto simp: assms start_request_def reaches_curl_def apply_method_def configure_easy_handle_def
        v_def added_def Let_def setopts_def)
  with refused [OF True v] accepted [OF True v] show thesis by (simp split: if_splits)
next
  case False
  from False show thesis
    by (intro rejected [of s "if \<not> mx_multi s then Some operation_not_permitted
        else if \<not> easy_init_ok r then Some resource_unavailable_try_again else Some invalid_argument"])
      (auto simp: assms start_request_def reaches_curl_def apply_method_def)
qed

text \<open>A request whose connection context \<open>c\<close> is new: it is answered or becomes outstanding.\<close>

lemma added_balance:
  assumes "mx_inv s" and "c < mx_next s" and "c \<notin> set (mx_connections s)" and "handler_of s c = Some h"
    and "same_requests s v"
  shows "mx_inv (added r c v) \<and> mx_connections (added r c v) = mx_connections s @ [c] \<and>
    handler_of (added r c v) = handler_of s \<and>
    answered (added r c v) + handlers (added r c v) (mx_connections (added r c v)) =
      answered s + handlers s (mx_connections s) + (case h of None \<Rightarrow> {#} | Some h \<Rightarrow> {#h#})"
proof -
  define s3 where "s3 = run_cbs (reply_cbs (add_reply r)) v"
  define s4 where "s4 = s3\<lparr>mx_pending := mx_pending s3 + 1, mx_connections := mx_connections s3 @ [c]\<rparr>"
  have 3: "same_requests s s3"
    unfolding s3_def by (rule same_requests_trans [OF assms(5) same_requests_cbs])
  have s4: "mx_connections s4 = mx_connections s @ [c]" "handler_of s4 = handler_of s" "answered s4 = answered s"
      "mx_pending s4 = mx_pending s + 1" "mx_next s \<le> mx_next s4"
    using 3 by (simp_all add: s4_def same_requests_def handler_of_def answered_def responses_def)
  have inv4: "mx_inv s4"
    using assms(1-4) s4 by (auto simp: mx_inv_def)
  have bal4: "answered s4 + handlers s4 (mx_connections s4) = answered s + handlers s (mx_connections s) +
      (case h of None \<Rightarrow> {#} | Some h \<Rightarrow> {#h#})"
    using assms(4) by (auto simp: s4 handlers_def split: option.split)
  have 5: "same_requests s4 (added r c v)"
    unfolding added_def Let_def s3_def [symmetric] s4_def [symmetric] by (rule same_requests_action) simp
  then have "mx_connections (added r c v) = mx_connections s4" "handler_of (added r c v) = handler_of s4"
    by (simp_all add: same_requests_def)
  with mx_inv_same [OF 5 inv4] bal4 s4(1,2) show ?thesis
    by (simp add: handlers_same [OF 5] answered_same [OF 5])
qed

lemma start_request_balance:
  assumes "mx_inv s" and "c < mx_next s" and "c \<notin> set (mx_connections s)" and "handler_of s c = Some (cn_handler conn)"
    and "t = start_request r c method conn s"
  shows "mx_inv t \<and> answered t + handlers t (mx_connections t) =
    answered s + handlers s (mx_connections s) + (case cn_handler conn of None \<Rightarrow> {#} | Some h \<Rightarrow> {#h#})"
proof -
  have answered_now: "mx_inv w \<and> answered w + handlers w (mx_connections w) =
      answered s + handlers s (mx_connections s) + (case cn_handler conn of None \<Rightarrow> {#} | Some h \<Rightarrow> {#h#})"
    if "same_requests s v" "w = respond (cn_handler conn) ec no_response v" for v w ec
    using mx_inv_same [OF that(1) assms(1)] that(1)
    by (simp add: that(2) respond_effect handlers_same [OF that(1)] answered_same [OF that(1)] same_requests_def add_ac)
  from assms(5) show ?thesis
  proof (cases rule: start_request_cases)
    case (rejected ec v)
    then show ?thesis by (intro answered_now)
  next
    case (refused v)
    from same_requests_trans [OF this(2) same_requests_cbs] this(5) show ?thesis by (rule answered_now)
  next
    case (accepted v)
    note a = added_balance [OF assms(1-4) accepted(2), of r]
    with check_multi_info_balance [of "added r c v"] accepted(5) show ?thesis by metis
  qed
qed

lemma mx_do_request_balance:
  assumes "mx_inv s" and "t = mx_do_request r a s"
  shows "mx_inv t \<and> answered t + handlers t (mx_connections t) =
    answered s + handlers s (mx_connections s) + (case arg_handler a of None \<Rightarrow> {#} | Some h \<Rightarrow> {#h#})"
proof (cases "to_curl_method (arg_method a)")
  case None
  then show ?thesis using assms by (simp add: mx_do_request_def respond_effect add_ac)
next
  case (Some m)
  let ?c = "mx_next s"
  define s1 where "s1 = s\<lparr>mx_next := Suc ?c, mx_conns := (mx_conns s)(?c \<mapsto> new_conn a)\<rparr>"
  have h: "handler_of s1 = (handler_of s)(?c := Some (arg_handler a))"
    by (simp add: s1_def handler_of_def new_conn_def fun_eq_iff)
  have new: "?c \<notin> set (mx_connections s)" using assms(1) by (auto simp: mx_inv_def)
  have same: "mx_connections s1 = mx_connections s" "answered s1 = answered s" "mx_next s1 = Suc ?c"
      "mx_pending s1 = mx_pending s"
    by (simp_all add: s1_def answered_def responses_def)
  have inv1: "mx_inv s1"
    using assms(1) by (auto simp: mx_inv_def h same less_Suc_eq)
  have "handlers s1 (mx_connections s) = handlers s (mx_connections s)"
    using new by (intro handlers_cong) (auto simp: h)
  moreover have "t = start_request r ?c (arg_method a) (new_conn a) s1"
    using Some by (simp add: assms(2) mx_do_request_def s1_def Let_def)
  moreover have "cn_handler (new_conn a) = arg_handler a" by (simp add: new_conn_def)
  ultimately show ?thesis
    using start_request_balance [OF inv1, of ?c "new_conn a" t r "arg_method a"] new
    by (simp add: same h)
qed

text \<open>The cancellation loop answers every outstanding request, in the order of the loop.\<close>

definition cancelled_answer :: "'h mx_client \<Rightarrow> nat \<Rightarrow> ('h \<times> error_code \<times> mx_response) list" where
  "cancelled_answer s c =
     (case handler_of s c of Some (Some h) \<Rightarrow> [(h, Some operation_canceled, no_response)] | _ \<Rightarrow> [])"

lemma cancel_loop_effect:
  assumes "distinct cs" and "\<forall>c \<in> set cs. handler_of s c \<noteq> None" and "t = cancel_loop cbs cs s"
  shows "responses t = responses s @ concat (map (cancelled_answer s) cs) \<and>
    mx_connections t = mx_connections s \<and> mx_next s \<le> mx_next t \<and>
    (\<forall>c. handler_of t c = (if c \<in> set cs then Some None else handler_of s c))"
  using assms
proof (induction cs arbitrary: s)
  case (Cons c cs)
  define s1 where "s1 = (if mx_multi s then multi_remove_handle c (cbs c) s else s)"
  have same: "same_requests s s1" by (simp add: s1_def same_requests_remove)
  have "handler_of s1 c \<noteq> None" using Cons.prems(2) same by (simp add: same_requests_def)
  then obtain conn where conn: "mx_conns s1 c = Some conn" by (auto simp: handler_of_def)
  define s2 where "s2 = answer c conn (Some operation_canceled) no_response s1"
  note e = answer_effect [OF s2_def conn]
  have t: "t = cancel_loop cbs cs s2"
    using conn by (simp add: Cons.prems(3) Let_def s1_def [symmetric] s2_def answer_def)
  have h2: "handler_of s2 = (handler_of s)(c := Some None)" using e(5) same by (simp add: same_requests_def)
  have "\<forall>d \<in> set cs. handler_of s2 d \<noteq> None" using Cons.prems(2) by (simp add: h2)
  from Cons.IH [OF _ this t] Cons.prems(1)
  have IH: "responses t = responses s2 @ concat (map (cancelled_answer s2) cs)" "mx_connections t = mx_connections s2"
      "mx_next s2 \<le> mx_next t" "\<forall>d. handler_of t d = (if d \<in> set cs then Some None else handler_of s2 d)"
    by simp_all
  have "concat (map (cancelled_answer s2) cs) = concat (map (cancelled_answer s) cs)"
    using Cons.prems(1) by (intro arg_cong [of _ _ concat] map_cong) (auto simp: cancelled_answer_def h2)
  moreover have "responses s2 = responses s @ cancelled_answer s c"
  proof -
    have "handler_of s1 c = Some (cn_handler conn)" using conn by (simp add: handler_of_def)
    then have "handler_of s c = Some (cn_handler conn)" using same by (simp add: same_requests_def)
    then show ?thesis using e(6) same by (simp add: cancelled_answer_def same_requests_def split: option.split)
  qed
  ultimately have "responses t = responses s @ concat (map (cancelled_answer s) (c # cs))"
    using IH(1) by simp
  moreover have "mx_connections t = mx_connections s" "mx_next s \<le> mx_next t"
    using IH(2,3) e(1,4) same by (auto simp: same_requests_def)
  moreover have "\<forall>d. handler_of t d = (if d \<in> set (c # cs) then Some None else handler_of s d)"
    using IH(4) h2 by simp
  ultimately show ?case by blast
qed (simp)

lemma close_all_same: "same_requests s (close_all_sockets s)"
proof -
  have "same_requests s (fold (\<lambda>entry s. close_tcp_socket (snd entry) s) es s)" for es and s :: "'a mx_client"
  proof (induction es arbitrary: s)
    case (Cons e es)
    show ?case using same_requests_trans [OF same_requests_close Cons.IH] by simp
  qed simp
  then show ?thesis by (simp add: close_all_sockets_def)
qed

lemma answered_cancelled: "mset (map fst (concat (map (cancelled_answer s) cs))) = handlers s cs"
  by (induction cs) (simp_all add: handlers_Cons cancelled_answer_def split: option.split, simp add: handlers_def)

lemma mx_do_cancel_effect:
  assumes "mx_inv s" and "t = mx_do_cancel cbs s"
  shows "mx_inv t" and "mx_connections t = []" and "mx_pending t = 0" and "mx_socket_map t = []"
    and "responses t = responses s @ concat (map (cancelled_answer s) (mx_connections s))"
proof -
  let ?s = "(timer_cancel s)\<lparr>mx_connections := []\<rparr>"
  define s2 where "s2 = cancel_loop cbs (mx_connections s) ?s"
  define s3 where "s3 = close_all_sockets (s2\<lparr>mx_pending := 0\<rparr>)"
  have h: "handler_of ?s = handler_of s" "responses ?s = responses s"
    by (simp_all add: handler_of_def responses_def mx_emit_def)
  have "\<forall>c \<in> set (mx_connections s). handler_of ?s c \<noteq> None" using assms(1) by (simp add: h mx_inv_def)
  from cancel_loop_effect [OF _ this s2_def] assms(1)
  have s2: "responses s2 = responses s @ concat (map (cancelled_answer ?s) (mx_connections s))"
      "mx_connections s2 = []" "mx_next s \<le> mx_next s2"
      "\<forall>c. handler_of s2 c = (if c \<in> set (mx_connections s) then Some None else handler_of s c)"
    by (simp_all add: mx_inv_def h)
  have same: "same_requests (s2\<lparr>mx_pending := 0\<rparr>) s3" unfolding s3_def by (rule close_all_same)
  have t: "t = s3\<lparr>mx_socket_map := [], mx_socket_actions := Map.empty, mx_actions := {}, mx_still_running := 0\<rparr>"
    by (simp add: assms(2) mx_do_cancel_def Let_def s2_def s3_def)
  have h3: "handler_of t = handler_of s2" "responses t = responses s2" "mx_connections t = []" "mx_pending t = 0"
      "mx_next s2 \<le> mx_next t"
    using same s2(2) by (simp_all add: t same_requests_def handler_of_def responses_def)
  have "cancelled_answer ?s = cancelled_answer s" by (simp add: cancelled_answer_def h fun_eq_iff)
  then show "responses t = responses s @ concat (map (cancelled_answer s) (mx_connections s))"
    using h3 s2 by simp
  show "mx_connections t = []" "mx_pending t = 0" "mx_socket_map t = []" using h3 by (simp_all add: t)
  have "c < mx_next t" if "handler_of t c \<noteq> None" for c
  proof -
    have "c < mx_next s" using that assms(1) s2(4) by (auto simp: h3 mx_inv_def split: if_splits)
    then show ?thesis using s2(3) h3(5) by simp
  qed
  then show "mx_inv t" using h3 by (simp add: mx_inv_def)
qed

lemma event_callback_balance:
  assumes "mx_inv s" and "t = event_callback r sid dir s \<or> t = asio_timer_callback ec r s"
  shows "mx_inv t \<and> answered t + handlers t (mx_connections t) = answered s + handlers s (mx_connections s)"
proof -
  let ?ok = "\<lambda>v. mx_inv v \<and> answered v + handlers v (mx_connections v) = answered s + handlers s (mx_connections s)"
  have same: "?ok w" if "same_requests v w" "?ok v" for v w
    using that mx_inv_same [OF that(1)] handlers_same [OF that(1)] answered_same [OF that(1)]
    by (simp add: same_requests_def)
  have chk: "?ok (check_multi_info msgs v)" if "?ok v" for msgs v
    using check_multi_info_balance [of v msgs] that by simp
  have s: "?ok s" using assms(1) by simp
  have act: "?ok (socket_action ev r s)" if "response_of ev = []" for ev
    using same [OF same_requests_action [OF that] s] .
  have served: "?ok (mx_emit (Socket_served fd res n) (socket_action (Multi_socket_action fd a) r s))" for fd a res n
    by (rule same [OF same_requests_emit act]) simp_all
  have "?ok (event_callback r sid dir s)"
    using s served chk same [OF same_requests_cancel(2)] same [OF same_requests_arm]
    by (simp add: event_callback_def Let_def split: option.split)
  moreover have "?ok (asio_timer_callback ec r s)"
    using s act chk by (simp add: asio_timer_callback_def Let_def)
  ultimately show ?thesis using assms(2) by blast
qed

fun requested :: "'h mx_input \<Rightarrow> 'h multiset" where
  "requested (Mx_in_request a r) = (case arg_handler a of None \<Rightarrow> {#} | Some h \<Rightarrow> {#h#})"
| "requested _ = {#}"

lemma mx_step_balance:
  assumes "mx_inv s"
  shows "mx_inv (mx_step s i) \<and> answered (mx_step s i) + handlers (mx_step s i) (mx_connections (mx_step s i)) =
    answered s + handlers s (mx_connections s) + requested i"
proof (cases i)
  case (Mx_in_request a r)
  then show ?thesis using mx_do_request_balance [OF assms refl] by simp
next
  case (Mx_in_cancel cbs)
  note e = mx_do_cancel_effect [OF assms refl, of cbs]
  have "answered (mx_do_cancel cbs s) = answered s + handlers s (mx_connections s)"
    by (simp add: answered_def e(5) answered_cancelled [symmetric])
  then show ?thesis using e by (simp add: Mx_in_cancel handlers_def)
next
  case (Mx_in_set_ca ca)
  have "mx_inv (do_set_ca_certificate ca s) \<and> answered (do_set_ca_certificate ca s) = answered s \<and>
      handlers (do_set_ca_certificate ca s) = handlers s \<and>
      mx_connections (do_set_ca_certificate ca s) = mx_connections s"
    using assms by (simp add: do_set_ca_certificate_def mx_inv_def answered_def responses_def handlers_def
        handler_of_def fun_eq_iff)
  then show ?thesis by (simp add: Mx_in_set_ca)
next
  case (Mx_in_wait j ec r)
  let ?s = "s\<lparr>mx_waits := take j (mx_waits s) @ drop (Suc j) (mx_waits s)\<rparr>"
  have u: "same_requests s ?s" by (rule same_requests_updates)
  have "mx_inv (event_callback r sid dir ?s) \<and> answered (event_callback r sid dir ?s) +
      handlers (event_callback r sid dir ?s) (mx_connections (event_callback r sid dir ?s)) =
      answered s + handlers s (mx_connections s)" for sid dir
    using event_callback_balance [OF mx_inv_same [OF u assms], of _ r sid dir None]
    by (simp add: handlers_same [OF u] answered_same [OF u])
  then show ?thesis using mx_inv_same [OF u assms] assms
    by (simp add: Mx_in_wait handle_socket_wait_def handlers_same [OF u] answered_same [OF u])
next
  case (Mx_in_timer j ec r)
  define v where "v = s\<lparr>mx_timer_waits := take j (mx_timer_waits s) @ drop (Suc j) (mx_timer_waits s)\<rparr>"
  have u: "same_requests s v" unfolding v_def by (rule same_requests_updates)
  have "mx_connections v = mx_connections s" by (simp add: v_def)
  then have "mx_inv (asio_timer_callback ec r v) \<and> answered (asio_timer_callback ec r v) +
      handlers (asio_timer_callback ec r v) (mx_connections (asio_timer_callback ec r v)) =
      answered s + handlers s (mx_connections s)"
    using event_callback_balance [OF mx_inv_same [OF u assms], of "asio_timer_callback ec r v" r 0 Wait_read ec]
    by (simp add: handlers_same [OF u] answered_same [OF u])
  then show ?thesis using assms by (simp add: Mx_in_timer v_def)
qed

interpretation ms: request_service mx_step mx_inv answered "\<lambda>s. handlers s (mx_connections s)" requested
  using mx_step_balance by unfold_locales blast+

lemma mx_run_foldl: "mx_run s is = foldl mx_step s is"
  by (induction "is" arbitrary: s) simp_all

lemma mx_run_balance:
  "mx_inv s \<Longrightarrow> mx_inv (mx_run s is) \<and> answered (mx_run s is) + handlers (mx_run s is) (mx_connections (mx_run s is)) =
    answered s + handlers s (mx_connections s) + sum_list (map requested is)"
  unfolding mx_run_foldl by (intro conjI ms.run_inv ms.run_balance)

lemma responses_new: "responses (new_mx_client once ok) = []"
  by (auto simp: responses_def new_mx_client_def ensure_curl_global_init_def multi_options_def)

lemma mx_inv_new: "mx_inv (new_mx_client once ok)"
  by (simp add: mx_inv_def new_mx_client_def handler_of_def)


section \<open>Properties\<close>

text \<open>
  C5: every response handler is called exactly once and the pending count is right. After any sequence
  of requests, cancellations, socket events and timer events, with any behaviour of curl, the handlers
  that were called and those of the outstanding requests are exactly the handlers that were passed to
  \<^verbatim>\<open>request\<close>, as multisets; and \<^verbatim>\<open>pending_count()\<close> is the number of outstanding requests (modulo the
  width of the counter).
\<close>

theorem mx_handler_exactly_once:
  fixes inputs :: "'h mx_input list"
  shows "answered (mx_run (new_mx_client once ok) inputs) +
     handlers (mx_run (new_mx_client once ok) inputs) (mx_connections (mx_run (new_mx_client once ok) inputs)) =
     sum_list (map requested inputs) \<and>
   pending_count (mx_run (new_mx_client once ok) inputs) = of_nat (length (mx_connections (mx_run (new_mx_client once ok) inputs)))"
proof -
  let ?s = "new_mx_client once ok :: 'h mx_client"
  have "answered ?s = {#}" "mx_connections ?s = []"
    by (simp_all add: answered_def responses_new) (simp add: new_mx_client_def)
  then show ?thesis
    using mx_run_balance [OF mx_inv_new, of once ok inputs] by (simp add: handlers_def mx_inv_def pending_count_def)
qed

text \<open>
  C31: cancelling ends everything. \<^verbatim>\<open>do_cancel\<close> calls the handler of every outstanding request exactly
  once, with \<^verbatim>\<open>operation_canceled\<close> and an empty response, and no other handler; afterwards no request is
  outstanding, the client is not busy and no socket is kept, whatever curl does while its handles are
  removed. A message that curl delivers later for a cancelled request has no effect on the handlers.
\<close>

theorem mx_cancel_ends_requests:
  fixes s t :: "'h mx_client"
  assumes "s = mx_run (new_mx_client once ok) inputs" and "t = mx_do_cancel cbs s"
  shows "responses t = responses s @ concat (map (cancelled_answer s) (mx_connections s)) \<and>
    \<not> mx_is_busy t \<and> mx_connections t = [] \<and> mx_socket_map t = [] \<and>
    responses (check_multi_info msgs t) = responses t"
proof -
  have "mx_inv s" unfolding assms(1) using mx_run_balance [OF mx_inv_new] by blast
  note e = mx_do_cancel_effect [OF this assms(2)]
  have "mx_connections v = [] \<Longrightarrow> responses (check_multi_info msgs v) = responses v" for v :: "'h mx_client"
  proof (induction msgs v rule: check_multi_info.induct)
    case (3 c result code cbs msgs v)
    have "same_requests v (multi_remove_handle c cbs v)" by (rule same_requests_remove)
    then show ?case using 3 by (simp add: same_requests_def)
  qed simp_all
  with e show ?thesis by (simp add: mx_is_busy_def pending_count_def)
qed

definition plain_reply :: curl_reply where
  "plain_reply = \<lparr>reply_ok = True, reply_running = 1, reply_cbs = [], reply_msgs = []\<rparr>"

definition plain_start :: start_replies where
  "plain_start = \<lparr>easy_init_ok = True, add_reply = plain_reply, action_reply = plain_reply\<rparr>"

lemma one_request:
  fixes s defines "s \<equiv> mx_run (new_mx_client False True)
    [Mx_in_request (mx_get_args ''h'' ''443'' ''/'' 0 (Some (7 :: nat))) plain_start]"
  shows "mx_connections s = [0]" and "handler_of s 0 = Some (Some 7)" and "responses s = []"
    and "mx_multi s = True" and "mx_sockets s = Map.empty"
  by (simp_all add: s_def new_mx_client_def mx_do_request_def mx_get_args_def new_conn_def start_request_def
      plain_start_def plain_reply_def apply_method_def configure_easy_handle_def setopts_def socket_action_def
      mx_emit_def easy_options_def handler_of_def responses_def Let_def
      ensure_curl_global_init_def multi_options_def)

theorem mx_cancel_ends_requests_witness:
  "responses (mx_do_cancel (\<lambda>_. []) (mx_run (new_mx_client False True)
     [Mx_in_request (mx_get_args ''h'' ''443'' ''/'' 0 (Some (7 :: nat))) plain_start])) =
   [(7, Some operation_canceled, no_response)]"
  using mx_cancel_ends_requests [OF refl refl, where once = False and ok = True and inputs = "[Mx_in_request
      (mx_get_args ''h'' ''443'' ''/'' 0 (Some (7 :: nat))) plain_start]" and cbs = "\<lambda>_. []"] one_request
  by (simp add: cancelled_answer_def del: mx_run.simps mx_step.simps)

text \<open>
  Delivering a result. When curl reports an outstanding request as done, its handler, and only
  this one, is called: on success with the response code and with the body and the headers as curl
  delivered them, on failure with the error that \<^verbatim>\<open>from_curl_code\<close> gives for the result and an empty
  response; the request is no longer outstanding and every other outstanding request stays as it is.
\<close>

theorem mx_result_delivered:
  assumes "s = mx_run (new_mx_client once ok) inputs" and "c \<in> set (mx_connections s)"
    and "mx_conns (multi_remove_handle c cbs (s\<lparr>mx_connections := remove1 c (mx_connections s)\<rparr>)) c = Some conn"
    and "t = check_multi_info [Msg_done c result code cbs] s"
  shows "responses t = responses s @ (case cn_handler conn of None \<Rightarrow> [] | Some h \<Rightarrow>
      [(h, from_curl_code result,
        if result = Curle_ok
        then \<lparr>mx_status_code = code mod 2 ^ 32, mx_body = cn_response_body conn, mx_headers = cn_response_headers conn\<rparr>
        else no_response)]) \<and>
    mx_connections t = remove1 c (mx_connections s) \<and>
    (\<forall>d. d \<noteq> c \<longrightarrow> handler_of t d = handler_of s d)"
proof -
  let ?s0 = "s\<lparr>mx_connections := remove1 c (mx_connections s)\<rparr>"
  define s1 where "s1 = multi_remove_handle c cbs ?s0"
  have same: "same_requests ?s0 s1" unfolding s1_def by (rule same_requests_remove)
  let ?s2 = "s1\<lparr>mx_pending := mx_pending s1 - 1\<rparr>"
  have conn: "mx_conns ?s2 c = Some conn" using assms(3) by (simp add: s1_def)
  have t: "t = answer c conn (from_curl_code result) (if result = Curle_ok
      then \<lparr>mx_status_code = code mod 2 ^ 32, mx_body = cn_response_body conn, mx_headers = cn_response_headers conn\<rparr>
      else no_response) ?s2"
    using assms(2) conn by (simp add: assms(4) finish_request_def Let_def s1_def [symmetric] answer_def)
  have "responses ?s2 = responses s" "mx_connections ?s2 = remove1 c (mx_connections s)" "handler_of ?s2 = handler_of s"
    using same by (simp_all add: same_requests_def responses_def handler_of_def)
  with answer_effect [OF t conn] show ?thesis by simp
qed

theorem mx_result_delivered_witness:
  "responses (check_multi_info [Msg_done 0 Curle_operation_timedout 0 []]
     (mx_run (new_mx_client False True) [Mx_in_request (mx_get_args ''h'' ''443'' ''/'' 0 (Some (7 :: nat))) plain_start])) =
   [(7, Some timed_out, no_response)]"
proof -
  let ?s = "mx_run (new_mx_client False True) [Mx_in_request (mx_get_args ''h'' ''443'' ''/'' 0 (Some (7 :: nat))) plain_start]"
  obtain conn where conn: "mx_conns ?s 0 = Some conn" "cn_handler conn = Some 7"
    using one_request(2) by (auto simp: handler_of_def simp del: mx_run.simps mx_step.simps)
  have "0 \<in> set (mx_connections ?s)" using one_request(1) by (simp del: mx_run.simps mx_step.simps)
  moreover have "mx_conns (multi_remove_handle 0 [] (?s\<lparr>mx_connections := remove1 0 (mx_connections ?s)\<rparr>)) 0 = Some conn"
    using conn by (simp add: multi_remove_handle_def mx_emit_def del: mx_run.simps mx_step.simps)
  ultimately show ?thesis
    using mx_result_delivered [OF refl _ _ refl, where c = 0 and once = False and ok = True and inputs = "[Mx_in_request
        (mx_get_args ''h'' ''443'' ''/'' 0 (Some (7 :: nat))) plain_start]" and cbs = "[]" and conn = conn
        and result = Curle_operation_timedout and code = 0]
      conn one_request(3)
    by (simp del: mx_run.simps mx_step.simps check_multi_info.simps)
qed


section \<open>What a request asks of curl\<close>

definition extends_trace :: "'h mx_client \<Rightarrow> 'h mx_client \<Rightarrow> bool" where
  "extends_trace s t \<longleftrightarrow> (\<exists>es. mx_trace t = mx_trace s @ es)"

lemma extends_trace_refl [simp]: "extends_trace s s"
  by (simp add: extends_trace_def)

lemma extends_trace_trans: "extends_trace s t \<Longrightarrow> extends_trace t v \<Longrightarrow> extends_trace s v"
  by (auto simp: extends_trace_def)

text \<open>Events that record what curl says to the client, and what the callbacks of the client do.\<close>

fun curl_speaks :: "'h mx_event \<Rightarrow> bool" where
  "curl_speaks (Curl_called cb) = True"
| "curl_speaks (Socket_served fd ok running) = True"
| "curl_speaks _ = False"

fun callback_effect :: "'h mx_event \<Rightarrow> bool" where
  "callback_effect (Multi_assign fd a) = True"
| "callback_effect Timer_cancel = True"
| "callback_effect (Timer_after t) = True"
| "callback_effect (Socket_cancel sid) = True"
| "callback_effect (Socket_close sid) = True"
| "callback_effect (Socket_wait sid dir) = True"
| "callback_effect _ = False"

definition by_callbacks :: "'h mx_client \<Rightarrow> 'h mx_client \<Rightarrow> bool" where
  "by_callbacks s t \<longleftrightarrow> (\<exists>es. mx_trace t = mx_trace s @ es \<and> list_all callback_effect es)"

lemma by_callbacks_refl [simp]: "by_callbacks s s"
  by (simp add: by_callbacks_def)

lemma by_callbacks_trans: "by_callbacks s t \<Longrightarrow> by_callbacks t v \<Longrightarrow> by_callbacks s v"
  by (auto simp: by_callbacks_def)

lemma by_callbacks_extends: "by_callbacks s t \<Longrightarrow> extends_trace s t"
  by (auto simp: by_callbacks_def extends_trace_def)

lemma by_callbacks_arm: "by_callbacks s (arm_socket_watches sid action s)"
  by (simp add: arm_socket_watches_def watch_def mx_emit_def by_callbacks_def Let_def)

lemma by_callbacks_set_socket: "by_callbacks s (fst (handle_set_socket fd action a s))"
proof -
  have "by_callbacks s (arm_socket_watches sid action (socket_cancel sid (s\<lparr>mx_action_values := x, mx_socket_actions := y\<rparr>)))"
    for sid x y
    by (rule by_callbacks_trans [OF _ by_callbacks_arm]) (simp add: by_callbacks_def)
  then show ?thesis by (simp add: handle_set_socket_def Let_def split: option.split)
qed

lemma by_callbacks_add_socket: "by_callbacks s (fst (handle_add_socket fd action ok s))"
proof -
  let ?s1 = "s\<lparr>mx_next := Suc (mx_next s), mx_action_values := (mx_action_values s)(mx_next s \<mapsto> Poll_none)\<rparr>"
  have "by_callbacks ?s1 (fst (handle_set_socket fd action (mx_next s) ?s1))" by (rule by_callbacks_set_socket)
  then show ?thesis
    by (auto simp: handle_add_socket_def Let_def case_prod_beta by_callbacks_def mx_emit_def)
qed

lemma by_callbacks_cb: "by_callbacks s (run_cb cb s)"
proof (cases cb)
  case (Cb_socket fd what actionp ok)
  have "by_callbacks s (fst (handle_remove_socket actionp (s\<lparr>mx_socket_actions := x\<rparr>)))" for x
    by (simp add: handle_remove_socket_def by_callbacks_def split: option.split)
  then show ?thesis
    by (simp add: Cb_socket handle_socket_event_def by_callbacks_add_socket by_callbacks_set_socket
        split: option.split)
qed (auto simp: handle_timeout_event_def handle_open_socket_def handle_close_socket_def close_tcp_socket_def
    write_callback_def header_callback_def Let_def by_callbacks_def mx_emit_def split: option.split)

lemma extends_trace_cbs: "extends_trace s (run_cbs cbs s)"
proof (induction cbs arbitrary: s)
  case (Cons cb cbs)
  have "extends_trace s (mx_emit (Curl_called cb) s)" by (simp add: extends_trace_def mx_emit_def)
  from extends_trace_trans [OF extends_trace_trans [OF this by_callbacks_extends [OF by_callbacks_cb]] Cons.IH]
  show ?case by simp
qed simp

lemma extends_trace_remove: "extends_trace s (multi_remove_handle c cbs s)"
  unfolding multi_remove_handle_def
  by (rule extends_trace_trans [OF _ extends_trace_cbs]) (simp add: mx_emit_def extends_trace_def)

lemma extends_trace_respond: "extends_trace s (respond h ec response s)"
  by (simp add: respond_def mx_emit_def extends_trace_def split: option.split)

lemma extends_trace_finish: "extends_trace s (finish_request c result code cbs s)"
proof -
  let ?s0 = "s\<lparr>mx_connections := remove1 c (mx_connections s)\<rparr>"
  have "extends_trace ?s0 (multi_remove_handle c cbs ?s0)" by (rule extends_trace_remove)
  then have "extends_trace s ((multi_remove_handle c cbs ?s0)\<lparr>mx_pending := x\<rparr>)"
    "extends_trace s ((multi_remove_handle c cbs ?s0)\<lparr>mx_pending := x, mx_conns := y\<rparr>)" for x y
    by (simp_all add: extends_trace_def)
  then show ?thesis
    by (simp add: finish_request_def Let_def extends_trace_trans [OF _ extends_trace_respond] split: option.split)
qed

lemma extends_trace_check: "extends_trace s (check_multi_info msgs s)"
  by (induction msgs s rule: check_multi_info.induct)
    (auto intro: extends_trace_trans [OF extends_trace_remove] extends_trace_trans [OF extends_trace_finish])

text \<open>
  What a request asks of curl. A request on a working client hands curl a new easy handle on which,
  before it is added, exactly these options were set: the method with its body and the size of the body,
  the URL \<^verbatim>\<open>https://host:port/target\<close>, the total timeout (0, none, unless positive), the connect timeout
  (the total timeout, or 5 s), the CA file if one was set, and the headers as \<^verbatim>\<open>name: value\<close> lines. A method
  outside the enumeration is answered with \<^verbatim>\<open>invalid_argument\<close> and reaches curl in no way.
\<close>

theorem mx_request_configured:
  assumes "t = mx_do_request r a s"
  shows "case method_options (arg_method a) (arg_body a) of
      None \<Rightarrow> t = respond (arg_handler a) (Some invalid_argument) no_response s
    | Some opts \<Rightarrow> mx_multi s \<and> easy_init_ok r \<longrightarrow>
        (\<exists>es. mx_trace t = mx_trace s @ map (Easy_setopt (mx_next s))
           (opts @ easy_options (mx_next s) (new_conn a) (mx_ca_certificate_file s)) @
           [Multi_add_handle (mx_next s)] @ es)"
proof (cases "method_options (arg_method a) (arg_body a)")
  case None
  then have "to_curl_method (arg_method a) = None" by (cases "arg_method a") simp_all
  with None show ?thesis by (simp add: assms mx_do_request_def)
next
  case (Some opts)
  then obtain m where m: "to_curl_method (arg_method a) = Some m" by (cases "arg_method a") simp_all
  let ?c = "mx_next s" and ?s1 = "s\<lparr>mx_next := Suc (mx_next s), mx_conns := (mx_conns s)(mx_next s \<mapsto> new_conn a)\<rparr>"
  define s2 where "s2 = mx_emit (Multi_add_handle ?c) (setopts ?c
    (easy_options ?c (new_conn a) (mx_ca_certificate_file s)) (setopts ?c opts ?s1))"
  have t2: "extends_trace s2 t" if ok: "mx_multi s" "easy_init_ok r"
  proof -
    define s3 where "s3 = run_cbs (reply_cbs (add_reply r)) s2"
    define s4 where "s4 = s3\<lparr>mx_pending := mx_pending s3 + 1, mx_connections := mx_connections s3 @ [?c]\<rparr>"
    define s5 where "s5 = socket_action Multi_timeout_action (action_reply r) s4"
    have body: "cn_body (new_conn a) = arg_body a" by (simp add: new_conn_def)
    have t: "t = (if \<not> reply_ok (add_reply r) then respond (cn_handler (new_conn a)) (Some io_error) no_response s3
        else if reply_ok (action_reply r) then check_multi_info (reply_msgs (action_reply r)) s5 else s5)"
      using m Some ok body
      by (simp add: assms mx_do_request_def start_request_def apply_method_def configure_easy_handle_def Let_def
          s2_def s3_def s4_def s5_def setopts_def)
    have 3: "extends_trace s2 s3" unfolding s3_def by (rule extends_trace_cbs)
    have "extends_trace (mx_emit Multi_timeout_action s4) (run_cbs (reply_cbs (action_reply r)) (mx_emit Multi_timeout_action s4))"
      by (rule extends_trace_cbs)
    then have "extends_trace s3 s5" by (auto simp: s5_def socket_action_def extends_trace_def s4_def mx_emit_def)
    with 3 have 5: "extends_trace s2 s5" by (rule extends_trace_trans)
    show ?thesis
      using 5 extends_trace_trans [OF 3 extends_trace_respond] extends_trace_trans [OF 5 extends_trace_check]
      by (simp add: t)
  qed
  have "mx_trace s2 = mx_trace s @ map (Easy_setopt ?c)
      (opts @ easy_options ?c (new_conn a) (mx_ca_certificate_file s)) @ [Multi_add_handle ?c]"
    by (simp add: s2_def setopts_def mx_emit_def)
  with t2 Some show ?thesis by (auto simp: extends_trace_def)
qed

theorem mx_request_configured_witness:
  "Easy_setopt 0 (Opt_url ''https://h:443/x'') \<in> set (mx_trace (mx_do_request plain_start
     (mx_post_args ''h'' ''443'' ''/x'' ''abc'' 250 (Some (7 :: nat))) (new_mx_client False True))) \<and>
   Easy_setopt 0 (Opt_postfieldsize 3) \<in> set (mx_trace (mx_do_request plain_start
     (mx_post_args ''h'' ''443'' ''/x'' ''abc'' 250 (Some (7 :: nat))) (new_mx_client False True))) \<and>
   Easy_setopt 0 (Opt_timeout_ms 250) \<in> set (mx_trace (mx_do_request plain_start
     (mx_post_args ''h'' ''443'' ''/x'' ''abc'' 250 (Some (7 :: nat))) (new_mx_client False True)))"
  using mx_request_configured [OF refl, of plain_start
      "mx_post_args ''h'' ''443'' ''/x'' ''abc'' 250 (Some (7 :: nat))" "new_mx_client False True"]
  by (auto simp: mx_post_args_def new_mx_client_def plain_start_def post_body_def easy_options_def new_conn_def c_str_def Let_def)

section \<open>Header lines\<close>

definition trimmed :: "string \<Rightarrow> bool" where
  "trimmed v \<longleftrightarrow> v = [] \<or> \<not> is_leading_space (hd v) \<and> \<not> is_trailing_space (last v)"

text \<open>The two loops of \<^verbatim>\<open>trim_header_token\<close> against the list functions that describe their results.\<close>

lemma trim_back_eq: "trim_back v = rev (dropWhile is_trailing_space (rev v))"
proof (induction v rule: rev_induct)
  case (snoc c v)
  then show ?case by (simp add: trim_back.simps [of "v @ [c]"])
qed (simp add: trim_back.simps)

lemma drop_skip_front: "drop (skip_front v n) v = dropWhile is_leading_space (drop n v)"
proof (induction v n rule: skip_front.induct)
  case (1 v n)
  then show ?case
    by (cases "n < length v") (auto simp: skip_front.simps [of v n] Cons_nth_drop_Suc [symmetric])
qed

lemma trim_header_token_strip:
  "trim_header_token v = dropWhile is_leading_space (rev (dropWhile is_trailing_space (rev v)))"
  by (simp add: trim_header_token_def drop_skip_front trim_back_eq)

lemma trim_padded:
  assumes "trimmed v" and "list_all is_leading_space pre" and "list_all is_trailing_space post"
  shows "trim_header_token (pre @ v @ post) = v"
proof (cases v rule: rev_cases)
  case Nil
  have "\<forall>c \<in> set (rev (pre @ post)). is_trailing_space c"
    using assms(2,3) by (auto simp: list_all_iff is_leading_space_def is_trailing_space_def)
  then have "dropWhile is_trailing_space (rev (pre @ post)) = []" by (simp only: dropWhile_eq_Nil_conv)
  then have "trim_header_token (pre @ post) = dropWhile is_leading_space (rev [])"
    unfolding trim_header_token_strip by (rule arg_cong)
  then show ?thesis using Nil by simp
next
  case (snoc w z)
  have "dropWhile is_trailing_space (rev (pre @ v @ post)) = rev (pre @ v)"
    using assms(1,3) snoc by (simp add: dropWhile_append list_all_iff trimmed_def)
  moreover have "dropWhile is_leading_space (pre @ v) = v"
  proof -
    have "v \<noteq> []" using snoc by simp
    then have "dropWhile is_leading_space v = v" using assms(1) by (cases v) (simp_all add: trimmed_def)
    then show ?thesis using assms(2) by (simp add: dropWhile_append2 list_all_iff)
  qed
  ultimately show ?thesis by (simp add: trim_header_token_strip del: rev_append)
qed

abbreviation crlf :: string where
  "crlf \<equiv> [CHR 0x0D, CHR 0x0A]"

text \<open>
  A header that curl sends as it stands: a name without a colon, no white space around name and value, no NUL
  (the line is passed as a C string), no line break, and a value (curl removes a header without one).
\<close>

definition sendable :: "mx_header \<Rightarrow> bool" where
  "sendable h \<longleftrightarrow> mx_name h \<noteq> [] \<and> CHR '':'' \<notin> set (mx_name h) \<and> mx_value h \<noteq> [] \<and>
     trimmed (mx_name h) \<and> trimmed (mx_value h) \<and>
     set (mx_name h @ mx_value h) \<inter> {CHR 0x00, CHR 0x0D, CHR 0x0A} = {}"

lemma line_sent: "sendable h \<Longrightarrow> c_str (header_line h) = header_line h"
  by (auto simp: c_str_def header_line_def sendable_def takeWhile_eq_all_conv)

lemma line_parsed:
  assumes "sendable h"
  shows "parse_header (header_line h @ crlf) = Some h"
proof -
  let ?line = "mx_name h @ CHR '':'' # CHR '' '' # mx_value h @ crlf"
  have h: "mx_name h \<noteq> []" "CHR '':'' \<notin> set (mx_name h)" "trimmed (mx_name h)" "trimmed (mx_value h)"
    using assms by (simp_all add: sendable_def)
  have line: "header_line h @ crlf = ?line" by (simp add: header_line_def)
  have "takeWhile (\<lambda>ch. ch \<noteq> CHR '':'') ?line = mx_name h"
    using h(2) by (subst takeWhile_append2) auto
  moreover have "dropWhile (\<lambda>ch. ch \<noteq> CHR '':'') ?line = CHR '':'' # CHR '' '' # mx_value h @ crlf"
    using h(2) by (subst dropWhile_append2) auto
  moreover have "trim_header_token (mx_name h) = mx_name h"
    using trim_padded [OF h(3), of "[]" "[]"] by simp
  moreover have "trim_header_token (CHR '' '' # mx_value h @ crlf) = mx_value h"
    using trim_padded [OF h(4), of "[CHR '' '']" crlf]
    by (simp add: is_leading_space_def is_trailing_space_def)
  ultimately show ?thesis using h(1) by (simp add: line parse_header_def Let_def)
qed

text \<open>Header lines that curl delivers for a connection, one after the other.\<close>

lemma headers_received:
  assumes "\<forall>h \<in> set hs. sendable h" and "mx_conns s c = Some conn"
  shows "map_option cn_response_headers
      (mx_conns (run_cbs (map (\<lambda>h. Cb_header c (header_line h @ crlf)) hs) s) c) = Some (cn_response_headers conn @ hs)"
  using assms
proof (induction hs arbitrary: s conn)
  case (Cons h hs)
  then have "parse_header (header_line h @ crlf) = Some h" by (simp add: line_parsed)
  then have "mx_conns (run_cb (Cb_header c (header_line h @ crlf)) (mx_emit (Curl_called (Cb_header c (header_line h @ crlf))) s)) c =
      Some (conn\<lparr>cn_response_headers := cn_response_headers conn @ [h]\<rparr>)"
    using Cons.prems(2) by (simp add: header_callback_def mx_emit_def)
  from Cons.IH [OF _ this] Cons.prems(1) show ?case by simp
qed simp

text \<open>
  C40: header lines round trip. When every header of a request is one that curl sends as it stands, the
  lines that curl is given for it, as C strings, are such that a peer which returns them, each with the line end
  of HTTP, makes \<^verbatim>\<open>header_callback\<close> append exactly the headers of the request, in order, to the response
  headers of the connection.
\<close>

theorem header_round_trip:
  assumes "\<forall>h \<in> set (arg_headers a). sendable h" and "cn_curl_headers (new_conn a) = Some sent"
    and "mx_conns s c = Some conn"
  shows "map (\<lambda>line. parse_header (line @ crlf)) sent = map Some (arg_headers a) \<and>
    map_option cn_response_headers (mx_conns (run_cbs (map (\<lambda>line. Cb_header c (line @ crlf)) sent) s) c) =
      Some (cn_response_headers conn @ arg_headers a)"
proof -
  have "sent = map header_line (arg_headers a)"
    using assms(1,2) by (auto simp: new_conn_def line_sent split: if_splits)
  then show ?thesis
    using assms(1) headers_received [OF assms(1,3)] by (simp add: line_parsed comp_def)
qed

definition plain_headers :: "nat mx_args" where
  "plain_headers = (mx_get_args ''h'' ''443'' ''/'' 0 None)\<lparr>arg_headers :=
     [\<lparr>mx_name = ''Host'', mx_value = ''a:1''\<rparr>, \<lparr>mx_name = ''X'', mx_value = ''b c''\<rparr>]\<rparr>"

theorem header_round_trip_witness:
  "map (\<lambda>line. parse_header (line @ crlf)) [''Host: a:1'', ''X: b c''] = map Some (arg_headers plain_headers)"
proof -
  have "\<forall>h \<in> set (arg_headers plain_headers). sendable h"
    by (simp add: plain_headers_def sendable_def trimmed_def is_leading_space_def is_trailing_space_def)
  moreover have "cn_curl_headers (new_conn plain_headers) = Some [''Host: a:1'', ''X: b c'']"
    by (simp add: plain_headers_def new_conn_def mx_get_args_def header_line_def c_str_def)
  moreover have "mx_conns ((new_mx_client False True)\<lparr>mx_conns := [0 \<mapsto> new_conn plain_headers]\<rparr>) 0 = Some (new_conn plain_headers)"
    by simp
  ultimately show ?thesis by (rule header_round_trip [THEN conjunct1])
qed

text \<open>
  C39: \<^verbatim>\<open>trim_header_token\<close> does what its name says. Its two loops compute the same as stripping the blanks at
  the front and the blanks and line ends at the back; the result is a contiguous part of the argument,
  has no such character at either end, and only such characters were removed.
\<close>

theorem trim_header_token_correct:
  "trim_header_token v = dropWhile is_leading_space (rev (dropWhile is_trailing_space (rev v))) \<and>
   trimmed (trim_header_token v) \<and>
   (\<exists>pre post. v = pre @ trim_header_token v @ post \<and> list_all is_leading_space pre \<and> list_all is_trailing_space post)"
proof -
  let ?w = "rev (dropWhile is_trailing_space (rev v))"
  have w: "v = ?w @ rev (takeWhile is_trailing_space (rev v))"
    by (metis rev_append rev_rev_ident takeWhile_dropWhile_id)
  have w2: "?w = takeWhile is_leading_space ?w @ dropWhile is_leading_space ?w" by simp
  have "trimmed (dropWhile is_leading_space ?w)"
  proof (cases "dropWhile is_leading_space ?w = []")
    case False
    then have ne: "?w \<noteq> []" by (metis dropWhile.simps(1))
    have "last (dropWhile is_leading_space ?w) = last ?w" using False w2 by (metis last_appendR)
    moreover have "last ?w = hd (dropWhile is_trailing_space (rev v))" using ne by (simp add: last_rev)
    ultimately show ?thesis using ne False by (simp add: trimmed_def hd_dropWhile)
  qed (simp add: trimmed_def)
  moreover have "v = takeWhile is_leading_space ?w @ dropWhile is_leading_space ?w @ rev (takeWhile is_trailing_space (rev v))"
    using w w2 by (metis append.assoc)
  moreover have "list_all is_leading_space (takeWhile is_leading_space ?w)"
      "list_all is_trailing_space (rev (takeWhile is_trailing_space (rev v)))"
    by (auto simp: list_all_iff dest: set_takeWhileD)
  ultimately show ?thesis unfolding trim_header_token_strip by blast
qed

section \<open>Socket watches\<close>

abbreviation open_wait :: "nat \<Rightarrow> wait_direction \<Rightarrow> socket_wait" where
  "open_wait sid dir \<equiv> \<lparr>sw_socket = sid, sw_dir = dir, sw_cancelled = False\<rparr>"

text \<open>
  A finding. \<^verbatim>\<open>event_callback\<close> re-arms both directions of a socket that curl polls for reading and
  writing, although only the wait that fired is used up. Each write event leaves one more read wait
  outstanding than before, so while curl keeps this interest, the number of read waits grows without
  bound (and each of them calls back into curl when the socket becomes readable).
\<close>

theorem read_waits_accumulate:
  assumes "mx_multi s" and "i < length (mx_waits s)" and "mx_waits s ! i = open_wait sid Wait_write"
    and "mx_sockets s sid = Some \<lparr>sock_fd = fd, sock_open = True\<rparr>" and "mx_socket_actions s fd = Some Poll_inout"
    and "t = mx_step s (Mx_in_wait i None plain_reply)"
  shows "length (filter (\<lambda>w. w = open_wait sid Wait_read) (mx_waits t)) =
           Suc (length (filter (\<lambda>w. w = open_wait sid Wait_read) (mx_waits s))) \<and>
         length (filter (\<lambda>w. w = open_wait sid Wait_write) (mx_waits t)) =
           length (filter (\<lambda>w. w = open_wait sid Wait_write) (mx_waits s)) \<and>
         mx_socket_actions t fd = Some Poll_inout"
proof -
  let ?w = "take i (mx_waits s) @ drop (Suc i) (mx_waits s)"
  have "mx_waits t = ?w @ [open_wait sid Wait_read, open_wait sid Wait_write] \<and> mx_socket_actions t fd = Some Poll_inout"
    using assms(1-5) by (simp add: assms(6) handle_socket_wait_def event_callback_def socket_action_def plain_reply_def
        arm_socket_watches_def watch_def mx_emit_def Let_def)
  then show ?thesis
    using length_filter_remove_nth [OF assms(2), of "\<lambda>w. w = open_wait sid Wait_read"]
      length_filter_remove_nth [OF assms(2), of "\<lambda>w. w = open_wait sid Wait_write"] assms(3)
    by simp
qed

definition polled_client :: "nat mx_client" where
  "polled_client = (new_mx_client False True)\<lparr>mx_sockets := [0 \<mapsto> \<lparr>sock_fd = 5, sock_open = True\<rparr>],
     mx_socket_map := [(5, 0)], mx_socket_actions := [5 \<mapsto> Poll_inout],
     mx_waits := [open_wait 0 Wait_read, open_wait 0 Wait_write]\<rparr>"

theorem read_waits_accumulate_witness:
  "length (filter (\<lambda>w. w = open_wait 0 Wait_read) (mx_waits (mx_step polled_client (Mx_in_wait 1 None plain_reply)))) = 2"
proof -
  have "mx_multi polled_client" "1 < length (mx_waits polled_client)" "mx_waits polled_client ! 1 = open_wait 0 Wait_write"
      "mx_sockets polled_client 0 = Some \<lparr>sock_fd = 5, sock_open = True\<rparr>"
      "mx_socket_actions polled_client 5 = Some Poll_inout"
    by (simp_all add: polled_client_def new_mx_client_def)
  from read_waits_accumulate [OF this refl] show ?thesis
    by (simp add: polled_client_def del: mx_step.simps)
qed

end
