(* ===== verification/Multiplex_Responses.thy ===== *)
theory Multiplex_Responses
  imports Multiplex_Properties
begin

text \<open>
  From bytes to responses: \<^verbatim>\<open>HttpsMultiplexClient\<close> hands each handler the bytes and header lines that curl
  delivered for its transfer, whatever the sizes of the pieces and however the transfers are
  interleaved. The theory follows every callback that curl makes in a run.
\<close>

section \<open>What a connection has received\<close>

definition received :: "'h mx_client \<Rightarrow> nat \<Rightarrow> (string \<times> mx_header list) option" where
  "received s c = map_option (\<lambda>conn. (cn_response_body conn, cn_response_headers conn)) (mx_conns s c)"

text \<open>The body bytes and the headers that a callback brings for the connection \<open>c\<close>.\<close>

fun written :: "nat \<Rightarrow> curl_cb \<Rightarrow> string" where
  "written c (Cb_write d bytes) = (if d = c then bytes else [])"
| "written c _ = []"

fun header_of :: "nat \<Rightarrow> curl_cb \<Rightarrow> mx_header list" where
  "header_of c (Cb_header d line) =
     (if d = c then case parse_header line of None \<Rightarrow> [] | Some h \<Rightarrow> [h] else [])"
| "header_of c _ = []"

definition grow :: "nat \<Rightarrow> curl_cb list \<Rightarrow> (string \<times> mx_header list) option \<Rightarrow> (string \<times> mx_header list) option" where
  "grow c cbs = map_option (\<lambda>(b, hs). (b @ concat (map (written c) cbs), hs @ concat (map (header_of c) cbs)))"

lemma grow_Nil [simp]: "grow c [] x = x"
  by (cases x) (simp_all add: grow_def)

lemma grow_append: "grow c (xs @ ys) x = grow c ys (grow c xs x)"
  by (cases x) (simp_all add: grow_def case_prod_beta)

lemma grow_None [simp]: "grow c cbs None = None" and grow_eq_None [simp]: "grow c cbs x = None \<longleftrightarrow> x = None"
  by (simp_all add: grow_def)

lemma received_cong: "mx_conns t = mx_conns s \<Longrightarrow> received t = received s"
  by (simp add: received_def fun_eq_iff)

lemma received_emit [simp]: "received (mx_emit ev s) = received s"
  by (rule received_cong) (simp add: mx_emit_def)

lemma received_cancel_waits [simp]:
  "received (socket_cancel sid s) = received s" "received (timer_cancel s) = received s"
  by (simp_all add: received_def fun_eq_iff)

lemma received_respond [simp]: "received (respond h ec response s) = received s"
  by (rule received_cong) (simp add: respond_def mx_emit_def split: option.split)

lemma mx_conns_arm [simp]: "mx_conns (arm_socket_watches sid action s) = mx_conns s"
  by (simp add: arm_socket_watches_def watch_def mx_emit_def Let_def)

lemma mx_conns_set_socket [simp]: "mx_conns (fst (handle_set_socket fd action a s)) = mx_conns s"
  by (simp add: handle_set_socket_def mx_emit_def Let_def split: option.split)

lemma mx_conns_socket_event [simp]: "mx_conns (fst (handle_socket_event fd what actionp ok s)) = mx_conns s"
  by (simp add: handle_socket_event_def handle_add_socket_def handle_remove_socket_def mx_emit_def Let_def
      case_prod_beta split: option.split)

lemma received_cb: "received (run_cb cb s) c = grow c [cb] (received s c)"
proof (cases cb)
  case (Cb_socket fd what actionp ok)
  then show ?thesis
    using received_cong [of "run_cb cb s" s] by (cases "received s c") (simp_all add: grow_def)
next
  case (Cb_header d line)
  then show ?thesis
    by (auto simp: header_callback_def received_def grow_def option.map_comp comp_def split: option.split)
qed (auto simp: handle_timeout_event_def handle_open_socket_def handle_close_socket_def close_tcp_socket_def
    write_callback_def mx_emit_def received_def grow_def option.map_comp comp_def Let_def split: option.split)

lemma received_cbs: "received (run_cbs cbs s) c = grow c cbs (received s c)"
proof (induction cbs arbitrary: s)
  case (Cons cb cbs)
  then show ?case using grow_append [of c "[cb]" cbs] by (simp add: received_cb)
qed simp

lemma received_remove: "received (multi_remove_handle d cbs s) c = grow c cbs (received s c)"
  by (simp add: multi_remove_handle_def received_cbs)

lemma received_action: "received (socket_action ev r s) c = grow c (reply_cbs r) (received s c)"
  unfolding socket_action_def
  using received_cbs [of "reply_cbs r" "mx_emit ev s" c] received_emit [of ev s] by (simp add: received_def)

text \<open>The callbacks made while curl's messages are read.\<close>

fun msgs_cbs :: "curl_msg list \<Rightarrow> curl_cb list" where
  "msgs_cbs [] = []"
| "msgs_cbs (Msg_other # msgs) = msgs_cbs msgs"
| "msgs_cbs (Msg_done c result code cbs # msgs) = cbs @ msgs_cbs msgs"

lemma received_finish: "received (finish_request d result code cbs s) c = grow c cbs (received s c)"
proof -
  define s1 where "s1 = multi_remove_handle d cbs (s\<lparr>mx_connections := remove1 d (mx_connections s)\<rparr>)"
  have "received s1 c = grow c cbs (received s c)"
    unfolding s1_def received_remove by (simp add: received_def)
  moreover have "received (finish_request d result code cbs s) c = received s1 c"
    unfolding finish_request_def Let_def s1_def [symmetric]
    by (auto simp: respond_def mx_emit_def received_def split: option.split)
  ultimately show ?thesis by simp
qed

lemma received_check: "received (check_multi_info msgs s) c = grow c (msgs_cbs msgs) (received s c)"
  by (induction msgs s rule: check_multi_info.induct)
    (simp_all add: grow_append received_finish received_remove)

definition reply_callbacks :: "curl_reply \<Rightarrow> curl_cb list" where
  "reply_callbacks r = reply_cbs r @ (if reply_ok r then msgs_cbs (reply_msgs r) else [])"

text \<open>All callbacks that are run when the client \<open>s\<close> processes an input, and in a run, in order.\<close>

fun step_callbacks :: "'h mx_client \<Rightarrow> 'h mx_input \<Rightarrow> curl_cb list" where
  "step_callbacks s (Mx_in_request a r) =
     (if reaches_curl r (arg_method a) s
      then reply_cbs (add_reply r) @ (if reply_ok (add_reply r) then reply_callbacks (action_reply r) else [])
      else [])"
| "step_callbacks s (Mx_in_cancel cbs) = (if mx_multi s then concat (map cbs (mx_connections s)) else [])"
| "step_callbacks s (Mx_in_set_ca ca) = []"
| "step_callbacks s (Mx_in_wait i ec r) =
     (if i < length (mx_waits s) \<and> ec = None \<and> mx_multi s \<and>
         (case mx_sockets s (sw_socket (mx_waits s ! i)) of None \<Rightarrow> False | Some k \<Rightarrow> sock_open k)
      then reply_callbacks r else [])"
| "step_callbacks s (Mx_in_timer i ec r) =
     (if i < length (mx_timer_waits s) \<and> ec = None \<and> mx_multi s then reply_callbacks r else [])"

fun run_callbacks :: "'h mx_client \<Rightarrow> 'h mx_input list \<Rightarrow> curl_cb list" where
  "run_callbacks s [] = []"
| "run_callbacks s (i # is) = step_callbacks s i @ run_callbacks (mx_step s i) is"

lemma received_added:
  "received (added r c v) d = grow d (reply_cbs (add_reply r) @ reply_cbs (action_reply r)) (received v d)"
  using received_cbs [of "reply_cbs (add_reply r)" v d]
  unfolding added_def Let_def received_action grow_append by (simp add: received_def)

lemma received_start_request:
  assumes "t = start_request r c method conn s"
  shows "received t d =
     grow d (if reaches_curl r method s
       then reply_cbs (add_reply r) @ (if reply_ok (add_reply r) then reply_callbacks (action_reply r) else [])
       else []) (received s d)"
  using assms
proof (cases rule: start_request_cases)
  case (rejected ec v)
  then show ?thesis using received_cong [OF rejected(3)] by simp
next
  case (refused v)
  then show ?thesis using received_cong [OF refused(3)] by (simp add: received_cbs)
next
  case (accepted v)
  then show ?thesis using received_cong [OF accepted(3)]
    by (simp add: received_check received_added grow_append reply_callbacks_def)
qed

lemma received_do_request:
  "received (mx_do_request r a s) d =
     grow d (step_callbacks s (Mx_in_request a r))
       (if d = mx_next s \<and> to_curl_method (arg_method a) \<noteq> None then Some ([], []) else received s d)"
proof (cases "to_curl_method (arg_method a)")
  case (Some m)
  let ?s = "s\<lparr>mx_next := Suc (mx_next s), mx_conns := (mx_conns s)(mx_next s \<mapsto> new_conn a)\<rparr>"
  have "received ?s d = (if d = mx_next s then Some ([], []) else received s d)"
    by (simp add: received_def new_conn_def)
  moreover have "reaches_curl r (arg_method a) ?s = reaches_curl r (arg_method a) s"
    by (simp add: reaches_curl_def)
  ultimately show ?thesis
    using Some by (simp add: mx_do_request_def Let_def received_start_request [OF refl])
qed (simp add: mx_do_request_def reaches_curl_def)

lemma multi_remove_multi [simp]: "mx_multi (multi_remove_handle c cbs s) = mx_multi s"
  using same_requests_remove [of s c cbs] by (simp add: same_requests_def)

lemma received_cancel_loop:
  "received (cancel_loop cbs cs s) c = grow c (if mx_multi s then concat (map cbs cs) else []) (received s c)"
proof (induction cs arbitrary: s)
  case (Cons d cs)
  define s1 where "s1 = (if mx_multi s then multi_remove_handle d (cbs d) s else s)"
  define s2 where "s2 = (case mx_conns s1 d of None \<Rightarrow> s1 | Some conn \<Rightarrow> answer d conn (Some operation_canceled) no_response s1)"
  have "cancel_loop cbs (d # cs) s = cancel_loop cbs cs s2"
    by (simp add: Let_def s1_def [symmetric] s2_def answer_def split: option.split)
  moreover have "received s2 c = received s1 c" "mx_multi s2 = mx_multi s1"
    by (auto simp: s2_def answer_def respond_def mx_emit_def received_def split: option.split)
  moreover have "received s1 c = grow c (if mx_multi s then cbs d else []) (received s c)" "mx_multi s1 = mx_multi s"
    by (simp_all add: s1_def received_remove)
  ultimately show ?case by (simp add: Cons.IH grow_append)
qed simp

lemma received_close_all: "received (close_all_sockets s) = received s"
proof -
  have "mx_conns (fold (\<lambda>entry s. close_tcp_socket (snd entry) s) es s) = mx_conns s" for es
    by (induction es arbitrary: s) (simp_all add: close_tcp_socket_def mx_emit_def)
  then show ?thesis by (intro received_cong) (simp add: close_all_sockets_def)
qed

lemma received_cancel: "received (mx_do_cancel cbs s) d = grow d (step_callbacks s (Mx_in_cancel cbs)) (received s d)"
proof -
  have "received (mx_do_cancel cbs s) d = received (close_all_sockets ((cancel_loop cbs (mx_connections s)
      ((timer_cancel s)\<lparr>mx_connections := []\<rparr>))\<lparr>mx_pending := 0\<rparr>)) d"
    by (simp add: mx_do_cancel_def Let_def) (simp add: received_def mx_emit_def)
  also have "\<dots> = received (cancel_loop cbs (mx_connections s) ((timer_cancel s)\<lparr>mx_connections := []\<rparr>)) d"
    by (simp add: received_close_all) (simp add: received_def)
  finally show ?thesis by (simp add: received_cancel_loop) (simp add: received_def mx_emit_def)
qed

lemma received_timer: "received (asio_timer_callback ec r s) d =
    grow d (if ec = None \<and> mx_multi s then reply_callbacks r else []) (received s d)"
  by (simp add: asio_timer_callback_def Let_def received_check received_action reply_callbacks_def grow_append)

lemma received_event: "received (event_callback r sid dir s) d =
    grow d (if mx_multi s \<and> (case mx_sockets s sid of None \<Rightarrow> False | Some k \<Rightarrow> sock_open k) then reply_callbacks r else [])
      (received s d)"
proof -
  have arm: "received (arm_socket_watches sid action v) = received v" for action and v :: "'a mx_client"
    by (rule received_cong) simp
  show ?thesis
    by (simp add: event_callback_def Let_def received_check received_action reply_callbacks_def grow_append arm
        split: option.split)
qed

lemma received_step:
  assumes "received s d \<noteq> None" and "mx_inv s"
  shows "received (mx_step s i) d = grow d (step_callbacks s i) (received s d)"
proof (cases i)
  case (Mx_in_request a r)
  have "d < mx_next s" using assms by (auto simp: mx_inv_def handler_of_def received_def)
  then show ?thesis by (simp add: Mx_in_request received_do_request del: step_callbacks.simps)
next
  case (Mx_in_cancel cbs)
  then show ?thesis by (simp add: received_cancel del: step_callbacks.simps)
next
  case (Mx_in_set_ca ca)
  then show ?thesis by (simp add: do_set_ca_certificate_def received_def)
next
  case (Mx_in_wait j ec r)
  have "received (s\<lparr>mx_waits := w\<rparr>) d = received s d" for w by (simp add: received_def)
  then show ?thesis by (simp add: Mx_in_wait handle_socket_wait_def received_event)
next
  case (Mx_in_timer k ec r)
  have "received (s\<lparr>mx_timer_waits := w\<rparr>) d = received s d" for w by (simp add: received_def)
  then show ?thesis by (simp add: Mx_in_timer received_timer)
qed

lemma received_run:
  "received s d \<noteq> None \<Longrightarrow> mx_inv s \<Longrightarrow> received (mx_run s is) d = grow d (run_callbacks s is) (received s d)"
proof (induction "is" arbitrary: s)
  case (Cons i "is")
  note step = received_step [OF Cons.prems, of i]
  have "received (mx_step s i) d \<noteq> None" using Cons.prems(1) by (simp add: step)
  with Cons.IH [of "mx_step s i"] mx_step_balance [OF Cons.prems(2), of i] show ?case
    by (simp add: step grow_append)
qed simp

section \<open>An outstanding request keeps its handler\<close>

definition kept :: "nat \<Rightarrow> 'h mx_client \<Rightarrow> 'h mx_client \<Rightarrow> bool" where
  "kept c s t \<longleftrightarrow> (c \<in> set (mx_connections t) \<longrightarrow> c \<in> set (mx_connections s) \<and> handler_of t c = handler_of s c)"

lemma kept_refl [simp]: "kept c s s"
  by (simp add: kept_def)

lemma kept_trans: "kept c s t \<Longrightarrow> kept c t v \<Longrightarrow> kept c s v"
  by (auto simp: kept_def)

lemma kept_same: "same_requests s t \<Longrightarrow> kept c s t"
  by (simp add: kept_def same_requests_def)

lemma kept_respond: "kept c s (respond h ec response s)"
  by (simp add: kept_def respond_def mx_emit_def handler_of_def split: option.split)

lemma kept_finish:
  assumes "mx_inv s" and "d \<in> set (mx_connections s)"
  shows "kept c s (finish_request d result code cbs s)"
proof -
  have owned: "\<forall>c \<in> set (mx_connections s). handler_of s c \<noteq> None" using assms(1) by (simp add: mx_inv_def)
  obtain conn s2 where t: "finish_request d result code cbs s = answer d conn (from_curl_code result) (result_of result code conn) s2"
    and s2: "mx_conns s2 d = Some conn" "mx_connections s2 = remove1 d (mx_connections s)" "handler_of s2 = handler_of s"
    by (rule finish_request_answer [OF owned assms(2), of result code cbs]) (rule that)
  note e = answer_effect [OF t s2(1)]
  have "c \<in> set (remove1 d (mx_connections s)) \<Longrightarrow> c \<noteq> d \<and> c \<in> set (mx_connections s)"
    using assms(1) by (auto simp: mx_inv_def)
  then show ?thesis unfolding kept_def e(1) e(5) s2(2) s2(3) by (metis fun_upd_other)
qed

lemma kept_check: "mx_inv s \<Longrightarrow> kept c s (check_multi_info msgs s)"
proof (induction msgs s rule: check_multi_info.induct)
  case (3 d result code cbs msgs s)
  show ?case
  proof (cases "d \<in> set (mx_connections s)")
    case True
    then have "mx_inv (finish_request d result code cbs s)" using finish_request_balance [OF 3(3) True refl] by blast
    with 3(2) True kept_trans [OF kept_finish [OF 3(3) True]] show ?thesis by simp
  next
    case False
    from 3(1) [OF False mx_inv_same [OF same_requests_remove 3(3)]] False show ?thesis
      using kept_trans [OF kept_same [OF same_requests_remove]] by simp
  qed
qed simp_all

lemma kept_action: "response_of ev = [] \<Longrightarrow> kept c s (socket_action ev r s)"
  by (rule kept_same [OF same_requests_action])

lemma kept_checked_action:
  assumes "mx_inv s" and "response_of ev = []"
  shows "kept c s (check_multi_info msgs (socket_action ev r s))"
  by (rule kept_trans [OF kept_action kept_check]) (simp_all add: assms mx_inv_same [OF same_requests_action])

lemma kept_event:
  assumes "mx_inv s"
  shows "kept c s (event_callback r sid dir s)"
proof -
  define ev :: "int \<Rightarrow> 'a mx_event" where "ev fd = Multi_socket_action fd (if dir = Wait_read then Poll_in else Poll_out)" for fd
  define s1 where "s1 fd = mx_emit (Socket_served fd (reply_ok r) (reply_running r)) (socket_action (ev fd) r s)" for fd
  define s2 where "s2 fd = check_multi_info (reply_msgs r) (s1 fd)" for fd
  have same: "same_requests s (s1 fd)" for fd
    unfolding s1_def by (rule same_requests_trans [OF same_requests_action same_requests_emit]) (simp_all add: ev_def)
  then have 1: "kept c s (s1 fd)" for fd by (rule kept_same)
  have 2: "kept c s (s2 fd)" for fd
    unfolding s2_def by (rule kept_trans [OF 1 kept_check]) (rule mx_inv_same [OF same assms])
  have 3: "kept c s (timer_cancel (s2 fd))" for fd
    by (rule kept_trans [OF 2 kept_same [OF same_requests_cancel(2)]])
  have 4: "kept c s (arm_socket_watches sid action (s2 fd))" for fd action
    by (rule kept_trans [OF 2 kept_same [OF same_requests_arm]])
  show ?thesis
    unfolding event_callback_def Let_def ev_def [symmetric] s1_def [symmetric] s2_def [symmetric]
    using 1 2 3 4 by (simp split: option.split)
qed

lemma kept_timer: "mx_inv s \<Longrightarrow> kept c s (asio_timer_callback ec r s)"
  by (simp add: asio_timer_callback_def Let_def kept_action kept_checked_action)

text \<open>The request that has just been made, and the ones before it.\<close>

lemma kept_start_request:
  assumes "mx_inv s" and "c < mx_next s" and "c \<notin> set (mx_connections s)" and "handler_of s c = Some (cn_handler conn)"
    and "t = start_request r c method conn s"
  shows "(d \<noteq> c \<longrightarrow> kept d s t) \<and> (c \<in> set (mx_connections t) \<longrightarrow> handler_of t c = handler_of s c)"
  using assms(5)
proof (cases rule: start_request_cases)
  case (rejected ec v)
  have "kept x s t" for x
    unfolding rejected(4) using kept_same [OF rejected(2)] kept_respond by (rule kept_trans)
  then show ?thesis using assms(3) by (auto simp: kept_def)
next
  case (refused v)
  have "kept x s t" for x
    unfolding refused(5)
    using kept_same [OF same_requests_trans [OF refused(2) same_requests_cbs]] kept_respond by (rule kept_trans)
  then show ?thesis using assms(3) by (auto simp: kept_def)
next
  case (accepted v)
  note a = added_balance [OF assms(1-4) accepted(2), of r]
  have "kept x (added r c v) t" for x
    unfolding accepted(5) by (rule kept_check) (use a in blast)
  then show ?thesis using a by (auto simp: kept_def)
qed

lemma kept_do_request:
  assumes "mx_inv s" and "t = mx_do_request r a s"
  shows "(d \<noteq> mx_next s \<longrightarrow> kept d s t) \<and>
    (mx_next s \<in> set (mx_connections t) \<longrightarrow> handler_of t (mx_next s) = Some (arg_handler a))"
proof (cases "to_curl_method (arg_method a)")
  case None
  have "mx_next s \<notin> set (mx_connections s)" using assms(1) by (auto simp: mx_inv_def)
  with None show ?thesis
    by (simp add: assms(2) mx_do_request_def kept_respond respond_effect)
next
  case (Some m)
  let ?c = "mx_next s"
  define s1 where "s1 = s\<lparr>mx_next := Suc ?c, mx_conns := (mx_conns s)(?c \<mapsto> new_conn a)\<rparr>"
  have h: "handler_of s1 = (handler_of s)(?c := Some (cn_handler (new_conn a)))"
    by (simp add: s1_def handler_of_def new_conn_def fun_eq_iff)
  have "mx_inv s1" "?c \<notin> set (mx_connections s1)"
    using assms(1) by (auto simp: mx_inv_def h) (auto simp: s1_def less_Suc_eq)
  moreover have "?c < mx_next s1" "t = start_request r ?c (arg_method a) (new_conn a) s1"
    using Some by (simp_all add: assms(2) mx_do_request_def s1_def Let_def)
  ultimately have "(d \<noteq> ?c \<longrightarrow> kept d s1 t) \<and> (?c \<in> set (mx_connections t) \<longrightarrow> handler_of t ?c = handler_of s1 ?c)"
    by (intro kept_start_request) (simp_all add: h)
  moreover have "mx_connections s1 = mx_connections s" "arg_handler a = cn_handler (new_conn a)"
    by (simp_all add: s1_def new_conn_def)
  ultimately show ?thesis by (simp add: kept_def h)
qed

lemma kept_step:
  assumes "mx_inv s" and "received s c \<noteq> None"
  shows "kept c s (mx_step s i)"
proof (cases i)
  case (Mx_in_request a r)
  have "c \<noteq> mx_next s" using assms by (auto simp: mx_inv_def handler_of_def received_def)
  then show ?thesis using kept_do_request [OF assms(1) refl] by (simp add: Mx_in_request)
next
  case (Mx_in_cancel cbs)
  then show ?thesis using mx_do_cancel_effect(2) [OF assms(1) refl] by (simp add: kept_def)
next
  case (Mx_in_set_ca ca)
  then show ?thesis by (simp add: kept_def do_set_ca_certificate_def handler_of_def)
next
  case (Mx_in_wait j ec r)
  have u: "same_requests s (s\<lparr>mx_waits := w\<rparr>)" for w by (rule same_requests_updates)
  show ?thesis
    using kept_trans [OF kept_same [OF u] kept_event [OF mx_inv_same [OF u assms(1)]]] kept_same [OF u]
    by (simp add: Mx_in_wait handle_socket_wait_def)
next
  case (Mx_in_timer k ec r)
  have u: "same_requests s (s\<lparr>mx_timer_waits := w\<rparr>)" for w by (rule same_requests_updates)
  show ?thesis
    using kept_trans [OF kept_same [OF u] kept_timer [OF mx_inv_same [OF u assms(1)]]]
    by (simp add: Mx_in_timer)
qed

lemma kept_run: "mx_inv s \<Longrightarrow> received s c \<noteq> None \<Longrightarrow> kept c s (mx_run s is)"
proof (induction "is" arbitrary: s)
  case (Cons i "is")
  have "received (mx_step s i) c \<noteq> None" using received_step [OF Cons.prems(2,1)] Cons.prems(2) by simp
  with Cons.IH [of "mx_step s i"] mx_step_balance [OF Cons.prems(1), of i] show ?case
    using kept_trans [OF kept_step [OF Cons.prems]] by simp
qed simp

section \<open>Properties\<close>

text \<open>
  C22: the response is what curl delivered. Take a request with a valid method made at any point of a
  run, any further inputs after which it is still outstanding, and curl's message that it is done. The
  handler of the request is called with the error of the result; on success the body is the
  concatenation of all pieces that curl passed to \<^verbatim>\<open>write_callback\<close> for this transfer and the headers are
  those of all its header lines, in order, wherever the pieces were cut and whatever other transfers
  received in between.
\<close>

theorem mx_response_assembled:
  fixes s t :: "'h mx_client"
  assumes "s = mx_run (new_mx_client once ok) earlier" and "c = mx_next s"
    and "to_curl_method (arg_method a) \<noteq> None" and "arg_handler a = Some h"
    and "t = mx_run s (Mx_in_request a r # inputs)" and "c \<in> set (mx_connections t)"
    and "cs = run_callbacks s (Mx_in_request a r # inputs) @ cbs"
  shows "responses (check_multi_info [Msg_done c result code cbs] t) = responses t @
    [(h, from_curl_code result,
      if result = Curle_ok
      then \<lparr>mx_status_code = code mod 2 ^ 32, mx_body = concat (map (written c) cs),
            mx_headers = concat (map (header_of c) cs)\<rparr>
      else no_response)]"
proof -
  have inv0: "mx_inv s" unfolding assms(1) using mx_run_balance [OF mx_inv_new] by blast
  define s1 where "s1 = mx_do_request r a s"
  have t: "t = mx_run s1 inputs" by (simp add: assms(5) s1_def)
  have inv1: "mx_inv s1" unfolding s1_def using mx_do_request_balance [OF inv0 refl] by blast
  have inv: "mx_inv t" unfolding t using mx_run_balance [OF inv1] by blast
  have rec1: "received s1 c = grow c (step_callbacks s (Mx_in_request a r)) (Some ([], []))"
    using assms(2,3) by (simp add: s1_def received_do_request del: step_callbacks.simps)
  then have some1: "received s1 c \<noteq> None" by simp
  have rec: "received t c = grow c (run_callbacks s (Mx_in_request a r # inputs)) (Some ([], []))"
    using received_run [OF some1 inv1, of inputs] rec1
    by (simp add: t grow_append s1_def del: step_callbacks.simps)
  have h: "handler_of t c = Some (Some h)"
    using kept_run [OF inv1 some1, of inputs] assms(2,4,6) kept_do_request [OF inv0 s1_def]
    by (simp add: kept_def t)
  have owned: "\<forall>c \<in> set (mx_connections t). handler_of t c \<noteq> None" using inv by (simp add: mx_inv_def)
  obtain conn s2 where fin: "finish_request c result code cbs t = answer c conn (from_curl_code result) (result_of result code conn) s2"
    and s2: "mx_conns s2 c = Some conn" "handler_of s2 = handler_of t" "responses s2 = responses t"
      "mx_conns s2 = mx_conns (multi_remove_handle c cbs (t\<lparr>mx_connections := remove1 c (mx_connections t)\<rparr>))"
    by (rule finish_request_answer [OF owned assms(6), of result code cbs]) (rule that)
  have "cn_handler conn = Some h" using h s2(1,2) by (simp add: handler_of_def fun_eq_iff) (metis option.inject option.map(2))
  moreover have "received s2 c = grow c cs (Some ([], []))"
    unfolding assms(7) grow_append rec [symmetric] received_cong [OF s2(4)] received_remove by (simp add: received_def)
  then have "cn_response_body conn = concat (map (written c) cs) \<and> cn_response_headers conn = concat (map (header_of c) cs)"
    using s2(1) by (simp add: received_def grow_def)
  ultimately show ?thesis
    using answer_effect(6) [OF fin s2(1)] assms(6) s2(3) by (simp add: result_of_def)
qed

text \<open>Two transfers whose data arrive interleaved; the first one's body comes in two pieces.\<close>

definition interleaved :: "nat mx_input list" where
  "interleaved =
     [Mx_in_request (mx_get_args ''g'' ''443'' ''/'' 0 (Some 8)) plain_start,
      Mx_in_timer 0 None \<lparr>reply_ok = True, reply_running = 2,
        reply_cbs = [Cb_header 0 ''A: 1'', Cb_write 0 ''ab'', Cb_write 1 ''xy'', Cb_write 0 ''c''], reply_msgs = []\<rparr>]"

definition timer_start :: start_replies where
  "timer_start = plain_start\<lparr>add_reply := plain_reply\<lparr>reply_cbs := [Cb_timer 0]\<rparr>\<rparr>"

lemmas mx_eval = new_mx_client_def mx_do_request_def mx_get_args_def new_conn_def start_request_def
  plain_start_def plain_reply_def timer_start_def apply_method_def configure_easy_handle_def setopts_def
  socket_action_def mx_emit_def easy_options_def handle_timeout_event_def asio_timer_callback_def
  reaches_curl_def reply_callbacks_def interleaved_def write_callback_def header_callback_def Let_def

theorem mx_response_assembled_witness:
  "responses (check_multi_info [Msg_done 0 Curle_ok 200 [Cb_write 0 ''d'']]
     (mx_run (new_mx_client False True)
       (Mx_in_request (mx_get_args ''h'' ''443'' ''/'' 0 (Some 7)) timer_start # interleaved))) =
   [(7, None, \<lparr>mx_status_code = 200, mx_body = ''abcd'', mx_headers = [\<lparr>mx_name = ''A'', mx_value = ''1''\<rparr>]\<rparr>)]"
proof -
  let ?s = "new_mx_client False True :: nat mx_client" and ?a = "mx_get_args ''h'' ''443'' ''/'' 0 (Some (7 :: nat))"
  let ?is = "Mx_in_request ?a timer_start # interleaved"
  have parse: "parse_header ''A: 1'' = Some \<lparr>mx_name = ''A'', mx_value = ''1''\<rparr>" by code_simp
  have s: "mx_next ?s = 0" by (simp add: new_mx_client_def)
  have t: "mx_connections (mx_run ?s ?is) = [0, 1]" "responses (mx_run ?s ?is) = []"
    by (simp_all add: mx_eval parse responses_def ensure_curl_global_init_def multi_options_def)
  have cs: "run_callbacks ?s ?is = [Cb_timer 0, Cb_header 0 ''A: 1'', Cb_write 0 ''ab'', Cb_write 1 ''xy'', Cb_write 0 ''c'']"
    by (simp add: mx_eval)
  have a: "to_curl_method (arg_method ?a) \<noteq> None" "arg_handler ?a = Some 7" by (simp_all add: mx_get_args_def)
  have c: "0 \<in> set (mx_connections (mx_run ?s ?is))" by (simp only: t) simp
  have "?s = mx_run ?s []" by simp
  from mx_response_assembled [OF this s [symmetric] a refl c refl, of Curle_ok 200 "[Cb_write 0 ''d'']"]
  show ?thesis unfolding cs t(2) by (simp only: parse) (simp add: parse del: mx_run.simps check_multi_info.simps)
qed

section \<open>Redirects\<close>

text \<open>
  \<^verbatim>\<open>CURLOPT_FOLLOWLOCATION\<close> is on, and curl calls the header callback for the header lines of every response
  of a transfer, redirects included. \<^verbatim>\<open>header_callback\<close> never starts a new list, so the response that the
  handler gets has the headers of the redirect in front of its own.
\<close>

definition redirected :: "nat mx_input list" where
  "redirected =
     [Mx_in_request (mx_get_args ''h'' ''443'' ''/a'' 0 (Some 7)) timer_start,
      Mx_in_timer 0 None \<lparr>reply_ok = True, reply_running = 1,
        reply_cbs = [Cb_header 0 ''HTTP/2 302'', Cb_header 0 ''Location: /b'',
          Cb_header 0 ''HTTP/2 200'', Cb_header 0 ''X: 1'', Cb_write 0 ''ok''], reply_msgs = []\<rparr>]"

lemma redirect_headers_kept:
  "responses (check_multi_info [Msg_done 0 Curle_ok 200 []] (mx_run (new_mx_client False True) redirected)) =
     [(7, None, \<lparr>mx_status_code = 200, mx_body = ''ok'',
       mx_headers = [\<lparr>mx_name = ''Location'', mx_value = ''/b''\<rparr>, \<lparr>mx_name = ''X'', mx_value = ''1''\<rparr>]\<rparr>)]"
proof -
  have parse: "parse_header ''HTTP/2 302'' = None" "parse_header ''HTTP/2 200'' = None"
      "parse_header ''Location: /b'' = Some \<lparr>mx_name = ''Location'', mx_value = ''/b''\<rparr>"
      "parse_header ''X: 1'' = Some \<lparr>mx_name = ''X'', mx_value = ''1''\<rparr>"
    by code_simp+
  show ?thesis
    by (simp add: mx_eval redirected_def parse finish_request_def multi_remove_handle_def respond_def responses_def
        ensure_curl_global_init_def multi_options_def)
qed

end
