(* ===== verification/Multiplex_Sockets.thy ===== *)
theory Multiplex_Sockets
  imports Multiplex_Properties
begin

text \<open>
  The sockets of \<^verbatim>\<open>HttpsMultiplexClient\<close>. curl opens and closes its sockets through callbacks of the client,
  which owns them in \<^verbatim>\<open>socket_map\<close>. The theory shows that every open socket is owned, so that cancelling
  leaves no descriptor open, and what the destructor does, when it comes to its end and when it ends the program.
\<close>

section \<open>What callbacks keep, the client keeps\<close>

text \<open>
  A property that every callback of curl keeps, and that does not depend on the requests and the calls of the
  client, is kept by everything the client does around the calls of curl.
\<close>

locale callback_property =
  fixes P :: "'h mx_client \<Rightarrow> bool"
  assumes cb: "P s \<Longrightarrow> P (run_cb cb (mx_emit (Curl_called cb) s))"
    and emit: "\<not> curl_speaks ev \<Longrightarrow> P (mx_emit ev s) = P s"
    and frame: "P (s\<lparr>mx_still_running := x2\<rparr>) = P s"
      "P (s\<lparr>mx_connections := x3\<rparr>) = P s" "P (s\<lparr>mx_pending := x4\<rparr>) = P s" "P (s\<lparr>mx_conns := x5\<rparr>) = P s"
begin

lemma cbs: "P s \<Longrightarrow> P (run_cbs cbs s)"
  by (induction cbs arbitrary: s) (simp_all add: cb)

lemma setopts: "P (setopts easy opts s) = P s"
proof (induction opts arbitrary: s)
  case (Cons opt opts)
  have "setopts easy (opt # opts) s = setopts easy opts (mx_emit (Easy_setopt easy opt) s)"
    by (simp add: setopts_def mx_emit_def)
  then show ?case by (simp add: Cons.IH emit)
qed (simp add: setopts_def)

lemma respond: "P (respond h ec response s) = P s"
  by (simp add: respond_def emit split: option.split)

lemma remove: "P s \<Longrightarrow> P (multi_remove_handle c cbs s)"
  by (simp add: multi_remove_handle_def cbs emit)

lemma action: "P s \<Longrightarrow> \<not> curl_speaks ev \<Longrightarrow> P (socket_action ev r s)"
  by (simp add: socket_action_def cbs emit frame)

lemma check: "P s \<Longrightarrow> P (check_multi_info msgs s)"
proof (induction msgs s rule: check_multi_info.induct)
  case (3 c result code cbs msgs s)
  have "P (finish_request c result code cbs s)"
    using remove [of "s\<lparr>mx_connections := remove1 c (mx_connections s)\<rparr>" c cbs] 3(3)
    by (simp add: finish_request_def Let_def frame respond split: option.split)
  with 3 show ?case by (simp add: remove)
qed simp_all

lemma request: "P s \<Longrightarrow> P (start_request r c meth conn s)"
  by (simp add: start_request_def apply_method_def configure_easy_handle_def setopts cbs action check
      emit frame respond Let_def split: option.split)

lemma cancel: "P s \<Longrightarrow> P (cancel_loop cbs cs s)"
proof (induction cs arbitrary: s)
  case (Cons c cs)
  then have "P (if mx_multi s then multi_remove_handle c (cbs c) s else s)" by (simp add: remove)
  then show ?case by (auto simp: Let_def frame respond intro!: Cons.IH split: option.split)
qed simp

lemma timer: "P s \<Longrightarrow> P (asio_timer_callback ec r s)"
  by (simp add: asio_timer_callback_def Let_def action check)

end

section \<open>The invariant of the socket map\<close>

definition sock_inv :: "'h mx_client \<Rightarrow> bool" where
  "sock_inv s \<longleftrightarrow>
     distinct (map fst (mx_socket_map s)) \<and>
     (\<forall>(fd, sid) \<in> set (mx_socket_map s). mx_sockets s sid = Some \<lparr>sock_fd = fd, sock_open = True\<rparr>) \<and>
     (\<forall>sid k. mx_sockets s sid = Some k \<longrightarrow> sid < mx_next s \<and>
        (sock_open k \<longrightarrow> (sock_fd k, sid) \<in> set (mx_socket_map s)))"

text \<open>Nothing is opened, closed or forgotten.\<close>

definition same_sockets :: "'h mx_client \<Rightarrow> 'h mx_client \<Rightarrow> bool" where
  "same_sockets s t \<longleftrightarrow> mx_sockets t = mx_sockets s \<and> mx_socket_map t = mx_socket_map s \<and> mx_next s \<le> mx_next t"

lemma sock_inv_same: "same_sockets s t \<Longrightarrow> sock_inv s \<Longrightarrow> sock_inv t"
  unfolding sock_inv_def same_sockets_def by (metis order_less_le_trans)

lemma same_sockets_arm: "same_sockets s (arm_socket_watches sid action s)"
  by (simp add: same_sockets_def arm_socket_watches_def watch_def mx_emit_def Let_def)

lemma same_sockets_set_socket: "same_sockets s (fst (handle_set_socket fd action a s))"
  by (simp add: same_sockets_def handle_set_socket_def arm_socket_watches_def watch_def mx_emit_def Let_def split: option.split)

lemma same_sockets_event: "same_sockets s (fst (handle_socket_event fd what actionp ok s))"
proof -
  let ?s = "s\<lparr>mx_next := Suc (mx_next s), mx_action_values := (mx_action_values s)(mx_next s \<mapsto> Poll_none)\<rparr>"
  have add: "same_sockets ?s (fst (handle_set_socket fd w (mx_next s) ?s))" for w by (rule same_sockets_set_socket)
  have "mx_next s \<le> mx_next (fst (handle_set_socket fd w (mx_next s) ?s))" for w
    using add [of w] by (simp add: same_sockets_def)
  then show ?thesis
    using add same_sockets_set_socket [of s]
    by (simp add: handle_socket_event_def handle_add_socket_def handle_remove_socket_def same_sockets_def
        mx_emit_def Let_def case_prod_beta split: option.split)
qed

lemma sock_inv_open:
  assumes "sock_inv s"
  shows "sock_inv (fst (handle_open_socket purpose family r s))"
proof -
  have none: "mx_sockets s (mx_next s) = None"
    using assms unfolding sock_inv_def by (metis less_irrefl not_Some_eq)
  then have "(fd, mx_next s) \<notin> set (mx_socket_map s)" for fd
    using assms by (auto simp: sock_inv_def)
  note fresh = none this
  show ?thesis
  proof (cases "map_of (mx_socket_map s) (opened_fd r)")
    case None
    then have "opened_fd r \<notin> fst ` set (mx_socket_map s)" by (simp add: map_of_eq_None_iff)
    with None fresh assms show ?thesis
      by (auto simp: handle_open_socket_def sock_inv_def less_Suc_eq Let_def)
  next
    case (Some sid)
    with fresh assms show ?thesis
      by (auto simp: handle_open_socket_def sock_inv_def mx_emit_def less_Suc_eq Let_def)
  qed
qed

lemma sock_inv_close:
  assumes "sock_inv s"
  shows "sock_inv (fst (handle_close_socket item s))"
proof (cases "map_of (mx_socket_map s) item")
  case None
  then show ?thesis using assms by (simp add: handle_close_socket_def sock_inv_def)
next
  case (Some sid)
  then have mem: "(item, sid) \<in> set (mx_socket_map s)" by (rule map_of_SomeD)
  have own: "mx_sockets s sid = Some \<lparr>sock_fd = item, sock_open = True\<rparr>"
    using assms mem by (auto simp: sock_inv_def)
  have other: "d \<noteq> sid" if "(fd, d) \<in> set (mx_socket_map s)" "fd \<noteq> item" for fd d
    using assms that own by (auto simp: sock_inv_def)
  have unique: "d = sid" if "(item, d) \<in> set (mx_socket_map s)" for d
    using assms that mem by (auto simp: sock_inv_def intro: eq_key_imp_eq_value)
  have "sock_inv (fst (handle_close_socket item s)) \<longleftrightarrow>
    sock_inv (s\<lparr>mx_sockets := (mx_sockets s)(sid \<mapsto> \<lparr>sock_fd = item, sock_open = False\<rparr>),
       mx_socket_map := filter (\<lambda>e. fst e \<noteq> item) (mx_socket_map s)\<rparr>)"
    using Some own by (simp add: handle_close_socket_def close_tcp_socket_def mx_emit_def sock_inv_def)
  also have "\<dots>"
  proof -
    have "(sock_fd k, d) \<in> set (mx_socket_map s) \<and> sock_fd k \<noteq> item" if "mx_sockets s d = Some k" "sock_open k" "d \<noteq> sid" for d k
      using assms that unique unfolding sock_inv_def by metis
    moreover have "d < mx_next s" if "mx_sockets s d = Some k" for d k
      using assms that unfolding sock_inv_def by metis
    moreover have "sid < mx_next s" using assms own unfolding sock_inv_def by metis
    moreover have "mx_sockets s d = Some \<lparr>sock_fd = fd, sock_open = True\<rparr> \<and> d \<noteq> sid" if "(fd, d) \<in> set (mx_socket_map s)" "fd \<noteq> item" for fd d
      using assms that other by (auto simp: sock_inv_def)
    moreover have "distinct (map fst (filter (\<lambda>e. fst e \<noteq> item) (mx_socket_map s)))"
      using assms by (simp add: sock_inv_def distinct_map_filter)
    ultimately show ?thesis by (auto simp: sock_inv_def) blast
  qed
  finally show ?thesis .
qed

lemma sock_inv_cb: "sock_inv s \<Longrightarrow> sock_inv (run_cb cb s)"
proof (cases cb)
  case (Cb_socket fd what actionp ok)
  then show "sock_inv s \<Longrightarrow> ?thesis" using sock_inv_same [OF same_sockets_event] by simp
next
  case (Cb_timer n)
  then show "sock_inv s \<Longrightarrow> ?thesis" by (simp add: handle_timeout_event_def mx_emit_def sock_inv_def Let_def)
next
  case (Cb_write c bytes)
  then show "sock_inv s \<Longrightarrow> ?thesis" by (simp add: write_callback_def sock_inv_def)
next
  case (Cb_header c line)
  then show "sock_inv s \<Longrightarrow> ?thesis" by (simp add: header_callback_def sock_inv_def split: option.split)
qed (simp_all add: sock_inv_open sock_inv_close)

lemma sock_inv_emit [simp]: "sock_inv (mx_emit ev s) = sock_inv s"
  by (simp add: sock_inv_def mx_emit_def)

lemma sock_inv_cancel_waits [simp]:
  "sock_inv (socket_cancel sid s) = sock_inv s" "sock_inv (timer_cancel s) = sock_inv s"
  by (simp_all add: sock_inv_def)

lemma sock_inv_updates [simp]:
  "sock_inv (s\<lparr>mx_still_running := x1\<rparr>) = sock_inv s" "sock_inv (s\<lparr>mx_connections := x2\<rparr>) = sock_inv s"
  "sock_inv (s\<lparr>mx_pending := x3\<rparr>) = sock_inv s" "sock_inv (s\<lparr>mx_conns := x4\<rparr>) = sock_inv s"
  "sock_inv (s\<lparr>mx_waits := x5\<rparr>) = sock_inv s" "sock_inv (s\<lparr>mx_timer_waits := x6\<rparr>) = sock_inv s"
  "sock_inv (s\<lparr>mx_trace := x7\<rparr>) = sock_inv s"
  by (simp_all add: sock_inv_def)

interpretation sk: callback_property sock_inv
  by unfold_locales (simp_all add: sock_inv_cb)

lemma sock_inv_do_request: "sock_inv s \<Longrightarrow> sock_inv (mx_do_request r a s)"
proof -
  assume "sock_inv s"
  then have "sock_inv (s\<lparr>mx_next := Suc (mx_next s), mx_conns := x\<rparr>)" for x
    by (auto simp: sock_inv_def less_Suc_eq)
  with \<open>sock_inv s\<close> show ?thesis by (simp add: mx_do_request_def sk.request sk.respond Let_def)
qed

section \<open>Cancelling and the destructor close every socket\<close>

definition no_open_socket :: "'h mx_client \<Rightarrow> bool" where
  "no_open_socket s \<longleftrightarrow> (\<forall>sid k. mx_sockets s sid = Some k \<longrightarrow> \<not> sock_open k)"

lemma close_sockets_effect:
  "mx_sockets (fold (\<lambda>entry s. close_tcp_socket (snd entry) s) es s) sid =
     (if sid \<in> snd ` set es then map_option (\<lambda>k. k\<lparr>sock_open := False\<rparr>) (mx_sockets s sid) else mx_sockets s sid)"
proof (induction es arbitrary: s)
  case (Cons e es)
  have "mx_sockets (close_tcp_socket (snd e) s) sid =
      (if sid = snd e then map_option (\<lambda>k. k\<lparr>sock_open := False\<rparr>) (mx_sockets s sid) else mx_sockets s sid)"
    by (simp add: close_tcp_socket_def mx_emit_def)
  then show ?case
    using Cons.IH [of "close_tcp_socket (snd e) s"] by (auto simp: option.map_comp comp_def)
qed simp

lemma close_all_next: "mx_next (close_all_sockets s) = mx_next s"
proof -
  have "mx_next (fold (\<lambda>entry s. close_tcp_socket (snd entry) s) es s) = mx_next s" for es and s :: "'a mx_client"
    by (induction es arbitrary: s) (simp_all add: close_tcp_socket_def mx_emit_def)
  then show ?thesis by (simp add: close_all_sockets_def)
qed

lemma close_all_closes:
  assumes "sock_inv s" and "mx_sockets t = mx_sockets (close_all_sockets s)" and "mx_socket_map t = []"
    and "mx_next t = mx_next s"
  shows "no_open_socket t" and "sock_inv t"
proof -
  have closed: "\<not> sock_open k \<and> sid < mx_next s" if "mx_sockets t sid = Some k" for sid k
  proof (cases "sid \<in> snd ` set (mx_socket_map s)")
    case True
    then have "mx_sockets t sid = map_option (\<lambda>k. k\<lparr>sock_open := False\<rparr>) (mx_sockets s sid)"
      by (simp add: assms(2) close_all_sockets_def close_sockets_effect)
    with that obtain k' where "mx_sockets s sid = Some k'" "k = k'\<lparr>sock_open := False\<rparr>" by auto
    then show ?thesis using assms(1) unfolding sock_inv_def by auto
  next
    case False
    then have "mx_sockets s sid = Some k"
      using that by (simp add: assms(2) close_all_sockets_def close_sockets_effect)
    then have "sid < mx_next s \<and> (sock_open k \<longrightarrow> (sock_fd k, sid) \<in> set (mx_socket_map s))"
      using assms(1) unfolding sock_inv_def by metis
    then show ?thesis using False by force
  qed
  from closed show "no_open_socket t" by (simp add: no_open_socket_def)
  show "sock_inv t" unfolding sock_inv_def assms(3,4) using closed by (auto simp del: not_less)
qed

lemma do_cancel_sockets:
  assumes "sock_inv s"
  shows "no_open_socket (mx_do_cancel cbs s) \<and> sock_inv (mx_do_cancel cbs s)"
proof -
  define s2 where "s2 = (cancel_loop cbs (mx_connections s) ((timer_cancel s)\<lparr>mx_connections := []\<rparr>))\<lparr>mx_pending := 0\<rparr>"
  have s2: "sock_inv s2" unfolding s2_def using assms by (simp add: sk.cancel)
  have "mx_do_cancel cbs s = (close_all_sockets s2)\<lparr>mx_socket_map := [], mx_socket_actions := Map.empty,
      mx_actions := {}, mx_still_running := 0\<rparr>"
    by (simp add: mx_do_cancel_def Let_def s2_def)
  with close_all_closes [OF s2, of "mx_do_cancel cbs s"] show ?thesis by (simp add: close_all_next)
qed

lemma sock_inv_event: "sock_inv s \<Longrightarrow> sock_inv (event_callback r sid dir s)"
  by (simp add: event_callback_def Let_def sk.action sk.check sock_inv_same [OF same_sockets_arm]
      split: option.split)

lemma sock_inv_step: "sock_inv s \<Longrightarrow> sock_inv (mx_step s i)"
proof (cases i)
  case (Mx_in_set_ca ca)
  then show "sock_inv s \<Longrightarrow> ?thesis" by (simp add: do_set_ca_certificate_def sock_inv_def)
qed (simp_all add: sock_inv_do_request do_cancel_sockets handle_socket_wait_def sock_inv_event sk.timer)

lemma sock_inv_run: "sock_inv s \<Longrightarrow> sock_inv (mx_run s is)"
  by (induction "is" arbitrary: s) (simp_all add: sock_inv_step)

lemma sock_inv_new: "sock_inv (new_mx_client once ok)"
  by (simp add: sock_inv_def new_mx_client_def)

section \<open>The destructor\<close>

text \<open>The calls of the client other than those that its callbacks make.\<close>

definition main_calls :: "'h mx_client \<Rightarrow> 'h mx_event list" where
  "main_calls s = filter (\<lambda>ev. \<not> curl_speaks ev \<and> \<not> callback_effect ev) (mx_trace s)"

lemma main_calls_by_callbacks: "by_callbacks s t \<Longrightarrow> main_calls t = main_calls s"
  by (auto simp: main_calls_def by_callbacks_def list_all_iff filter_empty_conv)

lemma main_calls_emit: "main_calls (mx_emit ev s) = main_calls s @ (if curl_speaks ev \<or> callback_effect ev then [] else [ev])"
  by (simp add: main_calls_def mx_emit_def)

lemma main_calls_frame [simp]:
  "main_calls (s\<lparr>mx_conns := x1\<rparr>) = main_calls s" "main_calls (s\<lparr>mx_connections := x2, mx_pending := x3\<rparr>) = main_calls s"
  "main_calls (s\<lparr>mx_multi := x4\<rparr>) = main_calls s" "main_calls (timer_cancel s) = main_calls s"
  "main_calls (s\<lparr>mx_socket_map := x5, mx_socket_actions := x6, mx_actions := x7\<rparr>) = main_calls s"
  "main_calls (s\<lparr>mx_socket_map := x5, mx_socket_actions := x6, mx_actions := x7, mx_still_running := x8\<rparr>) = main_calls s"
  by (simp_all add: main_calls_def)

lemma main_calls_close_all: "main_calls (close_all_sockets s) = main_calls s"
proof -
  have "main_calls (fold (\<lambda>entry s. close_tcp_socket (snd entry) s) es s) = main_calls s" for es
    by (induction es arbitrary: s) (simp_all add: main_calls_def close_tcp_socket_def mx_emit_def)
  then show ?thesis by (simp add: close_all_sockets_def)
qed

text \<open>Callbacks that never ask for the owner.\<close>

fun owner_free :: "curl_cb \<Rightarrow> bool" where
  "owner_free (Cb_socket fd (Some action) actionp ok) \<longleftrightarrow> False"
| "owner_free (Cb_timer t) \<longleftrightarrow> t < 0"
| "owner_free _ \<longleftrightarrow> True"

lemma owner_free_asks: "owner_free cb \<Longrightarrow> \<not> asks_for_owner cb s"
  by (cases cb rule: owner_free.cases) simp_all

lemma dying_cbs_return: "list_all owner_free cbs \<Longrightarrow> run_dying_cbs cbs s \<noteq> None"
  by (induction cbs arbitrary: s) (simp_all add: owner_free_asks)

lemma dying_cbs_effect:
  assumes "run_dying_cbs cbs s = Some t"
  shows "same_requests s t \<and> main_calls t = main_calls s \<and> (sock_inv s \<longrightarrow> sock_inv t)"
  using assms
proof (induction cbs arbitrary: s)
  case (Cons cb cbs)
  let ?s = "run_cb cb (mx_emit (Curl_called cb) s)"
  have "same_requests s ?s"
    by (rule same_requests_trans [OF same_requests_emit same_requests_cb]) simp
  moreover have "main_calls ?s = main_calls s" by (simp add: main_calls_by_callbacks [OF by_callbacks_cb] main_calls_emit)
  moreover have "sock_inv s \<longrightarrow> sock_inv ?s" using sk.cb by blast
  moreover have "same_requests ?s t \<and> main_calls t = main_calls ?s \<and> (sock_inv ?s \<longrightarrow> sock_inv t)"
    by (rule Cons.IH) (use Cons.prems in \<open>simp split: if_splits\<close>)
  ultimately show ?case using same_requests_trans by metis
qed simp

definition dropped_handler :: "nat \<Rightarrow> 'h mx_client \<Rightarrow> 'h mx_client" where
  "dropped_handler c s = s\<lparr>mx_conns := (mx_conns s)(c := map_option (\<lambda>conn. conn\<lparr>cn_handler := None\<rparr>) (mx_conns s c))\<rparr>"

text \<open>What the destructor keeps of the client: no handler is called, and only transfers are removed.\<close>

definition dying :: "'h mx_client \<Rightarrow> nat list \<Rightarrow> 'h mx_client \<Rightarrow> bool" where
  "dying s cs t \<longleftrightarrow> responses t = responses s \<and> mx_connections t = mx_connections s \<and> mx_pending t = mx_pending s \<and>
     mx_multi t = mx_multi s \<and> (sock_inv s \<longrightarrow> sock_inv t) \<and>
     main_calls t = main_calls s @ (if mx_multi s then map Multi_remove_handle cs else [])"

lemma dying_removed:
  assumes "(if mx_multi s then run_dying_cbs called (mx_emit (Multi_remove_handle c) s) else Some s) = Some s1"
  shows "dying s [c] (dropped_handler c s1)"
proof (cases "mx_multi s")
  case True
  with assms have "run_dying_cbs called (mx_emit (Multi_remove_handle c) s) = Some s1" by simp
  note e = dying_cbs_effect [OF this]
  have r: "same_requests s (mx_emit (Multi_remove_handle c) s)" by (rule same_requests_emit) simp
  have "same_requests s s1" by (rule same_requests_trans [OF r]) (simp add: e)
  moreover have "responses (dropped_handler c s1) = responses s1" by (simp add: dropped_handler_def responses_def)
  ultimately show ?thesis
    using e True by (simp add: dying_def same_requests_def main_calls_emit) (simp add: dropped_handler_def)
next
  case False
  with assms show ?thesis by (simp add: dying_def dropped_handler_def responses_def)
qed

lemma destroy_loop_effect:
  assumes "destroy_loop cbs cs s = Some t"
  shows "dying s cs t"
  using assms
proof (induction cs arbitrary: s)
  case (Cons c cs)
  then obtain s1 where s1: "(if mx_multi s then run_dying_cbs (cbs c) (mx_emit (Multi_remove_handle c) s) else Some s) = Some s1"
      "destroy_loop cbs cs (dropped_handler c s1) = Some t"
    by (auto simp: dropped_handler_def split: option.splits)
  from dying_removed [OF s1(1)] Cons.IH [OF s1(2)] show ?case by (simp add: dying_def)
qed (simp add: dying_def)

lemma destroy_loop_returns:
  "\<forall>c \<in> set cs. list_all owner_free (cbs c) \<Longrightarrow> destroy_loop cbs cs s \<noteq> None"
  by (induction cs arbitrary: s) (auto simp: dying_cbs_return split: option.split)

text \<open>The body up to the cleanup of the multi handle.\<close>

definition emptied :: "'h mx_client \<Rightarrow> 'h mx_client" where
  "emptied s = (close_all_sockets s)\<lparr>mx_socket_map := [], mx_socket_actions := Map.empty, mx_actions := {},
     mx_still_running := 0\<rparr>"

lemma emptied_effect:
  assumes "dying s cs t" and "sock_inv s"
  shows "dying s cs (emptied t) \<and> no_open_socket (emptied t)"
proof -
  have t: "sock_inv t" using assms by (simp add: dying_def)
  have "no_open_socket (emptied t) \<and> sock_inv (emptied t)"
    using close_all_closes [OF t, of "emptied t"] by (simp add: emptied_def close_all_next)
  then show ?thesis
    using assms(1) close_all_same [of t]
    by (simp add: dying_def same_requests_def responses_def emptied_def main_calls_close_all)
qed

lemma members_effect:
  assumes "sock_inv s"
  shows "no_open_socket (destroy_members s)" and "main_calls (destroy_members s) = main_calls s"
    and "mx_connections (destroy_members s) = mx_connections s" and "mx_pending (destroy_members s) = mx_pending s"
    and "responses (destroy_members s) = responses s" and "mx_multi (destroy_members s) = mx_multi s"
proof -
  show "no_open_socket (destroy_members s)"
    using close_all_closes(1) [OF assms, of "destroy_members s"] by (simp add: destroy_members_def close_all_next)
  show "main_calls (destroy_members s) = main_calls s" by (simp add: destroy_members_def main_calls_close_all)
  show "mx_connections (destroy_members s) = mx_connections s" "mx_pending (destroy_members s) = mx_pending s"
    "responses (destroy_members s) = responses s" "mx_multi (destroy_members s) = mx_multi s"
    using close_all_same [of s] by (simp_all add: destroy_members_def same_requests_def responses_def)
qed

section \<open>Properties\<close>

text \<open>
  C24: no descriptor leaks. Whatever sockets curl opens and closes through the callbacks, in any run every
  open socket is in \<^verbatim>\<open>socket_map\<close> under its own descriptor, no descriptor is there twice, and
  every socket there is open; after \<^verbatim>\<open>do_cancel\<close> no socket is open.
\<close>

theorem mx_sockets_owned:
  assumes "s = mx_run (new_mx_client once ok) inputs"
  shows "distinct (map fst (mx_socket_map s)) \<and>
    (\<forall>fd sid. (fd, sid) \<in> set (mx_socket_map s) \<longleftrightarrow> mx_sockets s sid = Some \<lparr>sock_fd = fd, sock_open = True\<rparr>) \<and>
    no_open_socket (mx_do_cancel cbs s)"
proof -
  have inv: "sock_inv s" unfolding assms by (rule sock_inv_run [OF sock_inv_new])
  then have "(fd, sid) \<in> set (mx_socket_map s) \<longleftrightarrow> mx_sockets s sid = Some \<lparr>sock_fd = fd, sock_open = True\<rparr>" for fd sid
    unfolding sock_inv_def by fastforce
  moreover have "distinct (map fst (mx_socket_map s))" using inv by (simp add: sock_inv_def)
  ultimately show ?thesis using do_cancel_sockets [OF inv] by blast
qed

definition opening_start :: start_replies where
  "opening_start = plain_start\<lparr>action_reply := plain_reply\<lparr>reply_cbs :=
     [Cb_open True Af_inet \<lparr>open_ec = None, non_blocking_ec = None, opened_fd = 5\<rparr>]\<rparr>\<rparr>"

definition opening_run :: "nat mx_client" where
  "opening_run = mx_run (new_mx_client False True)
     [Mx_in_request (mx_get_args ''h'' ''443'' ''/'' 0 (Some 7)) opening_start]"

lemma opening_run_state:
  "mx_socket_map opening_run = [(5, 1)]" "mx_connections opening_run = [0]" "responses opening_run = []"
  by (simp_all add: opening_run_def opening_start_def new_mx_client_def mx_do_request_def mx_get_args_def new_conn_def
      start_request_def plain_start_def plain_reply_def apply_method_def configure_easy_handle_def setopts_def
      socket_action_def mx_emit_def easy_options_def handle_open_socket_def responses_def Let_def
      ensure_curl_global_init_def multi_options_def)

theorem mx_sockets_owned_witness:
  "mx_sockets opening_run 1 = Some \<lparr>sock_fd = 5, sock_open = True\<rparr> \<and> no_open_socket (mx_do_cancel (\<lambda>_. []) opening_run)"
  using mx_sockets_owned [OF opening_run_def, of "\<lambda>_. []"] by (simp add: opening_run_state) blast

text \<open>
  C32: the destructor. It ends the program only when curl, while it removes a handle or cleans up, asks for a
  timeout or for the watching of a socket, because both need the owner of the client: in all other cases it
  comes to its end. When it does, no response handler was called, nothing is outstanding, no socket is left
  open, every wait of the timer is cancelled, and what it called on curl is exactly this: every outstanding
  transfer was taken out of curl's multi handle once, and then the multi handle was cleaned up.
\<close>

theorem mx_destructor:
  assumes "s = mx_run (new_mx_client once ok) inputs"
  shows "((\<forall>c \<in> set (mx_connections s). list_all owner_free (cbs c)) \<and> list_all owner_free cleanup_cbs \<longrightarrow>
      destroy_mx_client cbs cleanup_cbs s \<noteq> None) \<and>
    (\<forall>t. destroy_mx_client cbs cleanup_cbs s = Some t \<longrightarrow>
      responses t = responses s \<and> mx_connections t = [] \<and> \<not> mx_is_busy t \<and> \<not> mx_multi t \<and> no_open_socket t \<and>
      (\<forall>w \<in> set (mx_timer_waits t). tw_cancelled w) \<and>
      main_calls t = main_calls s @
        (if mx_multi s then map Multi_remove_handle (mx_connections s) @ [Multi_cleanup] else []))"
proof -
  let ?s = "(timer_cancel s)\<lparr>mx_connections := [], mx_pending := 0\<rparr>"
  have inv: "sock_inv ?s" using sock_inv_run [OF sock_inv_new, of once ok inputs] by (simp add: assms)
  have destroy: "destroy_mx_client cbs cleanup_cbs s = (case destroy_loop cbs (mx_connections s) ?s of None \<Rightarrow> None
      | Some s2 \<Rightarrow> if \<not> mx_multi (emptied s2) then Some (destroy_members (emptied s2))
          else case run_dying_cbs cleanup_cbs (mx_emit Multi_cleanup (emptied s2)) of None \<Rightarrow> None
            | Some s5 \<Rightarrow> Some (destroy_members (s5\<lparr>mx_multi := False\<rparr>)))"
    unfolding destroy_mx_client_def emptied_def Let_def by simp
  have timer: "\<forall>w \<in> set (mx_timer_waits (destroy_members v)). tw_cancelled w" for v :: "'a mx_client"
    by (simp add: destroy_members_def timer_cancel_def mx_emit_def)
  have s: "responses ?s = responses s" by (simp add: responses_def)
  have result: "responses t = responses s \<and> mx_connections t = [] \<and> \<not> mx_is_busy t \<and> \<not> mx_multi t \<and> no_open_socket t \<and>
      (\<forall>w \<in> set (mx_timer_waits t). tw_cancelled w) \<and> main_calls t = main_calls s @
        (if mx_multi s then map Multi_remove_handle (mx_connections s) @ [Multi_cleanup] else [])"
    if t: "destroy_mx_client cbs cleanup_cbs s = Some t" for t
  proof -
    from t obtain s2 where s2: "destroy_loop cbs (mx_connections s) ?s = Some s2"
      by (auto simp: destroy split: option.splits)
    have e: "dying ?s (mx_connections s) (emptied s2)" "sock_inv (emptied s2)"
      using emptied_effect [OF destroy_loop_effect [OF s2] inv] inv by (simp_all add: dying_def)
    show ?thesis
    proof (cases "mx_multi s")
      case True
      with t s2 e(1) obtain s5 where s5: "run_dying_cbs cleanup_cbs (mx_emit Multi_cleanup (emptied s2)) = Some s5"
          "t = destroy_members (s5\<lparr>mx_multi := False\<rparr>)"
        by (auto simp: destroy dying_def split: option.splits)
      have "same_requests (emptied s2) (mx_emit Multi_cleanup (emptied s2))" by (rule same_requests_emit) simp
      from same_requests_trans [OF this] dying_cbs_effect [OF s5(1)] e
      have 5: "same_requests (emptied s2) s5" "main_calls s5 = main_calls (emptied s2) @ [Multi_cleanup]" "sock_inv s5"
        by (simp_all add: main_calls_emit)
      then have "sock_inv (s5\<lparr>mx_multi := False\<rparr>)" by (simp add: sock_inv_def)
      from members_effect [OF this] 5 e(1) s True timer show ?thesis
        by (simp add: s5(2) dying_def same_requests_def mx_is_busy_def pending_count_def responses_def)
    next
      case False
      with t s2 e(1) have "t = destroy_members (emptied s2)" by (simp add: destroy dying_def)
      with members_effect [OF e(2)] e(1) s False timer show ?thesis
        by (simp add: dying_def mx_is_busy_def pending_count_def)
    qed
  qed
  have "destroy_mx_client cbs cleanup_cbs s \<noteq> None"
    if quiet: "\<forall>c \<in> set (mx_connections s). list_all owner_free (cbs c)" "list_all owner_free cleanup_cbs"
  proof -
    obtain s2 where s2: "destroy_loop cbs (mx_connections s) ?s = Some s2" using destroy_loop_returns [OF quiet(1)] by fast
    obtain s5 where "run_dying_cbs cleanup_cbs (mx_emit Multi_cleanup (emptied s2)) = Some s5"
      using dying_cbs_return [OF quiet(2)] by fast
    with s2 show ?thesis by (simp add: destroy)
  qed
  with result show ?thesis by blast
qed

text \<open>A client with an open socket; curl closes it and withdraws its timeout.\<close>

theorem mx_destructor_witness:
  "(case destroy_mx_client (\<lambda>_. [Cb_socket 5 None None True, Cb_timer (- 1)]) [Cb_close 5] opening_run of
      None \<Rightarrow> False | Some t \<Rightarrow> responses t = [] \<and> no_open_socket t \<and> \<not> mx_multi t)"
  using mx_destructor [OF opening_run_def, of "\<lambda>_. [Cb_socket 5 None None True, Cb_timer (- 1)]" "[Cb_close 5]"]
  by (auto simp: opening_run_state)

section \<open>A finding\<close>

text \<open>
  With two transfers outstanding, curl moves its timeout to that of the second when the first is taken out.
  In the destructor the timer callback then throws \<^verbatim>\<open>bad_weak_ptr\<close>, and the program ends.
\<close>

definition two_transfers :: "nat mx_client" where
  "two_transfers = mx_run (new_mx_client False True)
     [Mx_in_request (mx_get_args ''a'' ''443'' ''/'' 0 (Some 7)) opening_start,
      Mx_in_request (mx_get_args ''b'' ''443'' ''/'' 0 (Some 8)) plain_start]"

lemma destructor_ends_program:
  "mx_connections two_transfers = [0, 2] \<and>
   destroy_mx_client (\<lambda>c. if c = 0 then [Cb_timer 4000] else [Cb_timer (- 1)]) [] two_transfers = None"
  by (simp add: two_transfers_def opening_start_def new_mx_client_def mx_do_request_def mx_get_args_def new_conn_def
      start_request_def plain_start_def plain_reply_def apply_method_def configure_easy_handle_def setopts_def
      socket_action_def mx_emit_def easy_options_def handle_open_socket_def destroy_mx_client_def timer_cancel_def)

end
