(* ===== verification/Multiplex_Driving.thy ===== *)
theory Multiplex_Driving
  imports Multiplex_Sockets Contracted_Runs
begin

text \<open>
  curl's multi interface does nothing by itself: the application has to watch the sockets and the timeout that
  curl names and to call curl back. The theory shows that \<^verbatim>\<open>HttpsMultiplexClient\<close> does. Waits of Asio are
  one-shot and are cancelled when curl changes its interest, so this rests on \<^verbatim>\<open>handle_set_socket\<close> and
  \<^verbatim>\<open>event_callback\<close> arming new waits at the right places.
\<close>

section \<open>Interest and waits\<close>

fun directions :: "poll_action \<Rightarrow> wait_direction set" where
  "directions Poll_none = {}"
| "directions Poll_in = {Wait_read}"
| "directions Poll_out = {Wait_write}"
| "directions Poll_inout = {Wait_read, Wait_write}"

definition watched :: "'h mx_client \<Rightarrow> nat \<Rightarrow> poll_action \<Rightarrow> bool" where
  "watched s sid action \<longleftrightarrow> (\<forall>dir \<in> directions action. open_wait sid dir \<in> set (mx_waits s))"

text \<open>
  What curl has declared, computed from what curl says: a socket callback declares an interest in a descriptor
  or withdraws it; a descriptor that curl gets from the open callback, or gives to the close callback, starts or
  ends without one. The client stops watching a descriptor when \<^verbatim>\<open>curl_multi_socket_action\<close> for it fails or
  reports that no transfer is running; then the interest lapses, until curl declares it again.
\<close>

fun opened :: "bool \<Rightarrow> address_family \<Rightarrow> open_result \<Rightarrow> int option" where
  "opened purpose_ipcxn family r =
     (if purpose_ipcxn \<and> family \<noteq> Af_other \<and> open_ec r = None \<and> non_blocking_ec r = None then Some (opened_fd r) else None)"

fun observe :: "'h mx_event \<Rightarrow> (int \<rightharpoonup> poll_action) \<Rightarrow> (int \<rightharpoonup> poll_action)" where
  "observe (Curl_called (Cb_socket fd what actionp ok)) m = m(fd := what)"
| "observe (Curl_called (Cb_open purpose family r)) m =
     (case opened purpose family r of None \<Rightarrow> m | Some fd \<Rightarrow> m(fd := None))"
| "observe (Curl_called (Cb_close fd)) m = m(fd := None)"
| "observe (Socket_served fd ok running) m = (if ok \<and> running > 0 then m else m(fd := None))"
| "observe _ m = m"

definition declared :: "'h mx_client \<Rightarrow> int \<rightharpoonup> poll_action" where
  "declared s = fold observe (mx_trace s) Map.empty"

lemma declared_emit: "declared (mx_emit ev s) = observe ev (declared s)"
  by (simp add: declared_def mx_emit_def)

lemma observe_silent: "\<not> curl_speaks ev \<Longrightarrow> observe ev m = m"
  by (cases ev) simp_all

lemma declared_by_callbacks:
  assumes "by_callbacks s t"
  shows "declared t = declared s"
proof -
  have "fold observe es m = m" if "list_all callback_effect es" for es :: "'a mx_event list" and m
    using that
  proof (induction es)
    case (Cons ev es)
    then have "\<not> curl_speaks ev" by (cases ev) simp_all
    with Cons show ?case by (simp add: observe_silent)
  qed simp
  with assms show ?thesis by (auto simp: by_callbacks_def declared_def)
qed

lemma declared_frame [simp]:
  "declared (s\<lparr>mx_still_running := x1\<rparr>) = declared s" "declared (s\<lparr>mx_connections := x2\<rparr>) = declared s"
  "declared (s\<lparr>mx_pending := x3\<rparr>) = declared s" "declared (s\<lparr>mx_conns := x4\<rparr>) = declared s"
  "declared (s\<lparr>mx_waits := x5\<rparr>) = declared s" "declared (s\<lparr>mx_timer_waits := x6\<rparr>) = declared s"
  "declared (s\<lparr>mx_next := x7\<rparr>) = declared s" "declared (timer_cancel s) = declared s"
  "declared (arm_socket_watches sid action s) = declared s"
  by (simp_all add: declared_by_callbacks [OF by_callbacks_arm]) (simp_all add: declared_def)

text \<open>
  Every socket of the client in which curl declared the interest \<open>m\<close> is recorded with it and, unless it is the one
  that is being served, has a wait for each direction that was not cancelled.
\<close>

definition watches :: "(int \<rightharpoonup> poll_action) \<Rightarrow> nat option \<Rightarrow> 'h mx_client \<Rightarrow> bool" where
  "watches m served s \<longleftrightarrow>
     (\<forall>fd sid action. m fd = Some action \<and> map_of (mx_socket_map s) fd = Some sid \<longrightarrow>
        mx_socket_actions s fd = Some action \<and> (served \<noteq> Some sid \<longrightarrow> watched s sid action))"

definition interest_watched :: "nat option \<Rightarrow> 'h mx_client \<Rightarrow> bool" where
  "interest_watched served s \<longleftrightarrow> watches (declared s) served s"

lemma watched_cong: "mx_waits t = mx_waits s \<Longrightarrow> watched t sid action = watched s sid action"
  by (simp add: watched_def)

lemma watched_more: "watched s sid action \<Longrightarrow> set (mx_waits s) \<subseteq> set (mx_waits t) \<Longrightarrow> watched t sid action"
  by (auto simp: watched_def)

lemma arm_waits:
  "set (mx_waits (arm_socket_watches sid action s)) = set (mx_waits s) \<union> open_wait sid ` directions action"
  by (cases action) (auto simp: arm_socket_watches_def watch_def mx_emit_def)

lemma arm_frame [simp]:
  "mx_socket_actions (arm_socket_watches sid action s) = mx_socket_actions s"
  "mx_socket_map (arm_socket_watches sid action s) = mx_socket_map s"
  by (simp_all add: arm_socket_watches_def watch_def mx_emit_def Let_def)

lemma watched_arm: "watched (arm_socket_watches sid action s) sid action"
  by (auto simp: watched_def arm_waits)

lemma open_wait_cancel:
  "open_wait sid dir \<in> set (mx_waits (socket_cancel d s)) \<longleftrightarrow> sid \<noteq> d \<and> open_wait sid dir \<in> set (mx_waits s)"
proof -
  define f :: "socket_wait \<Rightarrow> socket_wait" where "f = (\<lambda>w. if sw_socket w = d then w\<lparr>sw_cancelled := True\<rparr> else w)"
  have f: "open_wait sid dir = f w \<longleftrightarrow> sid \<noteq> d \<and> w = open_wait sid dir" for w
    by (cases w) (auto simp: f_def)
  have "mx_waits (socket_cancel d s) = map f (mx_waits s)" by (simp add: socket_cancel_def mx_emit_def f_def)
  then show ?thesis by (auto simp: image_iff f)
qed

lemma watched_cancel: "sid \<noteq> d \<Longrightarrow> watched (socket_cancel d s) sid action = watched s sid action"
  by (simp add: watched_def open_wait_cancel)

text \<open>Different descriptors in the map have different sockets.\<close>

lemma socket_map_inj:
  assumes "sock_inv s" and "map_of (mx_socket_map s) fd = Some sid" and "map_of (mx_socket_map s) fd' = Some sid"
  shows "fd = fd'"
proof -
  have "(fd, sid) \<in> set (mx_socket_map s)" "(fd', sid) \<in> set (mx_socket_map s)"
    using assms(2,3) by (auto dest: map_of_SomeD)
  with assms(1) have "mx_sockets s sid = Some \<lparr>sock_fd = fd, sock_open = True\<rparr>"
      "mx_sockets s sid = Some \<lparr>sock_fd = fd', sock_open = True\<rparr>"
    by (auto simp: sock_inv_def)
  then show ?thesis by simp
qed

section \<open>What callbacks do to the waits\<close>

lemma watches_less: "watches m x s \<Longrightarrow> m' \<subseteq>\<^sub>m m \<Longrightarrow> watches m' x s"
  unfolding watches_def map_le_def by (metis domI)

lemma less_one: "m(fd := None) \<subseteq>\<^sub>m m"
  by (simp add: map_le_def)

lemma watches_frame [simp]:
  "watches m x (s\<lparr>mx_trace := y1\<rparr>) = watches m x s"
  "watches m x (s\<lparr>mx_still_running := y2\<rparr>) = watches m x s"
  "watches m x (s\<lparr>mx_connections := y3\<rparr>) = watches m x s"
  "watches m x (s\<lparr>mx_pending := y4\<rparr>) = watches m x s"
  "watches m x (s\<lparr>mx_conns := y5\<rparr>) = watches m x s"
  "watches m x (s\<lparr>mx_actions := y6\<rparr>) = watches m x s"
  "watches m x (s\<lparr>mx_timer_waits := y7\<rparr>) = watches m x s"
  "watches m x (s\<lparr>mx_sockets := y8\<rparr>) = watches m x s"
  "watches m x (s\<lparr>mx_next := y9\<rparr>) = watches m x s"
  "watches m x (s\<lparr>mx_action_values := y10\<rparr>) = watches m x s"
  by (simp_all add: watches_def watched_def)

lemma watches_emit [simp]: "watches m x (mx_emit ev s) = watches m x s"
  by (simp add: mx_emit_def)

lemma watches_timer_cancel [simp]: "watches m x (timer_cancel s) = watches m x s"
  by (simp add: timer_cancel_def)

lemma watches_forget:
  "watches m x s \<Longrightarrow> watches (m(fd := None)) x (s\<lparr>mx_socket_actions := (mx_socket_actions s)(fd := None)\<rparr>)"
  by (simp add: watches_def watched_def)

lemma watches_set_socket:
  assumes "sock_inv s" and "watches m x s"
  shows "watches (m(fd \<mapsto> action)) x (fst (handle_set_socket fd action a s))"
proof (cases "map_of (mx_socket_map s) fd")
  case None
  then show ?thesis using assms(2) by (simp add: handle_set_socket_def watches_def)
next
  case (Some sid)
  define u where "u = socket_cancel sid (s\<lparr>mx_action_values := (mx_action_values s)(a \<mapsto> action),
    mx_socket_actions := (mx_socket_actions s)(fd \<mapsto> action)\<rparr>)"
  let ?t = "arm_socket_watches sid action u"
  have t: "fst (handle_set_socket fd action a s) = ?t" by (simp add: handle_set_socket_def Some u_def Let_def)
  have keep: "watched ?t d act" if "watched s d act" "d \<noteq> sid" for d act
  proof -
    have "watched u d act" using that by (simp add: u_def watched_cancel) (simp add: watched_def)
    then show ?thesis by (rule watched_more) (simp add: arm_waits)
  qed
  have other: "d \<noteq> sid" if "map_of (mx_socket_map s) fd' = Some d" "fd' \<noteq> fd" for fd' d
    using socket_map_inj [OF assms(1)] Some that by blast
  have fields: "mx_socket_map ?t = mx_socket_map s" "mx_socket_actions ?t = (mx_socket_actions s)(fd \<mapsto> action)"
    by (simp_all add: u_def)
  show ?thesis
    unfolding t watches_def fields
  proof (intro allI impI, elim conjE)
    fix fd' d act
    assume m: "(m(fd \<mapsto> action)) fd' = Some act" and d: "map_of (mx_socket_map s) fd' = Some d"
    show "((mx_socket_actions s)(fd \<mapsto> action)) fd' = Some act \<and> (x \<noteq> Some d \<longrightarrow> watched ?t d act)"
    proof (cases "fd' = fd")
      case True
      then show ?thesis using m d Some watched_arm [of sid action u] by simp
    next
      case False
      then show ?thesis using m d other [OF d False] keep assms(2) by (auto simp: watches_def)
    qed
  qed
qed

lemma watches_socket_event:
  assumes "sock_inv s" and "watches m x s"
  shows "watches (m(fd := what)) x (fst (handle_socket_event fd what actionp ok s))"
proof -
  let ?u = "s\<lparr>mx_next := Suc (mx_next s), mx_action_values := (mx_action_values s)(mx_next s \<mapsto> Poll_none)\<rparr>"
  have "sock_inv ?u" using assms(1) by (auto simp: sock_inv_def less_Suc_eq)
  then have "watches (m(fd \<mapsto> w)) x (fst (handle_set_socket fd w (mx_next s) ?u))" for w
    using assms(2) by (simp add: watches_set_socket)
  then show ?thesis
    using watches_set_socket [OF assms] watches_forget [OF assms(2), of fd]
    by (simp add: handle_socket_event_def handle_add_socket_def handle_remove_socket_def Let_def case_prod_beta
        split: option.split)
qed

lemma watches_open:
  assumes "watches m x s"
  shows "watches (observe (Curl_called (Cb_open purpose family r) :: 'a mx_event) m) x (fst (handle_open_socket purpose family r s))"
proof -
  have "watches (m(fd := None)) x (s\<lparr>mx_next := n, mx_sockets := k, mx_socket_map := mx_socket_map s @ [(fd, d)]\<rparr>)" for n k fd d
    using assms by (auto simp: watches_def watched_def map_add_def split: option.splits if_splits)
  moreover have "watches (m(fd := None)) x (s\<lparr>mx_next := n, mx_sockets := k\<rparr>)" for n k fd
    using assms by (simp add: watches_def watched_def)
  ultimately show ?thesis using assms by (simp add: handle_open_socket_def Let_def)
qed

lemma watches_close:
  assumes "sock_inv s" and "watches m x s"
  shows "watches (m(item := None)) x (fst (handle_close_socket item s))"
proof -
  let ?s1 = "s\<lparr>mx_socket_actions := (mx_socket_actions s)(item := None)\<rparr>"
  show ?thesis
  proof (cases "map_of (mx_socket_map s) item")
    case None
    then show ?thesis using watches_forget [OF assms(2)] by (simp add: handle_close_socket_def)
  next
    case (Some sid)
    have map: "map_of (filter (\<lambda>e. fst e \<noteq> item) xs) fd = (if fd = item then None else map_of xs fd)"
      for xs and fd :: int by (induction xs) auto
    define t where "t = (close_tcp_socket sid ?s1)\<lparr>mx_socket_map := filter (\<lambda>e. fst e \<noteq> item) (mx_socket_map s)\<rparr>"
    have fields: "mx_socket_actions t = (mx_socket_actions s)(item := None)"
      "mx_socket_map t = filter (\<lambda>e. fst e \<noteq> item) (mx_socket_map s)"
      by (simp_all add: t_def close_tcp_socket_def mx_emit_def)
    have waits: "watched t d action = watched (socket_cancel sid ?s1) d action" for d action
      by (simp add: watched_def t_def close_tcp_socket_def socket_cancel_def mx_emit_def)
    have "mx_socket_actions s fd = Some action \<and> (x \<noteq> Some d \<longrightarrow> watched t d action)"
      if "m fd = Some action" "fd \<noteq> item" "map_of (mx_socket_map s) fd = Some d" for fd action d
    proof -
      have "d \<noteq> sid" using socket_map_inj [OF assms(1)] Some that by blast
      then have "watched t d action = watched s d action"
        by (simp add: waits watched_cancel watched_cong [of ?s1 s])
      then show ?thesis using assms(2) that by (simp add: watches_def)
    qed
    then have "watches (m(item := None)) x t"
      unfolding watches_def fields map by (auto split: if_splits)
    then show ?thesis
      using Some by (simp add: handle_close_socket_def Let_def t_def) (simp add: close_tcp_socket_def mx_emit_def)
  qed
qed

lemma watches_cb:
  assumes "sock_inv s" and "watches m x s"
  shows "watches (observe (Curl_called cb :: 'a mx_event) m) x (run_cb cb s)"
proof (cases cb)
  case (Cb_open purpose family r)
  show ?thesis using watches_open [OF assms(2)] by (simp add: Cb_open del: observe.simps)
qed (use assms in \<open>simp_all add: watches_socket_event watches_close handle_timeout_event_def
      write_callback_def header_callback_def Let_def split: option.split\<close>)

lemma interest_cb:
  assumes "sock_inv s" and "interest_watched x s"
  shows "interest_watched x (run_cb cb (mx_emit (Curl_called cb) s))"
  using watches_cb [of "mx_emit (Curl_called cb) s" "declared s" x cb] assms
  by (simp add: interest_watched_def declared_by_callbacks [OF by_callbacks_cb] declared_emit del: observe.simps)

lemma interest_emit: "\<not> curl_speaks ev \<Longrightarrow> interest_watched x (mx_emit ev s) = interest_watched x s"
  by (simp add: interest_watched_def declared_emit observe_silent)

interpretation wk: callback_property "\<lambda>s. sock_inv s \<and> interest_watched x s" for x
  by unfold_locales (auto simp: sk.cb interest_cb interest_emit, simp_all add: interest_watched_def)

lemma multi_cb: "mx_multi (run_cb cb s) = mx_multi s"
  using same_requests_cb [of s cb] by (simp add: same_requests_def)

interpretation mk: callback_property "\<lambda>s. mx_multi s = b" for b
  by unfold_locales (simp_all add: multi_cb mx_emit_def)

text \<open>A socket object keeps its descriptor.\<close>

definition has_fd :: "nat \<Rightarrow> int \<Rightarrow> 'h mx_client \<Rightarrow> bool" where
  "has_fd sid fd s \<longleftrightarrow> sock_inv s \<and> (\<exists>k. mx_sockets s sid = Some k \<and> sock_fd k = fd)"

lemma has_fd_cb:
  assumes "has_fd sid fd s"
  shows "has_fd sid fd (run_cb cb s)"
proof -
  from assms obtain k where k: "sock_inv s" "mx_sockets s sid = Some k" "sock_fd k = fd" by (auto simp: has_fd_def)
  then have "sid \<noteq> mx_next s" unfolding sock_inv_def by blast
  moreover have "mx_sockets (fst (handle_socket_event socket what a ok s)) = mx_sockets s" for socket what a ok
    using same_sockets_event [of s socket what a ok] by (simp add: same_sockets_def)
  moreover have "\<exists>k. mx_sockets (fst (handle_close_socket item s)) sid = Some k \<and> sock_fd k = fd" for item
    using k(2,3) by (simp add: handle_close_socket_def close_tcp_socket_def mx_emit_def Let_def split: option.split)
  ultimately have "\<exists>k. mx_sockets (run_cb cb s) sid = Some k \<and> sock_fd k = fd"
    using k(2,3) by (cases cb) (simp_all add: handle_timeout_event_def handle_open_socket_def write_callback_def
        header_callback_def mx_emit_def Let_def split: option.split)
  then show ?thesis using sock_inv_cb [OF k(1)] by (simp add: has_fd_def)
qed

lemma has_fd_emit: "has_fd sid fd (mx_emit ev s) = has_fd sid fd s"
  by (simp add: has_fd_def) (simp add: mx_emit_def)

interpretation fk: callback_property "has_fd sid fd" for sid fd
  by unfold_locales (auto simp: has_fd_cb has_fd_emit, simp_all add: has_fd_def)

lemma has_fd_in_map:
  assumes "has_fd sid fd s" and "map_of (mx_socket_map s) fd' = Some sid"
  shows "fd' = fd"
proof -
  have "(fd', sid) \<in> set (mx_socket_map s)" using assms(2) by (rule map_of_SomeD)
  with assms(1) show ?thesis by (fastforce simp: has_fd_def sock_inv_def)
qed

section \<open>Serving a wait\<close>

text \<open>The number of running transfers is the one that \<^verbatim>\<open>curl_multi_socket_action\<close> returned.\<close>

lemma running_cb: "mx_still_running (run_cb cb s) = mx_still_running s"
proof -
  have set: "mx_still_running (fst (handle_set_socket fd action a v)) = mx_still_running v" for fd action a and v :: "'a mx_client"
    by (simp add: handle_set_socket_def arm_socket_watches_def watch_def mx_emit_def Let_def split: option.split)
  then have "mx_still_running (fst (handle_socket_event fd what actionp ok s)) = mx_still_running s" for fd what actionp ok
    by (simp add: handle_socket_event_def handle_add_socket_def handle_remove_socket_def mx_emit_def Let_def
        case_prod_beta split: option.split)
  then show ?thesis
    by (cases cb) (simp_all add: handle_timeout_event_def handle_open_socket_def handle_close_socket_def
        close_tcp_socket_def write_callback_def header_callback_def mx_emit_def Let_def split: option.split)
qed

lemma running_cbs: "mx_still_running (run_cbs cbs s) = mx_still_running s"
  by (induction cbs arbitrary: s) (simp_all add: running_cb mx_emit_def)

lemma running_check: "mx_still_running (check_multi_info msgs s) = mx_still_running s"
  by (induction msgs s rule: check_multi_info.induct)
    (simp_all add: finish_request_def multi_remove_handle_def running_cbs respond_def mx_emit_def Let_def split: option.split)

lemma interest_arm: "interest_watched x s \<Longrightarrow> interest_watched x (arm_socket_watches sid action s)"
proof -
  have "watched (arm_socket_watches sid action s) d act" if "watched s d act" for d act
    using that by (rule watched_more) (simp add: arm_waits)
  then show "interest_watched x s \<Longrightarrow> ?thesis" by (auto simp: interest_watched_def watches_def)
qed

lemma interest_timer: "interest_watched x (timer_cancel s) = interest_watched x s"
  by (simp add: interest_watched_def)

lemma interest_served:
  assumes "interest_watched (Some sid) s" and "has_fd sid fd s"
  shows "interest_watched (if ok \<and> running > 0 then Some sid else None) (mx_emit (Socket_served fd ok running) s)"
proof (cases "ok \<and> running > 0")
  case True
  then show ?thesis using assms(1) by (simp add: interest_watched_def declared_emit)
next
  case False
  have "watches ((declared s)(fd := None)) (Some sid) s"
    using assms(1) watches_less [OF _ less_one] by (auto simp: interest_watched_def)
  then have "watches ((declared s)(fd := None)) None s"
    using has_fd_in_map [OF assms(2)] unfolding watches_def by (metis fun_upd_same option.distinct(1) option.inject)
  with False show ?thesis by (auto simp: interest_watched_def declared_emit)
qed

lemma event_serves:
  assumes "sock_inv s" and "interest_watched (Some sid) s" and "mx_multi s" and "mx_sockets s sid = Some k"
    and "sock_open k" and "t = event_callback r sid dir s"
  shows "interest_watched None t"
proof -
  define fd where "fd = sock_fd k"
  define x where "x = (if reply_ok r \<and> reply_running r > 0 then Some sid else None)"
  define s1 where "s1 = socket_action (Multi_socket_action fd (if dir = Wait_read then Poll_in else Poll_out)) r s"
  define s2 where "s2 = mx_emit (Socket_served fd (reply_ok r) (reply_running r)) s1"
  define u where "u = check_multi_info (reply_msgs r) s2"
  have 1: "sock_inv s1 \<and> interest_watched (Some sid) s1"
    unfolding s1_def by (rule wk.action) (simp_all add: assms(1,2))
  have fd1: "has_fd sid fd s1"
    unfolding s1_def using assms(1,4) by (intro fk.action) (simp_all add: has_fd_def fd_def)
  have "interest_watched x s2" unfolding s2_def x_def by (rule interest_served [OF _ fd1]) (simp add: 1)
  then have 2: "sock_inv s2 \<and> interest_watched x s2" using 1 by (simp add: s2_def)
  then have u: "interest_watched x u" unfolding u_def using wk.check by blast
  have "has_fd sid fd u" unfolding u_def using fd1 by (intro fk.check) (simp add: s2_def has_fd_emit)
  then have fd: "fd' = fd" if "map_of (mx_socket_map u) fd' = Some sid" for fd' using that by (rule has_fd_in_map)
  have running: "mx_still_running u = reply_running r"
    by (simp add: u_def running_check s2_def s1_def socket_action_def mx_emit_def)
  have t: "t = (if \<not> reply_ok r then s2 else if mx_still_running u \<le> 0 then timer_cancel u
      else case mx_socket_actions u fd of None \<Rightarrow> u | Some action \<Rightarrow> arm_socket_watches sid action u)"
    unfolding assms(6) event_callback_def u_def s2_def s1_def fd_def Let_def
    by (simp add: assms(3-5) split del: if_split)
  show ?thesis
  proof (cases "x = None")
    case True
    then show ?thesis using 2 u interest_arm by (auto simp: t interest_timer split: option.split)
  next
    case False
    then have x: "x = Some sid" "reply_ok r" "\<not> mx_still_running u \<le> 0" by (auto simp: x_def running split: if_splits)
    show ?thesis
    proof (cases "mx_socket_actions u fd")
      case None
      then have "t = u" using x by (simp add: t)
      then show ?thesis using u None fd unfolding x(1) interest_watched_def watches_def
        by (metis option.distinct(1) option.inject)
    next
      case (Some action)
      then have t: "t = arm_socket_watches sid action u" using x by (simp add: t)
      have "interest_watched (Some sid) t" using u interest_arm by (simp add: t x(1))
      moreover have "watched t sid action" by (simp add: t watched_arm)
      moreover have "mx_socket_actions t fd = Some action" "mx_socket_map t = mx_socket_map u" by (simp_all add: t Some)
      ultimately show ?thesis using fd unfolding interest_watched_def watches_def by (metis option.inject)
    qed
  qed
qed

text \<open>A wait whose handler runs is no longer outstanding.\<close>

lemma interest_remove_wait:
  assumes "interest_watched None s" and "i < length (mx_waits s)" and "w = mx_waits s ! i"
    and "u = s\<lparr>mx_waits := take i (mx_waits s) @ drop (Suc i) (mx_waits s)\<rparr>"
  shows "interest_watched (Some (sw_socket w)) u" and "sw_cancelled w \<Longrightarrow> interest_watched None u"
proof -
  have "set (mx_waits s) \<subseteq> insert w (set (mx_waits u))"
    using assms(2) by (subst id_take_nth_drop [OF assms(2)]) (auto simp: assms(3,4))
  then have keep: "open_wait d dir \<in> set (mx_waits u)" if "open_wait d dir \<in> set (mx_waits s)" "open_wait d dir \<noteq> w" for d dir
    using that by blast
  have fields: "mx_socket_actions u = mx_socket_actions s" "mx_socket_map u = mx_socket_map s" "declared u = declared s"
    by (simp_all add: assms(4))
  have "watched u d act" if "watched s d act" "d \<noteq> sw_socket w \<or> sw_cancelled w" for d act
    unfolding watched_def
  proof
    fix dir
    assume "dir \<in> directions act"
    then have "open_wait d dir \<in> set (mx_waits s)" using that(1) by (simp add: watched_def)
    moreover have "open_wait d dir \<noteq> w" using that(2) by (cases w) auto
    ultimately show "open_wait d dir \<in> set (mx_waits u)" by (rule keep)
  qed
  note watched = this
  show "interest_watched (Some (sw_socket w)) u"
    using assms(1) watched unfolding interest_watched_def watches_def fields by blast
  show "interest_watched None u" if "sw_cancelled w"
    using assms(1) watched that unfolding interest_watched_def watches_def fields by blast
qed

section \<open>The invariant\<close>

definition driven :: "'h mx_client \<Rightarrow> bool" where
  "driven s \<longleftrightarrow> sock_inv s \<and> interest_watched None s \<and> (\<not> mx_multi s \<longrightarrow> declared s = Map.empty)"

definition socket_is_open :: "'h mx_client \<Rightarrow> nat \<Rightarrow> bool" where
  "socket_is_open s sid \<longleftrightarrow> (case mx_sockets s sid of None \<Rightarrow> False | Some k \<Rightarrow> sock_open k)"

text \<open>
  What Asio documents: a wait on an open socket ends with an error only if it was cancelled. Nothing is assumed
  of curl.
\<close>

fun wait_contract :: "'h mx_client \<Rightarrow> 'h mx_input \<Rightarrow> bool" where
  "wait_contract s (Mx_in_wait i ec r) =
     (i < length (mx_waits s) \<longrightarrow>
        \<not> sw_cancelled (mx_waits s ! i) \<and> socket_is_open s (sw_socket (mx_waits s ! i)) \<longrightarrow> ec = None)"
| "wait_contract s _ = True"

lemma driven_wait:
  assumes "driven s" and "i < length (mx_waits s)" and "wait_contract s (Mx_in_wait i ec r)"
    and "t = mx_step s (Mx_in_wait i ec r)"
  shows "interest_watched None t"
proof -
  define w where "w = mx_waits s ! i"
  define u where "u = s\<lparr>mx_waits := take i (mx_waits s) @ drop (Suc i) (mx_waits s)\<rparr>"
  note removed = interest_remove_wait [OF _ assms(2) w_def u_def]
  have s: "sock_inv s" "interest_watched None s" "\<not> mx_multi s \<Longrightarrow> declared s = Map.empty"
    using assms(1) by (simp_all add: driven_def)
  have u: "sock_inv u" "mx_multi u = mx_multi s" "mx_sockets u = mx_sockets s" "declared u = declared s"
    using s(1) by (simp_all add: u_def)
  have t: "t = handle_socket_wait ec r (sw_socket w) (sw_dir w) u"
    using assms(2) by (simp add: assms(4) w_def u_def)
  show ?thesis
  proof (cases "mx_multi s \<and> socket_is_open s (sw_socket w) \<and> ec = None")
    case True
    then obtain k where k: "mx_sockets u (sw_socket w) = Some k" "sock_open k"
      by (auto simp: socket_is_open_def u(3) split: option.splits)
    from True u(2) event_serves [OF u(1) removed(1) [OF s(2)] _ k] show ?thesis
      by (simp add: t handle_socket_wait_def)
  next
    case False
    have "t = u"
      using False by (auto simp: t handle_socket_wait_def event_callback_def u(2,3) socket_is_open_def split: option.splits)
    moreover have "interest_watched None u"
    proof (cases "mx_multi s \<and> socket_is_open s (sw_socket w)")
      case True
      with False assms(2,3) have "sw_cancelled w" by (auto simp: w_def)
      then show ?thesis by (rule removed(2) [OF s(2)])
    next
      case unused: False
      have "map_of (mx_socket_map u) fd \<noteq> Some (sw_socket w)" if "mx_multi s" for fd
        using that unused u(1,3) by (auto simp: socket_is_open_def sock_inv_def dest!: map_of_SomeD)
      then show ?thesis
        using removed(1) [OF s(2)] s(3) unfolding interest_watched_def watches_def u(4)
        by (metis option.distinct(1) option.inject)
    qed
    ultimately show ?thesis by simp
  qed
qed

lemma multi_step: "mx_multi (mx_step s i) = mx_multi s"
proof (cases i)
  case (Mx_in_cancel cbs)
  have "mx_multi (close_all_sockets v) = mx_multi v" for v :: "'a mx_client"
    using close_all_same [of v] by (simp add: same_requests_def)
  then show ?thesis
    using mk.cancel [of "(timer_cancel s)\<lparr>mx_connections := []\<rparr>" "mx_multi s" cbs "mx_connections s"]
    by (simp add: Mx_in_cancel mx_do_cancel_def Let_def)
next
  case (Mx_in_wait j ec r)
  have "mx_multi (arm_socket_watches sid action v) = mx_multi v" for sid action and v :: "'a mx_client"
    using same_requests_arm [of v] by (simp add: same_requests_def)
  moreover have served: "mx_multi (mx_emit ev v) = mx_multi v" for ev and v :: "'a mx_client"
    by (simp add: mx_emit_def)
  moreover have act: "mx_multi (socket_action (Multi_socket_action fd a) r (s\<lparr>mx_waits := x\<rparr>)) = mx_multi s" for fd a x
    by (intro mk.action) simp_all
  moreover have "mx_multi (check_multi_info msgs (mx_emit ev (socket_action (Multi_socket_action fd a) r (s\<lparr>mx_waits := x\<rparr>)))) = mx_multi s"
    for msgs ev fd a x by (intro mk.check) (simp add: served act)
  ultimately show ?thesis
    by (simp add: Mx_in_wait handle_socket_wait_def event_callback_def Let_def split: option.split)
next
  case (Mx_in_timer j ec r)
  have "mx_multi (asio_timer_callback ec r (s\<lparr>mx_timer_waits := x\<rparr>)) = mx_multi s" for x
    by (intro mk.timer) simp
  then show ?thesis by (simp add: Mx_in_timer)
next
  case (Mx_in_request a r)
  have "mx_multi (start_request r c meth conn (s\<lparr>mx_next := n, mx_conns := x\<rparr>)) = mx_multi s" for c meth conn n x
    by (intro mk.request) simp
  then show ?thesis by (simp add: Mx_in_request mx_do_request_def mk.respond Let_def)
qed (simp add: do_set_ca_certificate_def)

text \<open>Without a multi handle curl is never called, so it says nothing.\<close>

lemma declared_respond: "declared (respond h ec response s) = declared s"
  by (simp add: respond_def declared_emit split: option.split)

lemma declared_cancel_loop:
  assumes "\<not> mx_multi s"
  shows "declared (cancel_loop cbs cs s) = declared s"
  using assms
proof (induction cs arbitrary: s)
  case (Cons c cs)
  have "\<not> mx_multi (respond h ec response v)" if "\<not> mx_multi v" for h ec response and v :: "'a mx_client"
    using that by (simp add: respond_def mx_emit_def split: option.split)
  with Cons show ?case by (simp add: declared_respond Let_def split: option.split)
qed simp

lemma declared_close_all: "declared (close_all_sockets s) = declared s"
proof -
  have "declared (close_tcp_socket sid v) = declared v" for sid and v :: "'a mx_client"
    by (simp add: declared_def close_tcp_socket_def mx_emit_def)
  then have "declared (fold (\<lambda>entry s. close_tcp_socket (snd entry) s) es s) = declared s" for es
    by (induction es arbitrary: s) simp_all
  then show ?thesis by (simp add: close_all_sockets_def)
qed

lemma no_multi_step:
  assumes "\<not> mx_multi s" and "declared s = Map.empty"
  shows "declared (mx_step s i) = Map.empty"
proof (cases i)
  case (Mx_in_cancel cbs)
  have "declared (v\<lparr>mx_socket_map := x1, mx_socket_actions := x2, mx_actions := x3, mx_still_running := x4\<rparr>) = declared v"
    for x1 x2 x3 x4 and v :: "'a mx_client" by (simp add: declared_def)
  with assms show ?thesis
    by (simp add: Mx_in_cancel mx_do_cancel_def declared_close_all declared_cancel_loop Let_def)
next
  case (Mx_in_set_ca ca)
  then show ?thesis using assms by (simp add: do_set_ca_certificate_def declared_def)
qed (use assms in \<open>simp_all add: mx_do_request_def start_request_def declared_respond
      handle_socket_wait_def event_callback_def asio_timer_callback_def Let_def split: option.split\<close>)

lemma driven_step:
  assumes "driven s" and "wait_contract s i"
  shows "driven (mx_step s i)"
proof -
  have s: "sock_inv s \<and> interest_watched None s" using assms(1) by (simp add: driven_def)
  have "interest_watched None (mx_step s i)"
  proof (cases i)
    case (Mx_in_request a r)
    have new: "sock_inv (s\<lparr>mx_next := Suc (mx_next s), mx_conns := x\<rparr>) \<and>
        interest_watched None (s\<lparr>mx_next := Suc (mx_next s), mx_conns := x\<rparr>)" for x
      using s by (auto simp: sock_inv_def less_Suc_eq interest_watched_def)
    moreover have "interest_watched None (respond h ec response s)" for h ec response
      using s by (simp add: respond_def interest_emit split: option.split)
    ultimately show ?thesis using wk.request [OF new] by (simp add: Mx_in_request mx_do_request_def Let_def)
  next
    case (Mx_in_cancel cbs)
    then show ?thesis by (simp add: mx_do_cancel_def Let_def interest_watched_def watches_def)
  next
    case (Mx_in_set_ca ca)
    then show ?thesis using s by (simp add: do_set_ca_certificate_def interest_watched_def watches_def watched_def declared_def)
  next
    case (Mx_in_wait j ec r)
    then show ?thesis
      using driven_wait [OF assms(1) _ _ refl] assms(2) s by (cases "j < length (mx_waits s)") simp_all
  next
    case (Mx_in_timer j ec r)
    have "interest_watched None (asio_timer_callback ec r (s\<lparr>mx_timer_waits := x\<rparr>))" for x
      using wk.timer [of "s\<lparr>mx_timer_waits := x\<rparr>" None ec r] s by (simp add: interest_watched_def)
    with s show ?thesis by (simp add: Mx_in_timer)
  qed
  then show ?thesis
    using assms(1) no_multi_step [of s i] by (simp add: driven_def sock_inv_step multi_step del: mx_step.simps)
qed

interpretation dr: contracted_run mx_step wait_contract driven
  by unfold_locales (rule driven_step)

section \<open>The timeout\<close>

definition armed_timeouts :: "'h mx_client \<Rightarrow> int list" where
  "armed_timeouts s = map tw_timeout (filter (\<lambda>w. \<not> tw_cancelled w) (mx_timer_waits s))"

lemma armed_timeouts_cancel [simp]: "armed_timeouts (timer_cancel s) = []"
  by (simp add: armed_timeouts_def timer_cancel_def mx_emit_def comp_def filter_map)

lemma armed_timeout_event:
  "armed_timeouts (fst (handle_timeout_event t s)) = (if t < 0 then [] else [t])"
  using armed_timeouts_cancel [of s] by (simp add: handle_timeout_event_def armed_timeouts_def mx_emit_def Let_def)


lemma armed_timeouts_frame [simp]:
  "armed_timeouts (s\<lparr>mx_trace := x1\<rparr>) = armed_timeouts s" "armed_timeouts (s\<lparr>mx_still_running := x2\<rparr>) = armed_timeouts s"
  "armed_timeouts (s\<lparr>mx_connections := x3\<rparr>) = armed_timeouts s" "armed_timeouts (s\<lparr>mx_pending := x4\<rparr>) = armed_timeouts s"
  "armed_timeouts (s\<lparr>mx_conns := x5\<rparr>) = armed_timeouts s" "armed_timeouts (s\<lparr>mx_waits := x6\<rparr>) = armed_timeouts s"
  "armed_timeouts (mx_next_update f s) = armed_timeouts s" "armed_timeouts (mx_emit ev s) = armed_timeouts s"
  "armed_timeouts (arm_socket_watches sid action s) = armed_timeouts s"
  by (simp_all add: armed_timeouts_def mx_emit_def arm_socket_watches_def watch_def Let_def)

lemma timer_waits_cb:
  "mx_timer_waits (fst (handle_set_socket fd action a s)) = mx_timer_waits s"
  "mx_timer_waits (fst (handle_socket_event fd what actionp ok s)) = mx_timer_waits s"
  "mx_timer_waits (fst (handle_open_socket purpose family r s)) = mx_timer_waits s"
  "mx_timer_waits (fst (handle_close_socket item s)) = mx_timer_waits s"
proof -
  show set: "mx_timer_waits (fst (handle_set_socket fd action a s)) = mx_timer_waits s" for fd action a and s :: "'a mx_client"
    by (simp add: handle_set_socket_def arm_socket_watches_def watch_def mx_emit_def Let_def split: option.split)
  show "mx_timer_waits (fst (handle_socket_event fd what actionp ok s)) = mx_timer_waits s"
    by (simp add: handle_socket_event_def handle_add_socket_def handle_remove_socket_def mx_emit_def set Let_def
        case_prod_beta split: option.split)
  show "mx_timer_waits (fst (handle_open_socket purpose family r s)) = mx_timer_waits s"
    "mx_timer_waits (fst (handle_close_socket item s)) = mx_timer_waits s"
    by (simp_all add: handle_open_socket_def handle_close_socket_def close_tcp_socket_def mx_emit_def Let_def
        split: option.split)
qed

lemma close_all_timer_waits: "mx_timer_waits (close_all_sockets s) = mx_timer_waits s"
proof -
  have "mx_timer_waits (fold (\<lambda>entry s. close_tcp_socket (snd entry) s) es s) = mx_timer_waits s" for es
    by (induction es arbitrary: s) (simp_all add: close_tcp_socket_def mx_emit_def)
  then show ?thesis by (simp add: close_all_sockets_def)
qed

definition one_timeout :: "'h mx_client \<Rightarrow> bool" where
  "one_timeout s \<longleftrightarrow> length (armed_timeouts s) \<le> 1"

lemma one_timeout_cb: "one_timeout s \<Longrightarrow> one_timeout (run_cb cb s)"
proof (cases cb)
  case (Cb_timer n)
  then show ?thesis by (simp add: one_timeout_def armed_timeout_event)
qed (simp_all add: one_timeout_def write_callback_def header_callback_def armed_timeouts_def timer_waits_cb
    split: option.split)

lemma one_timeout_emit: "one_timeout (mx_emit ev s) = one_timeout s"
  by (simp add: one_timeout_def)

interpretation tk: callback_property one_timeout
  by unfold_locales (simp_all add: one_timeout_cb one_timeout_emit, simp_all add: one_timeout_def)

lemma one_timeout_step:
  assumes "one_timeout s"
  shows "one_timeout (mx_step s i)"
proof (cases i)
  case (Mx_in_request a r)
  have "one_timeout (start_request r c meth conn (s\<lparr>mx_next := n, mx_conns := x\<rparr>))" for c meth conn n x
    by (rule tk.request) (use assms in \<open>simp add: one_timeout_def\<close>)
  then show ?thesis using assms by (simp add: Mx_in_request mx_do_request_def tk.respond Let_def)
next
  case (Mx_in_cancel cbs)
  have "one_timeout (cancel_loop cbs (mx_connections s) ((timer_cancel s)\<lparr>mx_connections := []\<rparr>))"
    by (rule tk.cancel) (simp add: one_timeout_def)
  then show ?thesis
    by (simp add: Mx_in_cancel mx_do_cancel_def one_timeout_def Let_def)
      (simp add: armed_timeouts_def close_all_timer_waits)
next
  case (Mx_in_wait j ec r)
  have u: "one_timeout (s\<lparr>mx_waits := x\<rparr>)" for x using assms by (simp add: one_timeout_def)
  then have served: "one_timeout (mx_emit ev (socket_action (Multi_socket_action fd a) r (s\<lparr>mx_waits := x\<rparr>)))" for ev fd a x
    by (simp add: one_timeout_emit tk.action)
  have "one_timeout (timer_cancel v)" "one_timeout (arm_socket_watches d act v) = one_timeout v"
    for d act and v :: "'a mx_client" by (simp_all add: one_timeout_def)
  then have "one_timeout (event_callback r sid dir (s\<lparr>mx_waits := x\<rparr>))" for sid dir x
    using u served tk.check [OF served] by (simp add: event_callback_def Let_def split: option.split)
  with u show ?thesis using assms by (simp add: Mx_in_wait handle_socket_wait_def)
next
  case (Mx_in_timer j ec r)
  let ?u = "s\<lparr>mx_timer_waits := take j (mx_timer_waits s) @ drop (Suc j) (mx_timer_waits s)\<rparr>"
  have "one_timeout ?u" if "j < length (mx_timer_waits s)"
    using assms length_filter_remove_nth [OF that, of "\<lambda>w. \<not> tw_cancelled w"]
    by (simp add: one_timeout_def armed_timeouts_def split: if_splits)
  then show ?thesis using assms tk.timer [of ?u ec r] by (simp add: Mx_in_timer)
qed (use assms in \<open>simp add: do_set_ca_certificate_def one_timeout_def armed_timeouts_def\<close>)

section \<open>Property\<close>

text \<open>
  C7: curl is driven. What curl declared is read off its calls of the socket, open and close callbacks. In every
  run in which Asio keeps its contract for waits, whatever curl does: for each descriptor of a socket
  that the client owns and in which curl has declared an interest that has not lapsed, the socket is open, and for
  every direction of that interest there is an outstanding wait on it that was not cancelled; so no event
  on it is missed. Left out are descriptors that the client does not own (the socket callback returns early for
  them), and interests that lapsed because \<^verbatim>\<open>curl_multi_socket_action\<close> for the descriptor failed or reported
  that no transfer is running. At most one wait of the timer is armed; when curl asks for a timeout, the timer is
  armed for exactly that time, and when curl withdraws it no timer is armed.
\<close>

theorem mx_curl_is_driven:
  assumes "keeps_contract mx_step wait_contract (new_mx_client once ok) inputs"
    and "s = mx_run (new_mx_client once ok) inputs"
  shows "(\<forall>fd sid action. declared s fd = Some action \<and> map_of (mx_socket_map s) fd = Some sid \<longrightarrow>
      mx_sockets s sid = Some \<lparr>sock_fd = fd, sock_open = True\<rparr> \<and>
      (\<forall>dir \<in> directions action. open_wait sid dir \<in> set (mx_waits s))) \<and>
    length (armed_timeouts s) \<le> 1 \<and>
    (\<forall>t. armed_timeouts (run_cb (Cb_timer t) s) = (if t < 0 then [] else [t]))"
proof -
  have "driven (new_mx_client once ok)"
    by (simp add: driven_def sock_inv_new)
      (auto simp: new_mx_client_def interest_watched_def watches_def declared_def ensure_curl_global_init_def multi_options_def)
  from dr.run_inv [OF this assms(1)] have "driven s" by (simp add: assms(2) mx_run_foldl)
  then have s: "sock_inv s" "interest_watched None s" by (simp_all add: driven_def)
  have "one_timeout (mx_run v is)" if "one_timeout v" for v :: "'a mx_client" and "is"
    using that by (induction "is" arbitrary: v) (simp_all add: one_timeout_step del: mx_step.simps)
  from this [of "new_mx_client once ok" inputs] have one: "length (armed_timeouts s) \<le> 1"
    by (simp add: assms(2) one_timeout_def new_mx_client_def armed_timeouts_def)
  have "mx_sockets s sid = Some \<lparr>sock_fd = fd, sock_open = True\<rparr>" if "map_of (mx_socket_map s) fd = Some sid" for fd sid
    using map_of_SomeD [OF that] s(1) by (auto simp: sock_inv_def)
  with s(2) one show ?thesis
    by (simp add: armed_timeout_event interest_watched_def watches_def watched_def)
qed

text \<open>A request whose socket curl polls for reading; an event on it, after which curl keeps its interest.\<close>

definition polling_start :: start_replies where
  "polling_start = plain_start\<lparr>action_reply := plain_reply\<lparr>reply_running := 1, reply_cbs :=
     [Cb_open True Af_inet \<lparr>open_ec = None, non_blocking_ec = None, opened_fd = 5\<rparr>, Cb_socket 5 (Some Poll_in) None True]\<rparr>\<rparr>"

definition polling_inputs :: "nat mx_input list" where
  "polling_inputs = [Mx_in_request (mx_get_args ''h'' ''443'' ''/'' 0 (Some 7)) polling_start,
     Mx_in_wait 0 None (plain_reply\<lparr>reply_running := 1\<rparr>)]"

lemmas polling_eval = polling_start_def new_mx_client_def mx_do_request_def mx_get_args_def new_conn_def
  start_request_def plain_start_def plain_reply_def apply_method_def configure_easy_handle_def setopts_def
  socket_action_def mx_emit_def easy_options_def handle_open_socket_def handle_socket_event_def handle_add_socket_def
  handle_set_socket_def arm_socket_watches_def watch_def socket_cancel_def handle_socket_wait_def event_callback_def

theorem mx_curl_is_driven_witness:
  "declared (mx_run (new_mx_client False True) polling_inputs) 5 = Some Poll_in \<and>
   open_wait 1 Wait_read \<in> set (mx_waits (mx_run (new_mx_client False True) polling_inputs))"
proof -
  let ?s = "mx_run (new_mx_client False True) polling_inputs"
  have c: "keeps_contract mx_step wait_contract (new_mx_client False True) polling_inputs"
    by (simp add: polling_inputs_def polling_eval)
  have "declared ?s 5 = Some Poll_in" "map_of (mx_socket_map ?s) 5 = Some 1"
    by (simp_all add: declared_def polling_inputs_def polling_eval ensure_curl_global_init_def multi_options_def)
  with mx_curl_is_driven [OF c refl] show ?thesis by fastforce
qed

section \<open>A finding\<close>

text \<open>
  \<^verbatim>\<open>do_cancel\<close> closes every socket in the table, also those of finished requests, which curl keeps open in its
  connection pool and is not told about. The operating system may then give the same descriptor to the socket
  of a later request; when curl drops the pooled connection, its close callback names that descriptor, and
  \<^verbatim>\<open>handle_close_socket\<close> closes the socket of the request in progress.
\<close>

definition reused_descriptor_inputs :: "nat mx_input list" where
  "reused_descriptor_inputs =
     [Mx_in_request (mx_get_args ''a'' ''443'' ''/'' 0 (Some 7)) polling_start,
      Mx_in_wait 0 None (plain_reply\<lparr>reply_cbs := [Cb_socket 5 None None True],
        reply_msgs := [Msg_done 0 Curle_ok 200 []]\<rparr>),
      Mx_in_cancel (\<lambda>c. []),
      Mx_in_request (mx_get_args ''b'' ''443'' ''/'' 0 (Some 8)) polling_start]"

lemma cancel_closes_pooled_socket:
  "let s = mx_run (new_mx_client False True) reused_descriptor_inputs; t = run_cb (Cb_close 5) s
   in Responded 7 None \<lparr>mx_status_code = 200, mx_body = [], mx_headers = []\<rparr> \<in> set (mx_trace s) \<and>
      Responded 8 (Some operation_canceled) no_response \<notin> set (mx_trace s) \<and>
      mx_sockets s 1 = Some \<lparr>sock_fd = 5, sock_open = False\<rparr> \<and>
      map_of (mx_socket_map s) 5 = Some 4 \<and> mx_sockets s 4 = Some \<lparr>sock_fd = 5, sock_open = True\<rparr> \<and>
      mx_connections t = mx_connections s \<and> mx_connections s \<noteq> [] \<and>
      mx_sockets t 4 = Some \<lparr>sock_fd = 5, sock_open = False\<rparr>"
  by (simp add: reused_descriptor_inputs_def polling_eval finish_request_def multi_remove_handle_def respond_def
      mx_do_cancel_def timer_cancel_def close_all_sockets_def close_tcp_socket_def handle_close_socket_def
      handle_remove_socket_def ensure_curl_global_init_def multi_options_def)

end
