(* ===== verification/Spec2Isabelle.thy ===== *)
theory Spec2Isabelle
  imports Fixed_Ring_Buffer Executor Doorbell Timer Tls_Context Request_Service
    Https_Client_Async Https_Properties Https_Refinement
    Secure_WebSocket_Client WebSocket_Writes WebSocket_Properties WebSocket_Reads WebSocket_Progress WebSocket_Security
    Reconnecting_WebSocket_Client Reconnecting_Properties Reconnecting_Automaton Reconnecting_Progress
    Https_Multiplex_Client Multiplex_Properties Multiplex_Responses Multiplex_Sockets Multiplex_Driving
begin

text \<open>
  Verification of the library \<^verbatim>\<open>cpp_components\<close> (the directory \<^verbatim>\<open>src/cpp_components/\<close>).

  \<^bold>\<open>The program.\<close> The library is a set of building blocks for network programs with one event loop. An
  \<^verbatim>\<open>Executor\<close> owns an \<^verbatim>\<open>io_context\<close> and the thread that runs it; other threads post closures to it or ring its
  doorbell. All clients run on an executor: their public operations only post a closure, and everything
  else happens in closures and completion handlers on the executor thread, one after another. There
  are four clients: \<^verbatim>\<open>HttpsClientAsync\<close> (one request at a time over Boost.Beast), \<^verbatim>\<open>HttpsMultiplexClient\<close> (many
  requests over libcurl's multi interface), \<^verbatim>\<open>SecureWebSocketClient\<close>, and
  \<^verbatim>\<open>ReconnectingSecureWebSocketClient\<close>, derived from it. The WebSocket client queues its outgoing messages
  in a \<^verbatim>\<open>FixedRingBuffer\<close> of write slots; the clients use \<^verbatim>\<open>Timer\<close>, a wrapper of Asio's timer.

  \<^bold>\<open>The theories.\<close>

  \<^item> \<open>Prelude\<close>: 64-bit words, error codes, durations; shared lemmas and rule collections.
  \<^item> \<open>Fixed_Ring_Buffer\<close> (\<^verbatim>\<open>fixed_ring_buffer.h\<close>): the class with its two free-running 64-bit positions. It
    refines a bounded list queue, also across the wrap-around of the positions; the locale \<open>bounded_fifo\<close>
    is its contract.
  \<^item> \<open>Executor\<close> (\<^verbatim>\<open>executor.cpp\<close>): construction, \<^verbatim>\<open>start\<close>, \<^verbatim>\<open>stop\<close>, \<^verbatim>\<open>run\<close>, \<^verbatim>\<open>ring\<close> and the thread controls, with
    the stores and waits of the executor thread at any time; the life-cycle invariant and that an executor
    starts at most once.
  \<^item> \<open>Doorbell\<close> (\<^verbatim>\<open>executor.cpp\<close>: \<^verbatim>\<open>ring\<close>, \<^verbatim>\<open>handle_doorbell\<close>, \<^verbatim>\<open>run_doorbell_handler\<close>, \<^verbatim>\<open>stop\<close>): any number of producer
    threads and of threads that call \<^verbatim>\<open>stop\<close> against the executor thread as a step relation, up to the return
    of \<^verbatim>\<open>io_context.run\<close>; no wake-up is lost, the eventfd counter stays small, a stopped executor runs no further
    handler, and the \<^verbatim>\<open>join\<close> in \<^verbatim>\<open>stop\<close> returns, because of the cancellation that \<^verbatim>\<open>stop\<close> posts.
  \<^item> \<open>Timer\<close> (\<^verbatim>\<open>timer.cpp\<close>): every wait ends in one call of its handler by the executor; the destructor makes those
    that still wait ready with \<^verbatim>\<open>operation_aborted\<close> and calls none itself.
  \<^item> \<open>Tls_Context\<close>: the TLS context of the HTTPS and the WebSocket client (constructors and
    \<^verbatim>\<open>set_ca_certificate\<close>); peers are always verified.
  \<^item> \<open>Request_Service\<close>: the locale \<open>request_service\<close>, the contract that the two HTTPS clients share: what is
    given is either outstanding or answered, step by step, and therefore over whole runs. It is interpreted
    for both clients.
  \<^item> \<open>Contracted_Runs\<close>: the locale \<open>contracted_run\<close>, for invariants that rest on the documented behaviour of a library:
    if every step keeps the invariant under a contract on the inputs, then so does every run that keeps the
    contract (\<open>keeps_contract\<close>). It is interpreted for the WebSocket client (reads, timers, secured
    streams), the reconnecting client and the multiplexing client.
  \<^item> \<open>Https_Client_Async\<close> (\<^verbatim>\<open>https_client_async.cpp\<close>) is the model of the client, \<open>Https_Properties\<close> its
    properties: every handler is called exactly once, a request in progress always has one operation of its own
    to make it advance, a request is written only when the TLS handshake of a stream bound to its host succeeds, errors are reported unchanged,
    success delivers the response. \<open>Https_Refinement\<close>: the client implements an abstract slot that serves one
    request at a time; the timeout of each operation; the message that a request is sent as.
  \<^item> \<open>Secure_WebSocket_Client\<close> (\<^verbatim>\<open>secure_websocket_client.cpp\<close>): the model, with user handlers as programs that
    may call back into the client. \<open>WebSocket_Writes\<close> has the invariant of the write queue and the
    locale \<open>ws_handlers\<close>, what the client relies on of the handlers it calls and of the virtual
    \<^verbatim>\<open>on_unexpected_disconnect\<close>; it is interpreted for both classes. \<open>WebSocket_Properties\<close> has the
    properties of the base class: one write at a time and in order, no handler lost or called twice,
    closing cancels the queue, connecting, losing the connection, the read and ping timers.
    \<open>WebSocket_Reads\<close> has the reading side: one read outstanding while connected and never two on a stream,
    messages delivered as received with the promised padding behind them. \<open>WebSocket_Progress\<close>: an attempt to
    connect always has an operation outstanding and goes from stage to stage until it ends, and while
    connected the read and ping timers are set, each with a wait outstanding. \<open>WebSocket_Security\<close>: nothing is
    sent or read over a stream before the host that the user named in the last call of \<^verbatim>\<open>connect\<close> was set on it for SNI and
    verification, both without an error, and its TLS handshake succeeded.
  \<^item> \<open>Reconnecting_WebSocket_Client\<close> and \<open>Reconnecting_Properties\<close>
    (\<^verbatim>\<open>reconnecting_secure_websocket_client.cpp\<close>): the derived class as an extension of the base class's record;
    the write discipline is inherited, lost connections are re-established, delays double up to the
    maximum, closing is final. The locales \<open>handler_property\<close> and \<open>posted_property\<close> lift a property of
    single calls to everything a user's handler can do. \<open>Reconnecting_Automaton\<close> states what the derived class
    adds as an automaton of its state, its generation and its waits; the class refines it, and a client that
    waits always has a wait outstanding that starts the next attempt. \<open>Reconnecting_Progress\<close>: invariants of the base
    class are inherited (locale \<open>inherited_invariant\<close>), so a connected client reads and watches its connection over
    any number of reconnections, and the state of the derived class agrees with that of the connection; and the
    objects of both classes stay well-formed.
  \<^item> \<open>Https_Multiplex_Client\<close> and \<open>Multiplex_Properties\<close> (\<^verbatim>\<open>https_multiplex_client.cpp\<close>): every handler is called
    exactly once whatever libcurl does, the pending count is right, cancelling ends all requests, results
    go to their own handler, the options of a request, header lines, and that the loops of
    \<^verbatim>\<open>trim_header_token\<close> strip what they should. \<open>Multiplex_Responses\<close>: a response is exactly what curl delivered
    for its transfer, however it was cut and interleaved. \<open>Multiplex_Sockets\<close>: the table of sockets is
    exactly the open sockets, none is open after a cancellation, and the destructor, when it comes to its end, has
    taken everything down in the order curl demands; it does not when curl calls it back for a timeout or a socket.
    \<open>Multiplex_Driving\<close>: what curl declares in its callbacks is watched, each socket of the client in every direction
    of curl's interest, and the timer is armed for the timeout curl asked for. The locale \<open>callback_property\<close>
    lifts a property of the single callbacks to everything that curl may call back.

  \<^bold>\<open>Conventions.\<close> A class is a record with the class's data members, followed by fields for its
  surroundings: closures posted and not yet run, asynchronous operations started and not yet completed,
  and a trace of the calls on libraries and handlers. A member function is a function on the record.
  \<^verbatim>\<open>std::error_code\<close> is an option, \<open>None\<close> for the empty code; a failed \<^verbatim>\<open>assert\<close> is the result \<open>None\<close>. Positions and
  generations are 64-bit words and wrap around; durations are integers without
  bound, except that the doubling of the reconnect delay is done in 64 bits. A few events of a trace record what
  is said to the program, or what it does to its queue, rather than what it calls: a request to connect, a write
  that enters or leaves the queue, a callback of curl, the return from curl. They have no effect and only serve to state properties.
  Asio, Beast, OpenSSL, libcurl and the operating system are not part of the sources. Their results are
  inputs: a run is a list of inputs, each of which runs a posted closure or completes a pending
  operation with any outcome, in any order and arbitrarily late. Hence a theorem on all runs holds for
  every interleaving and every behaviour of these libraries. Where an input completes an operation
  that is not pending it has no effect.
  A few theorems do need a library to keep its word; its documented behaviour is then a hypothesis:
  \<open>ssl_contract\<close> (\<open>Tls_Context\<close>), \<open>beast_contract\<close> (message fields, \<open>Https_Refinement\<close>), \<open>beast_reads\<close> (a
  message is no longer than the limit set for it, and a read on a stream that has been destroyed fails,
  \<open>WebSocket_Reads\<close>), \<open>timer_contract\<close> (operations of a timer make
  handlers ready, the executor calls them; \<open>Timer\<close>), \<open>timers_contract\<close> and \<open>retry_contract\<close> (a wait of Asio's timer that
  was not cancelled ends without an error, and the clock does not go back; \<open>WebSocket_Progress\<close>,
  \<open>Reconnecting_Automaton\<close>), \<open>openssl_reports\<close> (a failed call of OpenSSL leaves an error in its queue;
  \<open>Reconnecting_Progress\<close>) and \<open>wait_contract\<close> (a wait on an open socket that was not cancelled ends without an error;
  \<open>Multiplex_Driving\<close>). One rests on how the client is used: \<open>attempts_apart\<close> (no attempt to connect
  begins while a handshake of an earlier one is outstanding; \<open>WebSocket_Security\<close>). Each is shown to hold for a
  concrete instance.

  \<^bold>\<open>Bounds.\<close> Theorems that rely on generations being different assume fewer than \<open>2 ^ 64\<close> inputs, so that
  the 64-bit generation cannot come round. The loop of \<^verbatim>\<open>fail_pending_writes\<close> is a recursion on the number of
  queued slots; \<open>fail_pending_writes_terminates\<close> shows that this is the loop of the source, which
  ends whatever the handlers do, because a handler cannot queue a write while the client is
  closing.

  \<^bold>\<open>What the model showed.\<close> \<open>stale_resolution_aborts_next_attempt\<close>: completions of an abandoned attempt to
  connect are taken for those of the next one, and \<open>stale_handshake_skips_stages\<close>: so a WebSocket handshake is
  started on a stream that was given no host name; \<open>reconnecting_client_stuck\<close>: the reconnecting client then
  stays in the state connecting for good; \<open>rejected_connect_changes_host\<close>: a rejected \<^verbatim>\<open>connect\<close> changes the host of
  the attempt in progress; \<open>reconnect_delay_exceeds_max\<close>: the first delay after a connection is not capped;
  \<open>read_waits_accumulate\<close>: waits on a socket polled in both directions pile up; \<open>redirect_headers_kept\<close>: the
  headers of a redirect are returned among those of the final response; \<open>ready_twice\<close>: a ready callback called
  twice leaves the base class connected while the reconnecting client retries for ever;
  \<open>cancel_closes_pooled_socket\<close>: a cancellation closes sockets that curl still holds, and once their descriptors
  are used again curl closes the socket of a later request; \<open>destructor_ends_program\<close>: with two transfers outstanding the
  destructor of the multiplexing client is called back by curl, throws, and ends the program.

  \<^bold>\<open>What is not modelled.\<close> The order of iteration of \<^verbatim>\<open>std::unordered_map\<close> (the multiplexing client's
  tables are lists in order of insertion), the allocator bound to write handlers, the texts written to
  \<^verbatim>\<open>std::cerr\<close> except those on the TLS context, the exhaustion of memory (a null result of
  \<^verbatim>\<open>curl_slist_append\<close>, \<^verbatim>\<open>std::bad_alloc\<close>), the cleanup of libcurl at the end of the process, shared
  ownership of the clients (\<^verbatim>\<open>create\<close>, \<^verbatim>\<open>get_self\<close>: a handler's reference keeps its client alive), and the
  programs around the library: tests, benchmarks, build files.
\<close>

end
